(* ===== verification/Prelude.thy ===== *)
theory Prelude
  imports Main "HOL-Library.Word" "HOL-Library.AList"
begin

text \<open>
  Shared vocabulary of the ObscuraProto development: the machine integer types, the
  library's exceptions (\<^verbatim>\<open>errors.hpp\<close>) as values, object representations of integers in
  memory (\<^verbatim>\<open>reinterpret_cast<uint8_t*>\<close>), the byte-order functions of the platform, the
  \<^verbatim>\<open>std::map\<close> operations as association lists, and the interfaces (locales) that several
  components implement: byte codecs, prefix-decodable codecs and state machines with an
  invariant.
\<close>

unbundle bit_operations_syntax

section \<open>Machine types\<close>

type_synonym u8 = "8 word"
type_synonym u16 = "16 word"
type_synonym u32 = "32 word"
type_synonym u64 = "64 word"
type_synonym byte_vector = "u8 list"

named_theorems wire_simps \<open>the payloads that the wrappers build, as framed parameters\<close>
named_theorems codec_laws \<open>decode-after-encode rules of the message codecs\<close>

section \<open>Exceptions\<close>

text \<open>
  The exception classes of \<^verbatim>\<open>errors.hpp\<close>. \<open>StdException\<close> stands for any other class derived
  from \<^verbatim>\<open>std::exception\<close> (the standard library's own and those of websocketpp), \<open>Thrown\<close>
  for a value that is no \<^verbatim>\<open>std::exception\<close> at all, which only user callbacks can throw.
  \<open>UndefinedBehaviour\<close> is no exception of the program: it marks a branch in which the code
  would dereference a null pointer.
\<close>

datatype exn =
    Exception string
  | RuntimeError string
  | LogicError string
  | InvalidArgument string
  | TimeoutError string
  | StdException string
  | Thrown nat
  | UndefinedBehaviour string

type_synonym 'a result = "exn + 'a"

text \<open>Whether a handler \<^verbatim>\<open>catch (const std::exception&)\<close> catches the exception.\<close>

fun is_std_exception :: "exn \<Rightarrow> bool" where
  "is_std_exception (Thrown _) = False"
| "is_std_exception (UndefinedBehaviour _) = False"
| "is_std_exception _ = True"

text \<open>The class hierarchy: \<^verbatim>\<open>InvalidArgument\<close> is a \<^verbatim>\<open>LogicError\<close>, \<^verbatim>\<open>TimeoutError\<close> is a
  \<^verbatim>\<open>RuntimeError\<close>.\<close>

fun is_LogicError :: "exn \<Rightarrow> bool" where
  "is_LogicError (LogicError _) = True"
| "is_LogicError (InvalidArgument _) = True"
| "is_LogicError _ = False"

fun is_RuntimeError :: "exn \<Rightarrow> bool" where
  "is_RuntimeError (RuntimeError _) = True"
| "is_RuntimeError (TimeoutError _) = True"
| "is_RuntimeError _ = False"

text \<open>
  Calls that may throw, on a state: sequencing stops at an exception with the state as it is then;
  \<open>catch_std\<close> is \<^verbatim>\<open>catch (const std::exception&)\<close> around a block.
\<close>

definition and_then :: "'a result \<times> 's \<Rightarrow> ('a \<Rightarrow> 's \<Rightarrow> 'b result \<times> 's) \<Rightarrow> 'b result \<times> 's" where
  "and_then x f = (case x of (Inl e, s) \<Rightarrow> (Inl e, s) | (Inr a, s) \<Rightarrow> f a s)"

definition catch_std :: "'a result \<times> 's \<Rightarrow> ('s \<Rightarrow> 'a result \<times> 's) \<Rightarrow> 'a result \<times> 's" where
  "catch_std x handler =
     (case x of
        (Inl e, s) \<Rightarrow> if is_std_exception e then handler s else (Inl e, s)
      | (Inr a, s) \<Rightarrow> (Inr a, s))"

lemma and_then_simps [simp]:
  "and_then (Inl e, s) f = (Inl e, s)" "and_then (Inr a, s) f = f a s"
  by (simp_all add: and_then_def)

lemma catch_std_simps [simp]:
  "catch_std (Inr a, s) h = (Inr a, s)"
  "catch_std (Inl e, s) h = (if is_std_exception e then h s else (Inl e, s))"
  by (simp_all add: catch_std_def)

text \<open>What relates the state before a call to the state after it passes through both.\<close>

lemma and_then_rel:
  assumes "transp R" and "R s (snd x)" and "\<And>a t. x = (Inr a, t) \<Longrightarrow> R t (snd (f a t))"
  shows "R s (snd (and_then x f))"
  using assms by (cases x) (auto simp: and_then_def split: sum.splits dest: transpD)

lemma catch_std_rel:
  assumes "transp R" and "R s (snd x)" and "\<And>e t. x = (Inl e, t) \<Longrightarrow> R t (snd (h t))"
  shows "R s (snd (catch_std x h))"
  using assms by (cases x) (auto simp: catch_std_def split: sum.splits dest: transpD)

section \<open>Object representations and byte order\<close>

text \<open>
  The object representation of an unsigned integer on a little-endian host: the bytes that
  \<^verbatim>\<open>reinterpret_cast<uint8_t*>(&x)\<close> sees, least significant first, and the integer that
  copying bytes over its storage yields.
\<close>

fun store_le :: "nat \<Rightarrow> 'a::len word \<Rightarrow> byte_vector" where
  "store_le 0 w = []"
| "store_le (Suc n) w = ucast w # store_le n (drop_bit 8 w)"

fun load_le :: "byte_vector \<Rightarrow> 'a::len word" where
  "load_le [] = 0"
| "load_le (b # bs) = ucast b OR push_bit 8 (load_le bs)"

text \<open>\<^verbatim>\<open>htons\<close>, \<^verbatim>\<open>htonl\<close> and their inverses reverse the object representation on such a host.\<close>

definition byteswap :: "nat \<Rightarrow> 'a::len word \<Rightarrow> 'a word" where
  "byteswap n w = load_le (rev (store_le n w))"

definition htons :: "u16 \<Rightarrow> u16" where "htons x = byteswap 2 x"
definition ntohs :: "u16 \<Rightarrow> u16" where "ntohs x = byteswap 2 x"
definition htonl :: "u32 \<Rightarrow> u32" where "htonl x = byteswap 4 x"
definition ntohl :: "u32 \<Rightarrow> u32" where "ntohl x = byteswap 4 x"

lemma length_store_le [simp]: "length (store_le n w) = n"
  by (induction n arbitrary: w) auto

lemma store_le_eq_Nil_iff [simp]: "store_le n w = [] \<longleftrightarrow> n = 0"
  by (metis length_0_conv length_store_le)

lemma load_store_le: "load_le (store_le n w) = take_bit (8 * n) w"
proof (induction n arbitrary: w)
  case 0
  then show ?case by simp
next
  case (Suc n)
  show ?case
    by (rule bit_word_eqI)
      (auto simp: Suc.IH bit_or_iff bit_push_bit_iff bit_take_bit_iff bit_drop_bit_eq bit_ucast_iff
        not_less dest: bit_imp_le_length)
qed

lemma store_le_cong:
  fixes v :: "'a::len word" and w :: "'b::len word"
  assumes "\<And>i. i < 8 * n \<Longrightarrow> bit v i = bit w i"
  shows "store_le n v = store_le n w"
  using assms
proof (induction n arbitrary: v w)
  case 0
  then show ?case by simp
next
  case (Suc n)
  have "(ucast v :: u8) = ucast w"
    using Suc.prems by (intro bit_word_eqI) (auto simp: bit_ucast_iff)
  moreover have "store_le n (drop_bit 8 v) = store_le n (drop_bit 8 w)"
    using Suc.prems by (intro Suc.IH) (simp add: bit_drop_bit_eq)
  ultimately show ?case by simp
qed

lemma store_load_le:
  assumes "8 * length bs \<le> LENGTH('a)"
  shows "store_le (length bs) (load_le bs :: 'a::len word) = bs"
  using assms
proof (induction bs)
  case Nil
  then show ?case by simp
next
  case (Cons b bs)
  let ?w = "ucast b OR push_bit 8 (load_le bs) :: 'a word"
  have lo: "ucast ?w = b"
    using Cons.prems
    by (intro bit_word_eqI) (auto simp: bit_ucast_iff bit_or_iff bit_push_bit_iff)
  have hi: "store_le (length bs) (drop_bit 8 ?w) = store_le (length bs) (load_le bs :: 'a word)"
    using Cons.prems
    by (intro store_le_cong)
      (auto simp: bit_drop_bit_eq bit_or_iff bit_push_bit_iff bit_ucast_iff dest: bit_imp_le_length)
  show ?case using lo hi Cons by simp
qed

lemma store_le_byteswap:
  "8 * n \<le> LENGTH('a) \<Longrightarrow> store_le n (byteswap n (w :: 'a::len word)) = rev (store_le n w)"
  using store_load_le [of "rev (store_le n w)", where 'a = 'a] by (simp add: byteswap_def)

lemma byteswap_byteswap:
  "8 * n = LENGTH('a) \<Longrightarrow> byteswap n (byteswap n (w :: 'a::len word)) = w"
  by (simp add: byteswap_def [of n "byteswap n w"] store_le_byteswap load_store_le)

lemma ntohs_htons [simp]: "ntohs (htons x) = x" by (simp add: htons_def ntohs_def byteswap_byteswap)
lemma ntohl_htonl [simp]: "ntohl (htonl x) = x" by (simp add: htonl_def ntohl_def byteswap_byteswap)

lemma store_le_append:
  "store_le (m + n) w = store_le m w @ store_le n (drop_bit (8 * m) w)"
  by (induction m arbitrary: w) (auto simp: algebra_simps)

lemma load_store_le_full: "8 * n = LENGTH('a) \<Longrightarrow> load_le (store_le n (w :: 'a::len word)) = w"
  by (simp add: load_store_le)

lemma ntohs_load_store [simp]: "ntohs (load_le (store_le 2 (htons x))) = x"
  by (subst load_store_le_full) simp_all

lemma ntohl_load_store [simp]: "ntohl (load_le (store_le 4 (htonl x))) = x"
  by (subst load_store_le_full) simp_all

text \<open>Reading an integer back from bytes that were copied out of one: the bytes are unchanged.\<close>

lemma store_htons_ntohs:
  "length bs = 2 \<Longrightarrow> store_le 2 (htons (ntohs (load_le bs))) = bs"
  using store_load_le [of bs, where 'a = 16]
  by (simp add: htons_def ntohs_def byteswap_byteswap)

section \<open>Byte buffers\<close>

text \<open>
  \<^verbatim>\<open>v.resize(n)\<close> on an empty vector gives \<open>n\<close> zero bytes; a C function that writes its output
  through a pointer to the buffer overwrites the bytes from \<open>off\<close> on.
\<close>

definition zeros :: "nat \<Rightarrow> byte_vector" where
  "zeros n = replicate n 0"

definition write_at :: "nat \<Rightarrow> byte_vector \<Rightarrow> byte_vector \<Rightarrow> byte_vector" where
  "write_at off bs buf = take off buf @ bs @ drop (off + length bs) buf"

lemma length_zeros [simp]: "length (zeros n) = n"
  by (simp add: zeros_def)

lemma write_at_full [simp]: "length bs = n \<Longrightarrow> write_at 0 bs (zeros n) = bs"
  by (simp add: write_at_def)

lemma length_write_at [simp]:
  "off + length bs \<le> length buf \<Longrightarrow> length (write_at off bs buf) = length buf"
  by (simp add: write_at_def)

section \<open>std::map as an association list\<close>

text \<open>
  \<^verbatim>\<open>m.find(k)\<close>, \<^verbatim>\<open>m[k] = v\<close> and \<^verbatim>\<open>m.erase(k)\<close>. The keys of a map built from the empty one with
  these are distinct (\<open>keys_ok\<close>). The iteration order of \<^verbatim>\<open>std::map\<close> is not represented.
\<close>

type_synonym ('k, 'v) amap = "('k \<times> 'v) list"

abbreviation m_find :: "('k, 'v) amap \<Rightarrow> 'k \<Rightarrow> 'v option" where
  "m_find \<equiv> map_of"

abbreviation m_put :: "'k \<Rightarrow> 'v \<Rightarrow> ('k, 'v) amap \<Rightarrow> ('k, 'v) amap" where
  "m_put k v m \<equiv> AList.update k v m"

abbreviation m_erase :: "'k \<Rightarrow> ('k, 'v) amap \<Rightarrow> ('k, 'v) amap" where
  "m_erase k m \<equiv> AList.delete k m"

definition keys_ok :: "('k, 'v) amap \<Rightarrow> bool" where
  "keys_ok m \<longleftrightarrow> distinct (map fst m)"

lemma m_find_put [simp]: "m_find (m_put k v m) k' = (if k' = k then Some v else m_find m k')"
  by (simp add: update_conv')

lemma m_find_erase [simp]: "m_find (m_erase k m) k' = (if k' = k then None else m_find m k')"
  by (simp add: delete_conv')

lemma keys_ok_Nil [simp, intro]: "keys_ok []"
  by (simp add: keys_ok_def)

lemma keys_ok_put [simp, intro]: "keys_ok m \<Longrightarrow> keys_ok (m_put k v m)"
  by (simp add: keys_ok_def distinct_update)

lemma keys_ok_erase [simp, intro]: "keys_ok m \<Longrightarrow> keys_ok (m_erase k m)"
  by (simp add: keys_ok_def distinct_delete)

lemma keys_ok_filter [simp, intro]: "keys_ok m \<Longrightarrow> keys_ok (filter P m)"
  by (auto simp: keys_ok_def distinct_map intro: inj_on_subset)

lemma m_find_filter:
  "keys_ok m \<Longrightarrow> m_find (filter P m) k
     = (case m_find m k of None \<Rightarrow> None | Some v \<Rightarrow> if P (k, v) then Some v else None)"
proof (induction m)
  case (Cons p m)
  then have "m_find m (fst p) = None" and "keys_ok m"
    by (simp_all add: keys_ok_def map_of_eq_None_iff)
  with Cons.IH show ?case
    by (cases p; cases "k = fst p") (auto split: option.splits)
qed simp

text \<open>Inserting a new key and erasing a present one, seen on the list of entries.\<close>

lemma m_put_fresh: "m_find m k = None \<Longrightarrow> m_put k v m = m @ [(k, v)]"
  by (induction m) auto

lemma keys_ok_snoc: "m_find m k = None \<Longrightarrow> keys_ok (m @ [(k, v)]) = keys_ok m"
  by (simp add: keys_ok_def map_of_eq_None_iff)

lemma m_erase_absent: "m_find m k = None \<Longrightarrow> m_erase k m = m"
  by (induction m) auto

lemma length_filter_erase:
  "keys_ok m \<Longrightarrow> m_find m k = Some v \<Longrightarrow>
     length (filter P m) = length (filter P (m_erase k m)) + (if P (k, v) then 1 else 0)"
proof (induction m)
  case (Cons p m)
  then have "k = fst p \<Longrightarrow> m_erase k m = m"
    by (auto simp: keys_ok_def map_of_eq_None_iff intro!: m_erase_absent)
  with Cons show ?case
    by (cases "k = fst p") (auto simp: keys_ok_def)
qed simp

lemma length_erase:
  "keys_ok m \<Longrightarrow> m_find m k = Some v \<Longrightarrow> length m = Suc (length (m_erase k m))"
  using length_filter_erase [of m k v "\<lambda>_. True"] by simp

lemma set_m_erase: "set (m_erase k m) \<subseteq> set m"
  by (induction m) auto

section \<open>Interfaces\<close>

subsection \<open>Byte codecs\<close>

text \<open>
  A message type with a serializer and a deserializer that fails with an exception. The
  deserializer recovers every message that satisfies \<open>ok\<close> from its encoding.
\<close>

locale byte_codec =
  fixes enc :: "'a \<Rightarrow> byte_vector"
    and dec :: "byte_vector \<Rightarrow> 'a result"
    and ok :: "'a \<Rightarrow> bool"
  assumes dec_enc: "ok a \<Longrightarrow> dec (enc a) = Inr a"
begin

lemma enc_inj: "ok a \<Longrightarrow> ok b \<Longrightarrow> enc a = enc b \<Longrightarrow> a = b"
  by (metis dec_enc sum.inject(2))

lemma dec_image: "dec bs = Inl e \<Longrightarrow> \<not> (\<exists>a. ok a \<and> enc a = bs)"
  by (metis dec_enc sum.distinct(1))

end

text \<open>
  A codec whose decoder ignores what follows the message: no encoding is a proper prefix of
  another message's encoding, so messages can be read off a longer buffer.
\<close>

locale prefix_codec =
  fixes enc :: "'a \<Rightarrow> byte_vector"
    and dec :: "byte_vector \<Rightarrow> 'a result"
    and ok :: "'a \<Rightarrow> bool"
  assumes dec_enc_append: "ok a \<Longrightarrow> dec (enc a @ rest) = Inr a"
begin

lemma prefix_free: "ok a \<Longrightarrow> ok b \<Longrightarrow> enc a @ xs = enc b @ ys \<Longrightarrow> a = b \<and> xs = ys"
proof -
  assume "ok a" "ok b" and eq: "enc a @ xs = enc b @ ys"
  then have "a = b"
    by (metis dec_enc_append sum.inject(2))
  then show "a = b \<and> xs = ys"
    using eq by simp
qed

end

sublocale prefix_codec \<subseteq> byte_codec enc dec ok
proof unfold_locales
  fix a
  assume "ok a"
  then show "dec (enc a) = Inr a"
    using dec_enc_append [of a "[]"] by simp
qed

subsection \<open>State machines\<close>

text \<open>
  A component with state: an initial condition, a step relation (one step is one call of an
  operation, or one critical section of it) and an invariant every step keeps. What holds of
  all reachable states is proved once here.
\<close>

locale machine =
  fixes init :: "'s \<Rightarrow> bool"
    and step :: "'s \<Rightarrow> 's \<Rightarrow> bool"
    and inv :: "'s \<Rightarrow> bool"
  assumes init_inv: "init s \<Longrightarrow> inv s"
    and step_inv: "inv s \<Longrightarrow> step s t \<Longrightarrow> inv t"
begin

lemma steps_inv: "step\<^sup>*\<^sup>* s t \<Longrightarrow> inv s \<Longrightarrow> inv t"
  by (induction rule: rtranclp_induct) (auto intro: step_inv)

lemma reachable_inv: "init s \<Longrightarrow> step\<^sup>*\<^sup>* s t \<Longrightarrow> inv t"
  using init_inv steps_inv by blast

end

section \<open>Left-to-right maxima\<close>

text \<open>The left-to-right maxima of a list under a key: the elements whose key exceeds that of every
  element before them.\<close>

fun ltr_maxima :: "('a \<Rightarrow> 'b :: linorder) \<Rightarrow> 'a list \<Rightarrow> 'a list" where
  "ltr_maxima f [] = []"
| "ltr_maxima f (x # xs) = x # ltr_maxima f (filter (\<lambda>y. f x < f y) xs)"

lemma ltr_maxima_cong:
  "(\<And>x y. x \<in> set xs \<Longrightarrow> y \<in> set xs \<Longrightarrow> f x < f y \<longleftrightarrow> g x < g y) \<Longrightarrow> ltr_maxima f xs = ltr_maxima g xs"
proof (induction f xs rule: ltr_maxima.induct)
  case (2 f x xs)
  have "filter (\<lambda>y. f x < f y) xs = filter (\<lambda>y. g x < g y) xs"
    using 2(2) by (intro filter_cong) auto
  then show ?case using 2 by simp
qed simp

lemma ltr_maxima_length_le: "length (ltr_maxima f xs) \<le> length xs"
  by (induction f xs rule: ltr_maxima.induct) (auto intro: order_trans [OF _ length_filter_le])

lemma ltr_maxima_all: "length (ltr_maxima f xs) = length xs \<longleftrightarrow> sorted_wrt (\<lambda>x y. f x < f y) xs"
proof (induction f xs rule: ltr_maxima.induct)
  case (2 f x xs)
  let ?rest = "filter (\<lambda>y. f x < f y) xs"
  show ?case
  proof (cases "?rest = xs")
    case True
    then show ?thesis using 2 by (simp add: filter_id_conv)
  next
    case False
    then have "length (ltr_maxima f ?rest) < length xs" "\<not> (\<forall>y \<in> set xs. f x < f y)"
      using ltr_maxima_length_le [of f ?rest] length_filter_less [of _ xs "\<lambda>y. f x < f y"]
      by (auto simp: filter_id_conv intro: order_le_less_trans)
    then show ?thesis by auto
  qed
qed simp

lemma ltr_maxima_id: "sorted_wrt (\<lambda>x y. f x < f y) xs \<Longrightarrow> ltr_maxima f xs = xs"
proof (induction f xs rule: ltr_maxima.induct)
  case (2 f x xs)
  then have "filter (\<lambda>y. f x < f y) xs = xs" by (simp add: filter_id_conv)
  then show ?case using 2 by simp
qed simp

end
