(* ===== verification/Packet.thy ===== *)
theory Packet
  imports Prelude
begin

text \<open>
  The payload format of \<^verbatim>\<open>packet.hpp\<close> and \<^verbatim>\<open>packet.cpp\<close>: \<^verbatim>\<open>Payload\<close> (two bytes of opcode in
  network order, then the parameters), \<^verbatim>\<open>PayloadBuilder\<close> (each parameter behind a two-byte
  length) and \<^verbatim>\<open>PayloadReader\<close> (a cursor over the parameters). Signed parameters are modelled
  by the word of their two's complement representation, \<^verbatim>\<open>float\<close> and \<^verbatim>\<open>double\<close> by the word of
  their object representation. The interface \<open>param_codec\<close> is what every
  \<^verbatim>\<open>add_param\<close>/\<^verbatim>\<open>read_param\<close> pair promises; it is interpreted for every parameter type.
\<close>

unbundle bit_operations_syntax

section \<open>64-bit byte order (namespace detail)\<close>

definition htonll_local :: "u64 \<Rightarrow> u64" where
  "htonll_local val =
     push_bit 32 (ucast (htonl (ucast val))) + ucast (htonl (ucast (drop_bit 32 val)))"

definition ntohll_local :: "u64 \<Rightarrow> u64" where
  "ntohll_local val =
     push_bit 32 (ucast (ntohl (ucast val))) + ucast (ntohl (ucast (drop_bit 32 val)))"

section \<open>Payload\<close>

type_synonym OpCode = u16

record payload =
  op_code :: OpCode
  parameters :: byte_vector

definition payload_serialize :: "payload \<Rightarrow> byte_vector" where
  "payload_serialize p = store_le 2 (htons (op_code p)) @ parameters p"

definition payload_deserialize :: "byte_vector \<Rightarrow> payload result" where
  "payload_deserialize data =
     (if length data < 2 then Inl (RuntimeError ''Data too small to be a valid payload.'')
      else Inr \<lparr>op_code = ntohs (load_le (take 2 data)), parameters = drop 2 data\<rparr>)"

section \<open>PayloadBuilder\<close>

record payload_builder =
  builder_payload :: payload

definition PayloadBuilder :: "OpCode \<Rightarrow> payload_builder" where
  "PayloadBuilder op = \<lparr>builder_payload = \<lparr>op_code = op, parameters = []\<rparr>\<rparr>"

definition insert_end :: "byte_vector \<Rightarrow> payload_builder \<Rightarrow> payload_builder" where
  "insert_end bs b = b\<lparr>builder_payload := (builder_payload b)\<lparr>parameters := parameters (builder_payload b) @ bs\<rparr>\<rparr>"

definition add_param_bytes :: "payload_builder \<Rightarrow> byte_vector \<Rightarrow> payload_builder result" where
  "add_param_bytes b param =
     (if length param > 65535
      then Inl (RuntimeError ''Parameter size exceeds maximum of 65535 bytes.'')
      else (let len = (of_nat (length param) :: u16); be_len = htons len
            in Inr (insert_end param (insert_end (store_le 2 be_len) b))))"

definition bytes_of_string :: "string \<Rightarrow> byte_vector" where
  "bytes_of_string s = map of_char s"

definition string_of_bytes :: "byte_vector \<Rightarrow> string" where
  "string_of_bytes bs = map (\<lambda>b. char_of (unat b)) bs"

definition add_param_string :: "payload_builder \<Rightarrow> string \<Rightarrow> payload_builder result" where
  "add_param_string b param = add_param_bytes b (bytes_of_string param)"

text \<open>\<^verbatim>\<open>std::string(const char*)\<close> stops at the first NUL.\<close>

definition add_param_cstr :: "payload_builder \<Rightarrow> string \<Rightarrow> payload_builder result" where
  "add_param_cstr b param = add_param_string b (takeWhile (\<lambda>c. c \<noteq> CHR 0x00) param)"

definition add_param_int8 :: "payload_builder \<Rightarrow> u8 \<Rightarrow> payload_builder result" where
  "add_param_int8 b param = add_param_bytes b [param]"

definition add_param_uint8 :: "payload_builder \<Rightarrow> u8 \<Rightarrow> payload_builder result" where
  "add_param_uint8 b param = add_param_bytes b [param]"

definition add_param_bool :: "payload_builder \<Rightarrow> bool \<Rightarrow> payload_builder result" where
  "add_param_bool b param = add_param_uint8 b (if param then 1 else 0)"

definition add_param_int16 :: "payload_builder \<Rightarrow> u16 \<Rightarrow> payload_builder result" where
  "add_param_int16 b param = (let be_param = htons param in add_param_bytes b (store_le 2 be_param))"

definition add_param_uint16 :: "payload_builder \<Rightarrow> u16 \<Rightarrow> payload_builder result" where
  "add_param_uint16 b param = (let be_param = htons param in add_param_bytes b (store_le 2 be_param))"

definition add_param_int32 :: "payload_builder \<Rightarrow> u32 \<Rightarrow> payload_builder result" where
  "add_param_int32 b param = (let be_param = htonl param in add_param_bytes b (store_le 4 be_param))"

definition add_param_uint32 :: "payload_builder \<Rightarrow> u32 \<Rightarrow> payload_builder result" where
  "add_param_uint32 b param = (let be_param = htonl param in add_param_bytes b (store_le 4 be_param))"

definition add_param_int64 :: "payload_builder \<Rightarrow> u64 \<Rightarrow> payload_builder result" where
  "add_param_int64 b param =
     (let be_param = htonll_local param in add_param_bytes b (store_le 8 be_param))"

definition add_param_uint64 :: "payload_builder \<Rightarrow> u64 \<Rightarrow> payload_builder result" where
  "add_param_uint64 b param =
     (let be_param = htonll_local param in add_param_bytes b (store_le 8 be_param))"

text \<open>The floating-point overloads copy the object representation in host order.\<close>

definition add_param_float :: "payload_builder \<Rightarrow> u32 \<Rightarrow> payload_builder result" where
  "add_param_float b param = add_param_bytes b (store_le 4 param)"

definition add_param_double :: "payload_builder \<Rightarrow> u64 \<Rightarrow> payload_builder result" where
  "add_param_double b param = add_param_bytes b (store_le 8 param)"

text \<open>\<^verbatim>\<open>build()\<close> moves the payload out: the parameters of the moved-from object are empty.\<close>

definition build :: "payload_builder \<Rightarrow> payload \<times> payload_builder" where
  "build b = (builder_payload b, b\<lparr>builder_payload := (builder_payload b)\<lparr>parameters := []\<rparr>\<rparr>)"

section \<open>PayloadReader\<close>

record payload_reader =
  params_data :: byte_vector
  offset :: nat

definition PayloadReader :: "payload \<Rightarrow> payload_reader" where
  "PayloadReader p = \<lparr>params_data = parameters p, offset = 0\<rparr>"

definition has_more :: "payload_reader \<Rightarrow> bool" where
  "has_more r \<longleftrightarrow> offset r < length (params_data r)"

definition peek_next_param_size :: "payload_reader \<Rightarrow> nat result" where
  "peek_next_param_size r =
     (if offset r + 2 > length (params_data r)
      then Inl (RuntimeError ''Invalid payload data: not enough data to read parameter length.'')
      else Inr (unat (ntohs (load_le (take 2 (drop (offset r) (params_data r)))))))"

definition read_param_bytes :: "payload_reader \<Rightarrow> byte_vector result \<times> payload_reader" where
  "read_param_bytes r =
     (if offset r + 2 > length (params_data r)
      then (Inl (RuntimeError ''Invalid payload data: not enough data for parameter length.''), r)
      else let len = unat (ntohs (load_le (take 2 (drop (offset r) (params_data r)))));
               off = offset r + 2
           in if off + len > length (params_data r)
              then (Inl (RuntimeError ''Invalid payload data: not enough data for parameter content.''),
                    r\<lparr>offset := length (params_data r)\<rparr>)
              else (Inr (take len (drop off (params_data r))), r\<lparr>offset := off + len\<rparr>))"

text \<open>
  The template \<^verbatim>\<open>read_param<T>\<close>: the raw parameter must have \<^verbatim>\<open>sizeof(T)\<close> bytes; the \<^verbatim>\<open>conv\<close>
  argument is the copy into a \<open>T\<close> and the byte-order conversion selected by \<^verbatim>\<open>if constexpr\<close>.
\<close>

definition read_param :: "nat \<Rightarrow> (byte_vector \<Rightarrow> 'a) \<Rightarrow> payload_reader \<Rightarrow> 'a result \<times> payload_reader"
  where
  "read_param size_T conv r =
     (case read_param_bytes r of
        (Inl e, r') \<Rightarrow> (Inl e, r')
      | (Inr vec, r') \<Rightarrow>
          if length vec \<noteq> size_T
          then (Inl (RuntimeError
                  ''Invalid payload data: parameter size mismatch for the requested type.''), r')
          else (Inr (conv vec), r'))"

definition read_param_uint8 :: "payload_reader \<Rightarrow> u8 result \<times> payload_reader" where
  "read_param_uint8 = read_param 1 load_le"

definition read_param_bool :: "payload_reader \<Rightarrow> bool result \<times> payload_reader" where
  "read_param_bool = read_param 1 (\<lambda>vec. (load_le vec :: u8) \<noteq> 0)"

definition read_param_uint16 :: "payload_reader \<Rightarrow> u16 result \<times> payload_reader" where
  "read_param_uint16 = read_param 2 (\<lambda>vec. ntohs (load_le vec))"

definition read_param_uint32 :: "payload_reader \<Rightarrow> u32 result \<times> payload_reader" where
  "read_param_uint32 = read_param 4 (\<lambda>vec. ntohl (load_le vec))"

definition read_param_uint64 :: "payload_reader \<Rightarrow> u64 result \<times> payload_reader" where
  "read_param_uint64 = read_param 8 (\<lambda>vec. ntohll_local (load_le vec))"

definition read_param_float :: "payload_reader \<Rightarrow> u32 result \<times> payload_reader" where
  "read_param_float = read_param 4 load_le"

definition read_param_double :: "payload_reader \<Rightarrow> u64 result \<times> payload_reader" where
  "read_param_double = read_param 8 load_le"

definition read_param_string :: "payload_reader \<Rightarrow> string result \<times> payload_reader" where
  "read_param_string r = (case read_param_bytes r of
       (Inl e, r') \<Rightarrow> (Inl e, r')
     | (Inr vec, r') \<Rightarrow> (Inr (string_of_bytes vec), r'))"

section \<open>Reserved opcodes\<close>

definition RESPONSE_op :: OpCode where "RESPONSE_op = 0xFFFF"
definition STREAM_START_op :: OpCode where "STREAM_START_op = 0xFFFD"
definition STREAM_DATA_op :: OpCode where "STREAM_DATA_op = 0xFFFC"
definition STREAM_END_op :: OpCode where "STREAM_END_op = 0xFFFB"
definition STREAM_CANCEL_op :: OpCode where "STREAM_CANCEL_op = 0xFFFA"

section \<open>The overload set, by parameter type\<close>

text \<open>
  Values of the parameter types, and the overloads of \<^verbatim>\<open>add_param\<close> and the instances of
  \<^verbatim>\<open>read_param<T>\<close> selected by the static type.
\<close>

datatype param =
    P_bytes byte_vector | P_string string | P_bool bool
  | P_int8 u8 | P_uint8 u8 | P_int16 u16 | P_uint16 u16 | P_int32 u32 | P_uint32 u32
  | P_int64 u64 | P_uint64 u64 | P_float u32 | P_double u64

datatype ptype =
    T_bytes | T_string | T_bool | T_int8 | T_uint8 | T_int16 | T_uint16 | T_int32 | T_uint32
  | T_int64 | T_uint64 | T_float | T_double

fun type_of :: "param \<Rightarrow> ptype" where
  "type_of (P_bytes _) = T_bytes"
| "type_of (P_string _) = T_string"
| "type_of (P_bool _) = T_bool"
| "type_of (P_int8 _) = T_int8"
| "type_of (P_uint8 _) = T_uint8"
| "type_of (P_int16 _) = T_int16"
| "type_of (P_uint16 _) = T_uint16"
| "type_of (P_int32 _) = T_int32"
| "type_of (P_uint32 _) = T_uint32"
| "type_of (P_int64 _) = T_int64"
| "type_of (P_uint64 _) = T_uint64"
| "type_of (P_float _) = T_float"
| "type_of (P_double _) = T_double"

fun add_param :: "payload_builder \<Rightarrow> param \<Rightarrow> payload_builder result" where
  "add_param b (P_bytes x) = add_param_bytes b x"
| "add_param b (P_string x) = add_param_string b x"
| "add_param b (P_bool x) = add_param_bool b x"
| "add_param b (P_int8 x) = add_param_int8 b x"
| "add_param b (P_uint8 x) = add_param_uint8 b x"
| "add_param b (P_int16 x) = add_param_int16 b x"
| "add_param b (P_uint16 x) = add_param_uint16 b x"
| "add_param b (P_int32 x) = add_param_int32 b x"
| "add_param b (P_uint32 x) = add_param_uint32 b x"
| "add_param b (P_int64 x) = add_param_int64 b x"
| "add_param b (P_uint64 x) = add_param_uint64 b x"
| "add_param b (P_float x) = add_param_float b x"
| "add_param b (P_double x) = add_param_double b x"

definition map_fst :: "('a \<Rightarrow> 'b) \<Rightarrow> 'a result \<times> 'r \<Rightarrow> 'b result \<times> 'r" where
  "map_fst f x = (map_sum id f (fst x), snd x)"

fun read_param_at :: "ptype \<Rightarrow> payload_reader \<Rightarrow> param result \<times> payload_reader" where
  "read_param_at T_bytes r = map_fst P_bytes (read_param_bytes r)"
| "read_param_at T_string r = map_fst P_string (read_param_string r)"
| "read_param_at T_bool r = map_fst P_bool (read_param_bool r)"
| "read_param_at T_int8 r = map_fst P_int8 (read_param_uint8 r)"
| "read_param_at T_uint8 r = map_fst P_uint8 (read_param_uint8 r)"
| "read_param_at T_int16 r = map_fst P_int16 (read_param_uint16 r)"
| "read_param_at T_uint16 r = map_fst P_uint16 (read_param_uint16 r)"
| "read_param_at T_int32 r = map_fst P_int32 (read_param_uint32 r)"
| "read_param_at T_uint32 r = map_fst P_uint32 (read_param_uint32 r)"
| "read_param_at T_int64 r = map_fst P_int64 (read_param_uint64 r)"
| "read_param_at T_uint64 r = map_fst P_uint64 (read_param_uint64 r)"
| "read_param_at T_float r = map_fst P_float (read_param_float r)"
| "read_param_at T_double r = map_fst P_double (read_param_double r)"

text \<open>A chain of \<^verbatim>\<open>add_param\<close> calls, and a sequence of reads; both stop at the first exception.\<close>

fun add_params :: "payload_builder \<Rightarrow> param list \<Rightarrow> payload_builder result" where
  "add_params b [] = Inr b"
| "add_params b (x # xs) = (case add_param b x of Inl e \<Rightarrow> Inl e | Inr b' \<Rightarrow> add_params b' xs)"

fun read_params :: "ptype list \<Rightarrow> payload_reader \<Rightarrow> param list result \<times> payload_reader" where
  "read_params [] r = (Inr [], r)"
| "read_params (t # ts) r =
     (case read_param_at t r of
        (Inl e, r') \<Rightarrow> (Inl e, r')
      | (Inr x, r') \<Rightarrow> map_fst ((#) x) (read_params ts r'))"

text \<open>The bytes of a parameter's value, and its length-prefixed form in the parameter block.\<close>

fun param_bytes :: "param \<Rightarrow> byte_vector" where
  "param_bytes (P_bytes x) = x"
| "param_bytes (P_string x) = bytes_of_string x"
| "param_bytes (P_bool x) = [if x then 1 else 0]"
| "param_bytes (P_int8 x) = [x]"
| "param_bytes (P_uint8 x) = [x]"
| "param_bytes (P_int16 x) = rev (store_le 2 x)"
| "param_bytes (P_uint16 x) = rev (store_le 2 x)"
| "param_bytes (P_int32 x) = rev (store_le 4 x)"
| "param_bytes (P_uint32 x) = rev (store_le 4 x)"
| "param_bytes (P_int64 x) = rev (store_le 8 x)"
| "param_bytes (P_uint64 x) = rev (store_le 8 x)"
| "param_bytes (P_float x) = store_le 4 x"
| "param_bytes (P_double x) = store_le 8 x"

definition framed :: "byte_vector \<Rightarrow> byte_vector" where
  "framed bs = store_le 2 (htons (of_nat (length bs))) @ bs"

definition fits :: "param \<Rightarrow> bool" where
  "fits x \<longleftrightarrow> length (param_bytes x) \<le> 65535"

definition reader_ok :: "payload_reader \<Rightarrow> bool" where
  "reader_ok r \<longleftrightarrow> offset r \<le> length (params_data r)"

section \<open>Byte order: the wire form is big-endian\<close>

lemma store_le_ucast:
  "8 * n \<le> LENGTH('a) \<Longrightarrow> 8 * n \<le> LENGTH('b) \<Longrightarrow>
     store_le n (ucast (w :: 'a::len word) :: 'b::len word) = store_le n w"
  by (rule store_le_cong) (auto simp: bit_ucast_iff)

lemma ntohll_local_eq: "ntohll_local = htonll_local"
  by (simp add: fun_eq_iff ntohll_local_def htonll_local_def ntohl_def htonl_def)

lemma store_le_htons: "store_le 2 (htons x) = rev (store_le 2 x)"
  by (simp add: htons_def store_le_byteswap)

lemma store_le_htonl: "store_le 4 (htonl x) = rev (store_le 4 x)"
  by (simp add: htonl_def store_le_byteswap)

lemma store_le_htonll_local: "store_le 8 (htonll_local val) = rev (store_le 8 val)"
proof -
  let ?hi = "htonl (ucast val)" and ?lo = "htonl (ucast (drop_bit 32 val))"
  have disj: "htonll_local val = push_bit 32 (ucast ?hi) OR ucast ?lo"
    unfolding htonll_local_def
    by (rule disjunctive_add) (auto simp: bit_push_bit_iff bit_ucast_iff dest: bit_imp_le_length)
  have lo: "store_le 4 (htonll_local val) = store_le 4 ?lo"
    unfolding disj by (rule store_le_cong) (auto simp: bit_or_iff bit_push_bit_iff bit_ucast_iff)
  have hi: "store_le 4 (drop_bit 32 (htonll_local val)) = store_le 4 ?hi"
    unfolding disj
    by (rule store_le_cong)
      (auto simp: bit_or_iff bit_push_bit_iff bit_drop_bit_eq bit_ucast_iff dest: bit_imp_le_length)
  have split: "store_le 8 w = store_le 4 w @ store_le 4 (drop_bit 32 w)" for w :: u64
    using store_le_append [of 4 4 w] by simp
  show ?thesis
    by (simp add: split lo hi store_le_htonl store_le_ucast del: One_nat_def)
qed

lemma ntohll_local_htonll_local [simp]: "ntohll_local (htonll_local x) = x"
proof -
  have "store_le 8 (ntohll_local (htonll_local x)) = store_le 8 x"
    by (simp add: ntohll_local_eq store_le_htonll_local)
  then have "load_le (store_le 8 (ntohll_local (htonll_local x))) = (load_le (store_le 8 x) :: u64)"
    by simp
  then show ?thesis
    by (simp add: load_store_le_full)
qed

lemma load_store_u32 [simp]: "(load_le (store_le 4 w) :: u32) = w"
  by (rule load_store_le_full) simp

lemma load_store_u64 [simp]: "(load_le (store_le 8 w) :: u64) = w"
  by (rule load_store_le_full) simp

lemma load_le_singleton [simp]: "(load_le [b] :: u8) = b"
  by simp

section \<open>Payload round trip\<close>

interpretation payload_codec: byte_codec payload_serialize payload_deserialize "\<lambda>_. True"
  by unfold_locales (simp add: payload_serialize_def payload_deserialize_def)

lemma payload_deserialize_serialize [simp]: "payload_deserialize (payload_serialize p) = Inr p"
  by (rule payload_codec.dec_enc) simp

lemma payload_serialize_deserialize:
  "payload_deserialize bs = Inr p \<Longrightarrow> payload_serialize p = bs"
  by (auto simp: payload_serialize_def payload_deserialize_def store_htons_ntohs split: if_splits)

lemma length_payload_serialize [simp]:
  "length (payload_serialize p) = 2 + length (parameters p)"
  by (simp add: payload_serialize_def)

section \<open>Parameters: what the builder writes, the reader reads\<close>

lemma length_framed [simp]: "length (framed bs) = 2 + length bs"
  by (simp add: framed_def)

lemma read_param_bytes_framed:
  assumes "length bs \<le> 65535"
  shows "read_param_bytes \<lparr>params_data = xs @ framed bs @ ys, offset = length xs\<rparr>
       = (Inr bs, \<lparr>params_data = xs @ framed bs @ ys, offset = length xs + 2 + length bs\<rparr>)"
proof -
  have "unat (of_nat (length bs) :: u16) = length bs"
    using assms by (simp add: unat_of_nat)
  then show ?thesis
    by (simp add: read_param_bytes_def framed_def Let_def)
qed

lemma add_param_bytes_ok:
  "length bs \<le> 65535 \<Longrightarrow> add_param_bytes b bs = Inr (insert_end (framed bs) b)"
  by (simp add: add_param_bytes_def insert_end_def framed_def Let_def)

text \<open>
  What a pair of an \<^verbatim>\<open>add_param\<close> overload and the \<^verbatim>\<open>read_param\<close> instance of the same type
  promises: the overload writes \<open>bytes a\<close> through the byte-vector overload, and the reader
  turns exactly these bytes back into \<open>a\<close>, passing on the cursor and the errors of the raw
  read.
\<close>

locale param_codec =
  fixes add :: "payload_builder \<Rightarrow> 'a \<Rightarrow> payload_builder result"
    and rd :: "payload_reader \<Rightarrow> 'a result \<times> payload_reader"
    and bytes :: "'a \<Rightarrow> byte_vector"
  assumes add_raw: "add b a = add_param_bytes b (bytes a)"
    and rd_raw: "read_param_bytes r = (Inr (bytes a), r') \<Longrightarrow> rd r = (Inr a, r')"
    and rd_raw_error: "read_param_bytes r = (Inl e, r') \<Longrightarrow> rd r = (Inl e, r')"
begin

lemma add_framed:
  "length (bytes a) \<le> 65535 \<Longrightarrow> add b a = Inr (insert_end (framed (bytes a)) b)"
  by (simp add: add_raw add_param_bytes_ok)

lemma add_too_long:
  "length (bytes a) > 65535 \<Longrightarrow>
     add b a = Inl (RuntimeError ''Parameter size exceeds maximum of 65535 bytes.'')"
  by (simp add: add_raw add_param_bytes_def)

lemma rd_framed:
  "length (bytes a) \<le> 65535 \<Longrightarrow>
     rd \<lparr>params_data = xs @ framed (bytes a) @ ys, offset = length xs\<rparr>
       = (Inr a, \<lparr>params_data = xs @ framed (bytes a) @ ys,
                  offset = length xs + 2 + length (bytes a)\<rparr>)"
  by (rule rd_raw) (rule read_param_bytes_framed)

text \<open>Different values give different parameters, so the reader never confuses them.\<close>

lemma bytes_inj: "length (bytes a) \<le> 65535 \<Longrightarrow> bytes a = bytes a' \<Longrightarrow> a = a'"
  using rd_framed [of a "[]" "[]"] rd_framed [of a' "[]" "[]"] by (metis prod.inject sum.inject(2))

end

lemma string_of_bytes_of_string [simp]: "string_of_bytes (bytes_of_string s) = s"
proof -
  have "unat (of_char c :: u8) = of_char c" for c
    by (simp add: of_char_def)
  then show ?thesis
    by (simp add: string_of_bytes_def bytes_of_string_def o_def)
qed

lemmas add_param_defs =
  add_param_string_def add_param_int8_def add_param_uint8_def add_param_bool_def
  add_param_int16_def add_param_uint16_def add_param_int32_def add_param_uint32_def
  add_param_int64_def add_param_uint64_def add_param_float_def add_param_double_def

lemmas read_param_defs =
  read_param_def read_param_uint8_def read_param_bool_def read_param_uint16_def
  read_param_uint32_def read_param_uint64_def read_param_float_def read_param_double_def
  read_param_string_def

interpretation bytes_param: param_codec add_param_bytes read_param_bytes "\<lambda>x. x"
  by unfold_locales auto

interpretation string_param: param_codec add_param_string read_param_string bytes_of_string
  by unfold_locales (auto simp: add_param_defs read_param_defs)

interpretation bool_param: param_codec add_param_bool read_param_bool "\<lambda>x. [if x then 1 else 0]"
  by unfold_locales (auto simp: add_param_defs read_param_defs)

interpretation uint8_param: param_codec add_param_uint8 read_param_uint8 "\<lambda>x. [x]"
  by unfold_locales (auto simp: add_param_defs read_param_defs)

interpretation int8_param: param_codec add_param_int8 read_param_uint8 "\<lambda>x. [x]"
  by unfold_locales (auto simp: add_param_defs read_param_defs)

interpretation uint16_param: param_codec add_param_uint16 read_param_uint16 "\<lambda>x. rev (store_le 2 x)"
  by unfold_locales (auto simp: add_param_defs read_param_defs simp flip: store_le_htons)

interpretation int16_param: param_codec add_param_int16 read_param_uint16 "\<lambda>x. rev (store_le 2 x)"
  by unfold_locales (auto simp: add_param_defs read_param_defs simp flip: store_le_htons)

interpretation uint32_param: param_codec add_param_uint32 read_param_uint32 "\<lambda>x. rev (store_le 4 x)"
  by unfold_locales (auto simp: add_param_defs read_param_defs simp flip: store_le_htonl)

interpretation int32_param: param_codec add_param_int32 read_param_uint32 "\<lambda>x. rev (store_le 4 x)"
  by unfold_locales (auto simp: add_param_defs read_param_defs simp flip: store_le_htonl)

interpretation uint64_param: param_codec add_param_uint64 read_param_uint64 "\<lambda>x. rev (store_le 8 x)"
  by unfold_locales (auto simp: add_param_defs read_param_defs simp flip: store_le_htonll_local)

interpretation int64_param: param_codec add_param_int64 read_param_uint64 "\<lambda>x. rev (store_le 8 x)"
  by unfold_locales (auto simp: add_param_defs read_param_defs simp flip: store_le_htonll_local)

interpretation float_param: param_codec add_param_float read_param_float "\<lambda>x. store_le 4 x"
  by unfold_locales (auto simp: add_param_defs read_param_defs)

interpretation double_param: param_codec add_param_double read_param_double "\<lambda>x. store_le 8 x"
  by unfold_locales (auto simp: add_param_defs read_param_defs)

lemmas add_framed_rules =
  bytes_param.add_framed string_param.add_framed bool_param.add_framed uint8_param.add_framed
  int8_param.add_framed uint16_param.add_framed int16_param.add_framed uint32_param.add_framed
  int32_param.add_framed uint64_param.add_framed int64_param.add_framed float_param.add_framed
  double_param.add_framed

lemmas rd_framed_rules =
  bytes_param.rd_framed string_param.rd_framed bool_param.rd_framed uint8_param.rd_framed
  uint16_param.rd_framed uint32_param.rd_framed uint64_param.rd_framed float_param.rd_framed
  double_param.rd_framed

lemma add_param_framed: "fits x \<Longrightarrow> add_param b x = Inr (insert_end (framed (param_bytes x)) b)"
  by (cases x) (simp_all add: fits_def add_framed_rules)

lemma add_param_too_long:
  "\<not> fits x \<Longrightarrow> add_param b x = Inl (RuntimeError ''Parameter size exceeds maximum of 65535 bytes.'')"
  by (cases x) (simp_all add: fits_def bytes_param.add_too_long string_param.add_too_long)

lemma read_param_at_framed:
  "fits x \<Longrightarrow> read_param_at (type_of x) \<lparr>params_data = xs @ framed (param_bytes x) @ ys, offset = length xs\<rparr>
     = (Inr x, \<lparr>params_data = xs @ framed (param_bytes x) @ ys,
                offset = length xs + 2 + length (param_bytes x)\<rparr>)"
  by (cases x) (simp_all only: read_param_at.simps type_of.simps param_bytes.simps fits_def
      rd_framed_rules map_fst_def fst_conv snd_conv map_sum.simps)

lemma add_params_framed:
  "list_all fits xs \<Longrightarrow>
     add_params b xs = Inr (insert_end (concat (map (\<lambda>x. framed (param_bytes x)) xs)) b)"
  by (induction xs arbitrary: b) (simp_all add: add_param_framed insert_end_def)

lemma add_params_Inr: "add_params b xs = Inr b' \<Longrightarrow> list_all fits xs"
  by (induction xs arbitrary: b)
    (auto split: sum.splits, metis Inl_Inr_False add_param_too_long)

lemma read_params_framed:
  assumes "list_all fits xs"
  shows "read_params (map type_of xs)
           \<lparr>params_data = ps @ concat (map (\<lambda>x. framed (param_bytes x)) xs) @ ys, offset = length ps\<rparr>
       = (Inr xs, \<lparr>params_data = ps @ concat (map (\<lambda>x. framed (param_bytes x)) xs) @ ys,
                   offset = length ps + length (concat (map (\<lambda>x. framed (param_bytes x)) xs))\<rparr>)"
  using assms
proof (induction xs arbitrary: ps)
  case Nil
  then show ?case by simp
next
  case (Cons x xs)
  let ?f = "framed (param_bytes x)" and ?rest = "concat (map (\<lambda>x. framed (param_bytes x)) xs)"
  have "read_param_at (type_of x) \<lparr>params_data = ps @ ?f @ (?rest @ ys), offset = length ps\<rparr>
      = (Inr x, \<lparr>params_data = ps @ ?f @ (?rest @ ys), offset = length ps + 2 + length (param_bytes x)\<rparr>)"
    using Cons.prems by (intro read_param_at_framed) simp
  then show ?case
    using Cons.IH [of "ps @ ?f"] Cons.prems by (simp add: map_fst_def)
qed

section \<open>The cursor of the reader\<close>

lemma read_param_bytes_cursor:
  assumes "reader_ok r"
  shows "params_data (snd (read_param_bytes r)) = params_data r
     \<and> offset r \<le> offset (snd (read_param_bytes r)) \<and> reader_ok (snd (read_param_bytes r))"
  using assms by (auto simp: read_param_bytes_def reader_ok_def Let_def)

lemma read_param_cursor [simp]: "snd (read_param n conv r) = snd (read_param_bytes r)"
  by (auto simp: read_param_def split: prod.splits sum.splits)

lemma read_param_string_cursor [simp]: "snd (read_param_string r) = snd (read_param_bytes r)"
  by (auto simp: read_param_string_def split: prod.splits sum.splits)

text \<open>Whatever the requested type, one read moves the cursor as the raw read does, also when it
  fails because of the size of the parameter.\<close>

lemma read_param_at_cursor: "snd (read_param_at t r) = snd (read_param_bytes r)"
  by (cases t) (simp_all add: map_fst_def read_param_uint8_def read_param_bool_def read_param_uint16_def
      read_param_uint32_def read_param_uint64_def read_param_float_def read_param_double_def)

lemma read_params_cursor:
  "reader_ok r \<Longrightarrow> params_data (snd (read_params ts r)) = params_data r
     \<and> offset r \<le> offset (snd (read_params ts r)) \<and> reader_ok (snd (read_params ts r))"
proof (induction ts arbitrary: r)
  case (Cons t ts)
  have step: "params_data (snd (read_param_at t r)) = params_data r"
    "offset r \<le> offset (snd (read_param_at t r))" "reader_ok (snd (read_param_at t r))"
    using read_param_bytes_cursor [OF Cons.prems] by (simp_all add: read_param_at_cursor)
  show ?case
    using step Cons.IH [OF step(3)]
    by (auto simp: map_fst_def split: prod.splits sum.splits)
qed simp

section \<open>Properties\<close>

text \<open>The payload format is exact. Deserialization accepts precisely the byte strings that
  serialization produces and inverts it; it fails precisely on inputs shorter than an opcode.\<close>

theorem payload_format_exact:
  "(payload_deserialize bs = Inr p \<longleftrightarrow> payload_serialize p = bs)
   \<and> (payload_deserialize bs = Inl e \<longleftrightarrow>
        length bs < 2 \<and> e = RuntimeError ''Data too small to be a valid payload.'')"
  using payload_serialize_deserialize [of bs p] payload_deserialize_serialize [of p]
  by (auto simp: payload_deserialize_def)

text \<open>What a chain of \<open>add_param\<close> calls writes. It succeeds exactly when every parameter has
  at most 65535 bytes; it then appends, in order, each parameter behind its two-byte length,
  with integers in network byte order; otherwise it throws the size error.\<close>

theorem add_params_wire_format:
  "add_params b xs =
     (if list_all fits xs
      then Inr (insert_end (concat (map (\<lambda>x. framed (param_bytes x)) xs)) b)
      else Inl (RuntimeError ''Parameter size exceeds maximum of 65535 bytes.''))"
proof (induction xs arbitrary: b)
  case (Cons x xs)
  then show ?case
    by (cases "fits x") (simp_all add: add_param_framed add_param_too_long insert_end_def)
qed (simp add: insert_end_def)

text \<open>C28: a payload built from any parameters survives the wire: the receiver that reads the
  same types in the same order gets the same values, and its reader is exhausted.\<close>

theorem params_round_trip:
  assumes "add_params (PayloadBuilder op) xs = Inr b"
  shows "\<exists>p r. payload_deserialize (payload_serialize (fst (build b))) = Inr p \<and> op_code p = op
     \<and> read_params (map type_of xs) (PayloadReader p) = (Inr xs, r) \<and> \<not> has_more r"
proof -
  have fit: "list_all fits xs" using assms by (rule add_params_Inr)
  let ?ps = "concat (map (\<lambda>x. framed (param_bytes x)) xs)"
  have b: "fst (build b) = \<lparr>op_code = op, parameters = ?ps\<rparr>"
    using add_params_framed [OF fit, of "PayloadBuilder op"] assms
    by (auto simp: build_def PayloadBuilder_def insert_end_def)
  have "read_params (map type_of xs) \<lparr>params_data = ?ps, offset = 0\<rparr>
      = (Inr xs, \<lparr>params_data = ?ps, offset = length ?ps\<rparr>)"
    using read_params_framed [OF fit, of "[]" "[]"] by simp
  then show ?thesis
    by (simp add: b PayloadReader_def has_more_def)
qed

theorem params_round_trip_witness:
  "\<exists>b p r. add_params (PayloadBuilder 7) [P_uint32 1234, P_string ''ab'', P_bool True] = Inr b
     \<and> payload_deserialize (payload_serialize (fst (build b))) = Inr p \<and> op_code p = 7
     \<and> read_params [T_uint32, T_string, T_bool] (PayloadReader p)
         = (Inr [P_uint32 1234, P_string ''ab'', P_bool True], r) \<and> \<not> has_more r"
proof -
  let ?xs = "[P_uint32 1234, P_string ''ab'', P_bool True]"
  have "list_all fits ?xs"
    by (simp add: fits_def bytes_of_string_def)
  then obtain b where "add_params (PayloadBuilder 7) ?xs = Inr b"
    using add_params_framed by blast
  then show ?thesis
    using params_round_trip [of 7 ?xs b] by simp
qed

text \<open>C37: the reader is safe on arbitrary bytes. No sequence of typed reads, failing ones
  included, moves the cursor beyond the data or backwards or changes the data. A raw read that
  succeeds returns a parameter of the size \<open>peek_next_param_size\<close> announced and moves past it;
  one that fails either had no length field left and does not move, or had too little content
  left and exhausts the reader.\<close>

theorem reader_safe:
  assumes "reader_ok r"
  shows "params_data (snd (read_params ts r)) = params_data r
     \<and> offset r \<le> offset (snd (read_params ts r)) \<and> reader_ok (snd (read_params ts r))
     \<and> (case read_param_bytes r of
          (Inr bs, r') \<Rightarrow> peek_next_param_size r = Inr (length bs)
             \<and> bs = take (length bs) (drop (offset r + 2) (params_data r))
             \<and> r' = r\<lparr>offset := offset r + 2 + length bs\<rparr>
        | (Inl e, r') \<Rightarrow> is_RuntimeError e
             \<and> (if offset r + 2 > length (params_data r) then r' = r else \<not> has_more r'))"
  using read_params_cursor [OF assms, of ts]
  by (auto simp: read_param_bytes_def peek_next_param_size_def has_more_def Let_def)

theorem reader_safe_witness:
  "read_param_bytes \<lparr>params_data = [0, 9, 1], offset = 0\<rparr>
      = (Inl (RuntimeError ''Invalid payload data: not enough data for parameter content.''),
         \<lparr>params_data = [0, 9, 1], offset = 3\<rparr>)
   \<and> reader_ok (snd (read_params [T_string, T_uint8] \<lparr>params_data = [0, 9, 1], offset = 0\<rparr>))"
proof
  show "read_param_bytes \<lparr>params_data = [0, 9, 1], offset = 0\<rparr>
      = (Inl (RuntimeError ''Invalid payload data: not enough data for parameter content.''),
         \<lparr>params_data = [0, 9, 1], offset = 3\<rparr>)"
    by code_simp
  show "reader_ok (snd (read_params [T_string, T_uint8] \<lparr>params_data = [0, 9, 1], offset = 0\<rparr>))"
  proof -
    have "reader_ok \<lparr>params_data = [0, 9, 1], offset = 0\<rparr>" by (simp add: reader_ok_def)
    then show ?thesis using reader_safe by blast
  qed
qed

end
