(* ===== verification/Keys.thy ===== *)
theory Keys
  imports Prelude "HOL-Library.List_Lexorder"
begin

text \<open>
  The key containers of \<^verbatim>\<open>keys.hpp\<close>. A private key's \<^verbatim>\<open>SecureBuffer\<close> appears here by its
  contents. \<^verbatim>\<open>PublicKey\<close> is ordered by the lexicographic order of its bytes, which is what
  the identity map of the server is keyed by.
\<close>

datatype public_key = PublicKey (pk_data: byte_vector)

datatype private_key = PrivateKey (sk_data: byte_vector)

datatype signature = Signature (sig_data: byte_vector)

record key_pair =
  publicKey :: public_key
  privateKey :: private_key

definition operator_less :: "public_key \<Rightarrow> public_key \<Rightarrow> bool" where
  "operator_less a b \<longleftrightarrow> pk_data a < pk_data b"

instantiation public_key :: linorder
begin

definition less_public_key :: "public_key \<Rightarrow> public_key \<Rightarrow> bool" where
  "less_public_key = operator_less"

definition less_eq_public_key :: "public_key \<Rightarrow> public_key \<Rightarrow> bool" where
  "less_eq_public_key a b \<longleftrightarrow> pk_data a \<le> pk_data b"

instance
  by standard
    (auto simp: less_public_key_def operator_less_def less_eq_public_key_def public_key.expand)

end

text \<open>The sizes of libsodium's keys, signatures, nonces and tags, as its manual documents them.\<close>

abbreviation (input) crypto_kx_PUBLICKEYBYTES :: nat where "crypto_kx_PUBLICKEYBYTES \<equiv> 32"
abbreviation (input) crypto_kx_SECRETKEYBYTES :: nat where "crypto_kx_SECRETKEYBYTES \<equiv> 32"
abbreviation (input) crypto_kx_SESSIONKEYBYTES :: nat where "crypto_kx_SESSIONKEYBYTES \<equiv> 32"
abbreviation (input) crypto_sign_PUBLICKEYBYTES :: nat where "crypto_sign_PUBLICKEYBYTES \<equiv> 32"
abbreviation (input) crypto_sign_SECRETKEYBYTES :: nat where "crypto_sign_SECRETKEYBYTES \<equiv> 64"
abbreviation (input) crypto_sign_SEEDBYTES :: nat where "crypto_sign_SEEDBYTES \<equiv> 32"
abbreviation (input) crypto_sign_BYTES :: nat where "crypto_sign_BYTES \<equiv> 64"
abbreviation (input) crypto_aead_KEYBYTES :: nat where "crypto_aead_KEYBYTES \<equiv> 32"
abbreviation (input) crypto_aead_NPUBBYTES :: nat where "crypto_aead_NPUBBYTES \<equiv> 12"
abbreviation (input) crypto_aead_ABYTES :: nat where "crypto_aead_ABYTES \<equiv> 16"

end
