(* ===== verification/Crypto.thy ===== *)
theory Crypto
  imports Packet Keys
begin

text \<open>
  The static methods of \<^verbatim>\<open>Crypto\<close> (\<^verbatim>\<open>crypto.hpp\<close>, \<^verbatim>\<open>crypto.cpp\<close>). libsodium is not part of the
  repository: it is a parameter, the record \<open>sodium\<close> with one function per C function the code
  calls (an argument of type \<open>nat\<close> stands for the randomness drawn by one call). What the
  code relies on is the predicate \<open>sodium_ok\<close>: the documented output sizes, that signatures
  made with a generated key verify, that both sides of a key exchange derive the same keys
  crosswise, and that AEAD decryption inverts encryption and accepts nothing else.
\<close>

section \<open>libsodium\<close>

record sodium =
  sodium_init :: int
  crypto_kx_keypair :: "nat \<Rightarrow> byte_vector \<times> byte_vector"
  crypto_sign_keypair :: "nat \<Rightarrow> byte_vector \<times> byte_vector"
  crypto_sign_seed_keypair :: "byte_vector \<Rightarrow> (byte_vector \<times> byte_vector) option"
  crypto_sign_ed25519_sk_to_pk :: "byte_vector \<Rightarrow> byte_vector"
  crypto_sign_detached :: "byte_vector \<Rightarrow> byte_vector \<Rightarrow> byte_vector"
    \<comment> \<open>message, secret key\<close>
  crypto_sign_verify_detached :: "byte_vector \<Rightarrow> byte_vector \<Rightarrow> byte_vector \<Rightarrow> bool"
    \<comment> \<open>signature, message, public key; whether the C function returns 0\<close>
  crypto_kx_client_session_keys ::
    "byte_vector \<Rightarrow> byte_vector \<Rightarrow> byte_vector \<Rightarrow> (byte_vector \<times> byte_vector) option"
    \<comment> \<open>client public key, client secret key, server public key; (rx, tx) when it returns 0\<close>
  crypto_kx_server_session_keys ::
    "byte_vector \<Rightarrow> byte_vector \<Rightarrow> byte_vector \<Rightarrow> (byte_vector \<times> byte_vector) option"
  crypto_aead_encrypt :: "byte_vector \<Rightarrow> byte_vector \<Rightarrow> byte_vector \<Rightarrow> byte_vector \<Rightarrow> byte_vector"
    \<comment> \<open>message, associated data, nonce, key\<close>
  crypto_aead_decrypt ::
    "byte_vector \<Rightarrow> byte_vector \<Rightarrow> byte_vector \<Rightarrow> byte_vector \<Rightarrow> byte_vector option"
    \<comment> \<open>ciphertext with tag, associated data, nonce, key\<close>
  randombytes_buf :: "nat \<Rightarrow> nat \<Rightarrow> byte_vector"

definition kx_pair :: "sodium \<Rightarrow> byte_vector \<Rightarrow> byte_vector \<Rightarrow> bool" where
  "kx_pair S pk sk \<longleftrightarrow> (\<exists>rnd. crypto_kx_keypair S rnd = (pk, sk))"

definition sign_pair :: "sodium \<Rightarrow> byte_vector \<Rightarrow> byte_vector \<Rightarrow> bool" where
  "sign_pair S pk sk \<longleftrightarrow>
     (\<exists>rnd. crypto_sign_keypair S rnd = (pk, sk)) \<or> (\<exists>seed. crypto_sign_seed_keypair S seed = Some (pk, sk))"

text \<open>The documented behaviour of libsodium that the protocol relies on.\<close>

definition sodium_sizes :: "sodium \<Rightarrow> bool" where
  "sodium_sizes S \<longleftrightarrow>
     (\<forall>pk sk. kx_pair S pk sk \<longrightarrow>
        length pk = crypto_kx_PUBLICKEYBYTES \<and> length sk = crypto_kx_SECRETKEYBYTES)
     \<and> (\<forall>pk sk. sign_pair S pk sk \<longrightarrow>
        length pk = crypto_sign_PUBLICKEYBYTES \<and> length sk = crypto_sign_SECRETKEYBYTES)
     \<and> (\<forall>m sk. length (crypto_sign_detached S m sk) = crypto_sign_BYTES)
     \<and> (\<forall>a b c rx tx. crypto_kx_client_session_keys S a b c = Some (rx, tx) \<longrightarrow>
        length rx = crypto_kx_SESSIONKEYBYTES \<and> length tx = crypto_kx_SESSIONKEYBYTES)
     \<and> (\<forall>a b c rx tx. crypto_kx_server_session_keys S a b c = Some (rx, tx) \<longrightarrow>
        length rx = crypto_kx_SESSIONKEYBYTES \<and> length tx = crypto_kx_SESSIONKEYBYTES)
     \<and> (\<forall>m ad n k. length (crypto_aead_encrypt S m ad n k) = length m + crypto_aead_ABYTES)
     \<and> (\<forall>rnd n. length (randombytes_buf S rnd n) = n)"

definition sodium_sign_correct :: "sodium \<Rightarrow> bool" where
  "sodium_sign_correct S \<longleftrightarrow>
     (\<forall>pk sk m. sign_pair S pk sk \<longrightarrow> crypto_sign_verify_detached S (crypto_sign_detached S m sk) m pk)"

definition sodium_kx_agree :: "sodium \<Rightarrow> bool" where
  "sodium_kx_agree S \<longleftrightarrow>
     (\<forall>cpk csk spk ssk. kx_pair S cpk csk \<longrightarrow> kx_pair S spk ssk \<longrightarrow>
        (\<exists>k1 k2. crypto_kx_client_session_keys S cpk csk spk = Some (k1, k2)
               \<and> crypto_kx_server_session_keys S spk ssk cpk = Some (k2, k1)))"

definition sodium_aead_correct :: "sodium \<Rightarrow> bool" where
  "sodium_aead_correct S \<longleftrightarrow>
     (\<forall>m ad n k. length n = crypto_aead_NPUBBYTES \<longrightarrow> length k = crypto_aead_KEYBYTES \<longrightarrow>
        crypto_aead_decrypt S (crypto_aead_encrypt S m ad n k) ad n k = Some m)
     \<and> (\<forall>c ad n k m. crypto_aead_decrypt S c ad n k = Some m \<longrightarrow> crypto_aead_encrypt S m ad n k = c)"

definition sodium_ok :: "sodium \<Rightarrow> bool" where
  "sodium_ok S \<longleftrightarrow> sodium_sizes S \<and> sodium_sign_correct S \<and> sodium_kx_agree S \<and> sodium_aead_correct S"

section \<open>The operations\<close>

text \<open>\<^verbatim>\<open>secure_wipe\<close>: zeroes the bytes in place, then clears the vector; the second component is
  what is left in the vector's storage.\<close>

definition secure_wipe :: "byte_vector \<Rightarrow> byte_vector \<times> byte_vector" where
  "secure_wipe v = (if v \<noteq> [] then ([], zeros (length v)) else (v, []))"

text \<open>\<^verbatim>\<open>Crypto::init\<close> on the flag \<^verbatim>\<open>g_sodium_initialized\<close>.\<close>

definition crypto_init :: "sodium \<Rightarrow> bool \<Rightarrow> int \<times> bool" where
  "crypto_init S g_sodium_initialized =
     (if g_sodium_initialized then (0, g_sodium_initialized)
      else if sodium_init S < 0 then (-1, g_sodium_initialized)
      else (0, True))"

definition mk_key_pair :: "nat \<Rightarrow> nat \<Rightarrow> byte_vector \<times> byte_vector \<Rightarrow> key_pair" where
  "mk_key_pair pk_size sk_size kp =
     \<lparr>publicKey = PublicKey (write_at 0 (fst kp) (zeros pk_size)),
      privateKey = PrivateKey (write_at 0 (snd kp) (zeros sk_size))\<rparr>"

definition generate_kx_keypair :: "sodium \<Rightarrow> nat \<Rightarrow> key_pair" where
  "generate_kx_keypair S rnd =
     mk_key_pair crypto_kx_PUBLICKEYBYTES crypto_kx_SECRETKEYBYTES (crypto_kx_keypair S rnd)"

definition generate_sign_keypair :: "sodium \<Rightarrow> nat \<Rightarrow> key_pair" where
  "generate_sign_keypair S rnd =
     mk_key_pair crypto_sign_PUBLICKEYBYTES crypto_sign_SECRETKEYBYTES (crypto_sign_keypair S rnd)"

definition keypair_from_seed :: "sodium \<Rightarrow> byte_vector \<Rightarrow> key_pair result" where
  "keypair_from_seed S seed =
     (if length seed \<noteq> crypto_sign_SEEDBYTES
      then Inl (InvalidArgument ''Seed must be exactly 32 bytes.'')
      else case crypto_sign_seed_keypair S seed of
             None \<Rightarrow> Inl (RuntimeError ''Seed expansion failed.'')
           | Some kp \<Rightarrow> Inr (mk_key_pair crypto_sign_PUBLICKEYBYTES crypto_sign_SECRETKEYBYTES kp))"

definition derive_public_key :: "sodium \<Rightarrow> byte_vector \<Rightarrow> public_key result" where
  "derive_public_key S private_key =
     (if length private_key \<noteq> crypto_sign_SECRETKEYBYTES
      then Inl (InvalidArgument ''Private key must be exactly 64 bytes.'')
      else Inr (PublicKey (write_at 0 (crypto_sign_ed25519_sk_to_pk S private_key)
                             (zeros crypto_sign_PUBLICKEYBYTES))))"

definition sign :: "sodium \<Rightarrow> byte_vector \<Rightarrow> private_key \<Rightarrow> signature result" where
  "sign S message private_key =
     (if length (sk_data private_key) \<noteq> crypto_sign_SECRETKEYBYTES
      then Inl (InvalidArgument ''Invalid private key size for signing.'')
      else Inr (Signature (write_at 0 (crypto_sign_detached S message (sk_data private_key))
                             (zeros crypto_sign_BYTES))))"

definition verify :: "sodium \<Rightarrow> signature \<Rightarrow> byte_vector \<Rightarrow> public_key \<Rightarrow> bool" where
  "verify S signature message public_key =
     (if length (sig_data signature) \<noteq> crypto_sign_BYTES
         \<or> length (pk_data public_key) \<noteq> crypto_sign_PUBLICKEYBYTES
      then False
      else crypto_sign_verify_detached S (sig_data signature) message (pk_data public_key))"

record session_keys =
  rx :: byte_vector
  tx :: byte_vector

definition fill_session_keys :: "byte_vector \<times> byte_vector \<Rightarrow> session_keys" where
  "fill_session_keys out =
     \<lparr>rx = write_at 0 (fst out) (zeros crypto_kx_SESSIONKEYBYTES),
      tx = write_at 0 (snd out) (zeros crypto_kx_SESSIONKEYBYTES)\<rparr>"

definition client_compute_session_keys ::
  "sodium \<Rightarrow> key_pair \<Rightarrow> public_key \<Rightarrow> session_keys result" where
  "client_compute_session_keys S client_kx_kp server_eph_pk =
     (if length (pk_data (publicKey client_kx_kp)) \<noteq> crypto_kx_PUBLICKEYBYTES
         \<or> length (sk_data (privateKey client_kx_kp)) \<noteq> crypto_kx_SECRETKEYBYTES
         \<or> length (pk_data server_eph_pk) \<noteq> crypto_kx_PUBLICKEYBYTES
      then Inl (InvalidArgument ''Invalid key sizes for client session key computation.'')
      else case crypto_kx_client_session_keys S (pk_data (publicKey client_kx_kp))
                  (sk_data (privateKey client_kx_kp)) (pk_data server_eph_pk) of
             None \<Rightarrow> Inl (RuntimeError ''Failed to compute client session keys.'')
           | Some out \<Rightarrow> Inr (fill_session_keys out))"

definition server_compute_session_keys ::
  "sodium \<Rightarrow> key_pair \<Rightarrow> public_key \<Rightarrow> session_keys result" where
  "server_compute_session_keys S server_kx_kp client_eph_pk =
     (if length (pk_data (publicKey server_kx_kp)) \<noteq> crypto_kx_PUBLICKEYBYTES
         \<or> length (sk_data (privateKey server_kx_kp)) \<noteq> crypto_kx_SECRETKEYBYTES
         \<or> length (pk_data client_eph_pk) \<noteq> crypto_kx_PUBLICKEYBYTES
      then Inl (InvalidArgument ''Invalid key sizes for server session key computation.'')
      else case crypto_kx_server_session_keys S (pk_data (publicKey server_kx_kp))
                  (sk_data (privateKey server_kx_kp)) (pk_data client_eph_pk) of
             None \<Rightarrow> Inl (RuntimeError ''Failed to compute server session keys.'')
           | Some out \<Rightarrow> Inr (fill_session_keys out))"

definition encrypt :: "sodium \<Rightarrow> nat \<Rightarrow> payload \<Rightarrow> u64 \<Rightarrow> byte_vector \<Rightarrow> byte_vector result" where
  "encrypt S rnd payload counter key =
     (if length key \<noteq> crypto_aead_KEYBYTES
      then Inl (InvalidArgument ''Invalid key size for encryption.'')
      else let plaintext = payload_serialize payload;
               nonce = write_at 0 (randombytes_buf S rnd crypto_aead_NPUBBYTES) (zeros crypto_aead_NPUBBYTES);
               be_counter = store_le 8 (htonll_local counter);
               packet = zeros (length nonce + 8 + length plaintext + crypto_aead_ABYTES);
               packet = write_at (length nonce + 8)
                          (crypto_aead_encrypt S plaintext be_counter nonce key) packet;
               packet = write_at 0 nonce packet;
               packet = write_at (length nonce) be_counter packet
           in Inr packet)"

record decrypted_result =
  dec_payload :: payload
  dec_counter :: u64

text \<open>The output buffer of the decryption is cut to \<^verbatim>\<open>decrypted_len\<close> bytes, the length of the
  message libsodium returns.\<close>

definition decrypt :: "sodium \<Rightarrow> byte_vector \<Rightarrow> byte_vector \<Rightarrow> decrypted_result result" where
  "decrypt S packet key =
     (if length key \<noteq> crypto_aead_KEYBYTES
      then Inl (InvalidArgument ''Invalid key size for decryption.'')
      else let NONCE_SIZE = crypto_aead_NPUBBYTES; COUNTER_SIZE = 8;
               HEADER_SIZE = NONCE_SIZE + COUNTER_SIZE in
      if length packet < HEADER_SIZE + crypto_aead_ABYTES
      then Inl (RuntimeError ''Packet too small to be valid.'')
      else let nonce = take NONCE_SIZE packet;
               be_counter = take (HEADER_SIZE - NONCE_SIZE) (drop NONCE_SIZE packet);
               received_counter = ntohll_local (load_le be_counter);
               ciphertext_with_tag = drop HEADER_SIZE packet in
      case crypto_aead_decrypt S ciphertext_with_tag be_counter nonce key of
        None \<Rightarrow> Inl (RuntimeError ''Failed to decrypt message. Authentication tag may be invalid.'')
      | Some decrypted_payload_data \<Rightarrow>
          (case payload_deserialize decrypted_payload_data of
             Inl e \<Rightarrow> Inl e
           | Inr payload \<Rightarrow> Inr \<lparr>dec_payload = payload, dec_counter = received_counter\<rparr>))"

section \<open>A concrete instance of the parameter\<close>

text \<open>
  A (cryptographically worthless) instance of \<open>sodium\<close> that satisfies the documented laws: the
  laws are consistent, and the model can be run on it.
\<close>

definition model_tag :: "byte_vector \<Rightarrow> byte_vector \<Rightarrow> byte_vector" where
  "model_tag ad k = take 16 (ad @ k @ zeros 16)"

definition model_sodium :: sodium where
  "model_sodium =
     \<lparr>sodium_init = 0,
      crypto_kx_keypair = (\<lambda>rnd. (replicate 32 (of_nat rnd), replicate 32 (of_nat rnd))),
      crypto_sign_keypair = (\<lambda>rnd. (replicate 32 (of_nat rnd), replicate 64 (of_nat rnd))),
      crypto_sign_seed_keypair = (\<lambda>seed. Some (replicate 32 (hd (seed @ [0])), replicate 64 (hd (seed @ [0])))),
      crypto_sign_ed25519_sk_to_pk = (\<lambda>sk. replicate 32 (hd (sk @ [0]))),
      crypto_sign_detached = (\<lambda>m sk. replicate 64 (hd (sk @ [0]))),
      crypto_sign_verify_detached = (\<lambda>sig m pk. sig = replicate 64 (hd (pk @ [0]))),
      crypto_kx_client_session_keys = (\<lambda>cpk csk spk. Some (replicate 32 1, replicate 32 2)),
      crypto_kx_server_session_keys = (\<lambda>spk ssk cpk. Some (replicate 32 2, replicate 32 1)),
      crypto_aead_encrypt = (\<lambda>m ad n k. m @ model_tag ad k),
      crypto_aead_decrypt = (\<lambda>c ad n k.
        if 16 \<le> length c \<and> drop (length c - 16) c = model_tag ad k
        then Some (take (length c - 16) c) else None),
      randombytes_buf = (\<lambda>rnd n. replicate n (of_nat rnd))\<rparr>"

lemma length_model_tag [simp]: "length (model_tag ad k) = 16"
  by (simp add: model_tag_def)

lemma model_sodium_ok: "sodium_ok model_sodium"
proof -
  have "sodium_sizes model_sodium"
    by (auto simp: sodium_sizes_def kx_pair_def sign_pair_def model_sodium_def)
  moreover have "sodium_sign_correct model_sodium"
    by (auto simp: sodium_sign_correct_def sign_pair_def model_sodium_def)
  moreover have "sodium_kx_agree model_sodium"
    by (simp add: sodium_kx_agree_def model_sodium_def)
  moreover have "sodium_aead_correct model_sodium"
    by (auto simp: sodium_aead_correct_def model_sodium_def split: if_splits)
      (metis append_take_drop_id)
  ultimately show ?thesis by (simp add: sodium_ok_def)
qed

section \<open>Consequences of the libsodium laws\<close>

lemma sodium_kx_pair_sizes: "sodium_ok S \<Longrightarrow> kx_pair S pk sk \<Longrightarrow> length pk = 32 \<and> length sk = 32"
  unfolding sodium_ok_def sodium_sizes_def by metis

lemma sodium_kx_sizes:
  "sodium_ok S \<Longrightarrow> crypto_kx_keypair S rnd = (pk, sk) \<Longrightarrow> length pk = 32 \<and> length sk = 32"
  by (rule sodium_kx_pair_sizes) (auto simp: kx_pair_def)

lemma sodium_sign_sizes: "sodium_ok S \<Longrightarrow> sign_pair S pk sk \<Longrightarrow> length pk = 32 \<and> length sk = 64"
  unfolding sodium_ok_def sodium_sizes_def by blast

lemma sodium_sig_size [simp]: "sodium_ok S \<Longrightarrow> length (crypto_sign_detached S m sk) = 64"
  unfolding sodium_ok_def sodium_sizes_def by blast

lemma sodium_aead_size [simp]: "sodium_ok S \<Longrightarrow> length (crypto_aead_encrypt S m ad n k) = length m + 16"
  unfolding sodium_ok_def sodium_sizes_def by blast

lemma sodium_random_size [simp]: "sodium_ok S \<Longrightarrow> length (randombytes_buf S rnd n) = n"
  unfolding sodium_ok_def sodium_sizes_def by blast

lemma sodium_client_key_sizes:
  "sodium_ok S \<Longrightarrow> crypto_kx_client_session_keys S a b c = Some (k1, k2) \<Longrightarrow> length k1 = 32 \<and> length k2 = 32"
  unfolding sodium_ok_def sodium_sizes_def by blast

lemma sodium_server_key_sizes:
  "sodium_ok S \<Longrightarrow> crypto_kx_server_session_keys S a b c = Some (k1, k2) \<Longrightarrow> length k1 = 32 \<and> length k2 = 32"
  unfolding sodium_ok_def sodium_sizes_def by blast

lemma sodium_decrypt_encrypt:
  "sodium_ok S \<Longrightarrow> length n = 12 \<Longrightarrow> length k = 32 \<Longrightarrow>
     crypto_aead_decrypt S (crypto_aead_encrypt S m ad n k) ad n k = Some m"
  by (simp add: sodium_ok_def sodium_aead_correct_def)

lemma sodium_decrypt_only_encrypted:
  "sodium_ok S \<Longrightarrow> crypto_aead_decrypt S c ad n k = Some m \<Longrightarrow> crypto_aead_encrypt S m ad n k = c"
  unfolding sodium_ok_def sodium_aead_correct_def by blast

section \<open>Packets\<close>

text \<open>The wire form of a packet: nonce, big-endian counter, ciphertext with tag.\<close>

definition packet_of :: "sodium \<Rightarrow> byte_vector \<Rightarrow> payload \<Rightarrow> u64 \<Rightarrow> byte_vector \<Rightarrow> byte_vector" where
  "packet_of S nonce p c k =
     (let ctr = rev (store_le 8 c) in nonce @ ctr @ crypto_aead_encrypt S (payload_serialize p) ctr nonce k)"

lemma encrypt_packet:
  "sodium_ok S \<Longrightarrow> length k = 32 \<Longrightarrow> encrypt S rnd p c k = Inr (packet_of S (randombytes_buf S rnd 12) p c k)"
  by (simp add: encrypt_def packet_of_def Let_def store_le_htonll_local)
    (simp add: write_at_def zeros_def)

lemma decrypt_packet_of:
  assumes "sodium_ok S" and "length n = 12" and "length k = 32"
  shows "decrypt S (packet_of S n p c k) k = Inr \<lparr>dec_payload = p, dec_counter = c\<rparr>"
  using assms sodium_decrypt_encrypt [OF assms]
  by (simp add: decrypt_def packet_of_def Let_def flip: store_le_htonll_local)

lemma decrypt_Inr_packet_of:
  assumes ok: "sodium_ok S" and dec: "decrypt S pkt k = Inr r"
  shows "pkt = packet_of S (take 12 pkt) (dec_payload r) (dec_counter r) k"
proof -
  from dec have len: "36 \<le> length pkt"
    by (auto simp: decrypt_def Let_def split: if_splits)
  let ?ctr = "take 8 (drop 12 pkt)"
  from dec obtain m where m: "crypto_aead_decrypt S (drop 20 pkt) ?ctr (take 12 pkt) k = Some m"
    and p: "payload_deserialize m = Inr (dec_payload r)"
    and c: "dec_counter r = ntohll_local (load_le ?ctr)"
    by (auto simp: decrypt_def Let_def split: if_splits option.splits sum.splits)
  have "store_le 8 (load_le ?ctr :: u64) = ?ctr"
    using store_load_le [of ?ctr, where 'a = 64] len by simp
  then have ctr: "rev (store_le 8 (dec_counter r)) = ?ctr"
    by (simp add: c ntohll_local_eq store_le_htonll_local)
  have "payload_serialize (dec_payload r) = m"
    using p by (rule payload_serialize_deserialize)
  then have "crypto_aead_encrypt S (payload_serialize (dec_payload r)) ?ctr (take 12 pkt) k = drop 20 pkt"
    using sodium_decrypt_only_encrypted [OF ok m] by simp
  moreover have "pkt = take 12 pkt @ ?ctr @ drop 20 pkt"
    using append_take_drop_id [of 12 pkt] append_take_drop_id [of 8 "drop 12 pkt"] by simp
  ultimately show ?thesis
    by (simp add: packet_of_def ctr Let_def)
qed

text \<open>
  The contract between the crypto layer and the sessions: under a lawful parameter, sealing
  with a key of the right size succeeds, opening a sealed packet with the same key returns the
  payload and the counter that were sealed, and opening is a function of the packet alone.
\<close>

locale sealed_channel =
  fixes lawful :: "'s \<Rightarrow> bool"
    and key_ok :: "byte_vector \<Rightarrow> bool"
    and seal :: "'s \<Rightarrow> nat \<Rightarrow> payload \<Rightarrow> u64 \<Rightarrow> byte_vector \<Rightarrow> byte_vector result"
    and unseal :: "'s \<Rightarrow> byte_vector \<Rightarrow> byte_vector \<Rightarrow> decrypted_result result"
  assumes seal_total: "lawful s \<Longrightarrow> key_ok k \<Longrightarrow> \<exists>pkt. seal s rnd p c k = Inr pkt"
    and unseal_seal: "lawful s \<Longrightarrow> seal s rnd p c k = Inr pkt \<Longrightarrow>
          unseal s pkt k = Inr \<lparr>dec_payload = p, dec_counter = c\<rparr>"
begin

lemma sealed_opens:
  "lawful s \<Longrightarrow> key_ok k \<Longrightarrow>
     \<exists>pkt. seal s rnd p c k = Inr pkt \<and> unseal s pkt k = Inr \<lparr>dec_payload = p, dec_counter = c\<rparr>"
  using seal_total unseal_seal by blast

lemma seal_injective:
  "lawful s \<Longrightarrow> seal s rnd p c k = Inr pkt \<Longrightarrow> seal s rnd' p' c' k = Inr pkt \<Longrightarrow> p = p' \<and> c = c'"
  using unseal_seal [of s rnd p c k pkt] unseal_seal [of s rnd' p' c' k pkt] by simp

end

interpretation crypto_channel: sealed_channel sodium_ok "\<lambda>k. length k = 32" encrypt decrypt
proof unfold_locales
  fix S rnd p c k pkt
  assume "sodium_ok S"
  then show "length k = 32 \<Longrightarrow> \<exists>pkt. encrypt S rnd p c k = Inr pkt"
    by (simp add: encrypt_packet)
  assume "encrypt S rnd p c k = Inr pkt"
  moreover from this have "length k = 32"
    by (simp add: encrypt_def split: if_splits)
  ultimately show "decrypt S pkt k = Inr \<lparr>dec_payload = p, dec_counter = c\<rparr>"
    using \<open>sodium_ok S\<close> by (auto simp: encrypt_packet decrypt_packet_of)
qed

section \<open>Properties\<close>

text \<open>C25: decryption accepts exactly the packets an encryption under the same key produces (for
  some nonce), and returns the payload and the counter that were encrypted.\<close>

theorem decrypt_accepts_exactly_sealed:
  assumes "sodium_ok S"
  shows "decrypt S pkt k = Inr r \<longleftrightarrow>
     length k = crypto_aead_KEYBYTES
     \<and> (\<exists>nonce. length nonce = crypto_aead_NPUBBYTES
          \<and> pkt = packet_of S nonce (dec_payload r) (dec_counter r) k)"
proof
  assume dec: "decrypt S pkt k = Inr r"
  then have "length k = 32" "length (take 12 pkt) = 12"
    by (auto simp: decrypt_def Let_def split: if_splits)
  then show "length k = 32 \<and> (\<exists>nonce. length nonce = 12
          \<and> pkt = packet_of S nonce (dec_payload r) (dec_counter r) k)"
    using decrypt_Inr_packet_of [OF assms dec] by blast
next
  assume "length k = 32 \<and> (\<exists>nonce. length nonce = 12
          \<and> pkt = packet_of S nonce (dec_payload r) (dec_counter r) k)"
  then show "decrypt S pkt k = Inr r"
    using decrypt_packet_of [OF assms] by auto
qed

theorem decrypt_accepts_exactly_sealed_witness:
  "decrypt model_sodium
     (packet_of model_sodium (zeros 12) \<lparr>op_code = 1, parameters = [5]\<rparr> 9 (zeros 32)) (zeros 32)
     = Inr \<lparr>dec_payload = \<lparr>op_code = 1, parameters = [5]\<rparr>, dec_counter = 9\<rparr>"
  unfolding decrypt_accepts_exactly_sealed [OF model_sodium_ok]
  by (intro conjI exI [of _ "zeros 12"]) simp_all

text \<open>Encryption with a key of the right size always succeeds; the packet is the nonce, the
  big-endian counter and the ciphertext, 36 bytes longer than the payload, and decrypts to the
  payload and the counter. A packet determines both.\<close>

theorem encrypt_decrypt_round_trip:
  assumes "sodium_ok S" and "length k = crypto_aead_KEYBYTES"
  shows "\<exists>pkt. encrypt S rnd p c k = Inr pkt
     \<and> pkt = packet_of S (randombytes_buf S rnd crypto_aead_NPUBBYTES) p c k
     \<and> length pkt = 38 + length (parameters p)
     \<and> decrypt S pkt k = Inr \<lparr>dec_payload = p, dec_counter = c\<rparr>
     \<and> (encrypt S rnd' p' c' k = Inr pkt \<longrightarrow> p' = p \<and> c' = c)"
proof -
  let ?pkt = "packet_of S (randombytes_buf S rnd 12) p c k"
  have enc: "encrypt S rnd p c k = Inr ?pkt"
    using assms by (simp add: encrypt_packet)
  moreover have "length ?pkt = 38 + length (parameters p)"
    using assms by (simp add: packet_of_def Let_def)
  ultimately show ?thesis
    using crypto_channel.unseal_seal [OF assms(1) enc] crypto_channel.seal_injective [OF assms(1) _ enc]
    by blast
qed

theorem encrypt_decrypt_round_trip_witness:
  "\<exists>pkt. encrypt model_sodium 3 \<lparr>op_code = 1, parameters = [5]\<rparr> 9 (zeros 32) = Inr pkt
     \<and> length pkt = 39"
  using encrypt_decrypt_round_trip [OF model_sodium_ok, of "zeros 32" 3
      "\<lparr>op_code = 1, parameters = [5]\<rparr>" 9] by auto

text \<open>Signing keys, generated or derived from a seed, sign any message, and the signature
  verifies under the public key of the pair; a key of the wrong size is refused by both.\<close>

theorem sign_verify_round_trip:
  assumes "sodium_ok S"
    and "kp = generate_sign_keypair S rnd \<or> keypair_from_seed S seed = Inr kp"
  shows "(\<exists>sg. sign S m (privateKey kp) = Inr sg \<and> verify S sg m (publicKey kp))
     \<and> (length (sk_data sk) \<noteq> crypto_sign_SECRETKEYBYTES \<longrightarrow>
          sign S m sk = Inl (InvalidArgument ''Invalid private key size for signing.''))
     \<and> (length (pk_data pk) \<noteq> crypto_sign_PUBLICKEYBYTES \<longrightarrow> \<not> verify S sg' m pk)"
proof -
  obtain a b where pair: "sign_pair S a b" and kp: "kp = mk_key_pair 32 64 (a, b)"
    using assms(2)
  proof
    assume "kp = generate_sign_keypair S rnd"
    then show ?thesis
      using that [of "fst (crypto_sign_keypair S rnd)" "snd (crypto_sign_keypair S rnd)"]
      by (auto simp: generate_sign_keypair_def sign_pair_def)
  next
    assume "keypair_from_seed S seed = Inr kp"
    then show ?thesis
      using that by (auto simp: keypair_from_seed_def sign_pair_def split: if_splits option.splits)
  qed
  have "length a = 32" "length b = 64"
    using sodium_sign_sizes [OF assms(1) pair] by simp_all
  moreover have "crypto_sign_verify_detached S (crypto_sign_detached S m b) m a"
    using assms(1) pair by (simp add: sodium_ok_def sodium_sign_correct_def)
  ultimately show ?thesis
    using assms(1) by (simp add: kp mk_key_pair_def sign_def verify_def)
qed

theorem sign_verify_round_trip_witness:
  "\<exists>sg. sign model_sodium [1, 2] (privateKey (generate_sign_keypair model_sodium 4)) = Inr sg
     \<and> verify model_sodium sg [1, 2] (publicKey (generate_sign_keypair model_sodium 4))"
  using sign_verify_round_trip [OF model_sodium_ok, of "generate_sign_keypair model_sodium 4" 4] by blast

end
