(* ===== verification/Version.thy ===== *)
theory Version
  imports Prelude
begin

text \<open>
  Protocol versions and their negotiation (\<^verbatim>\<open>version.hpp\<close>, \<^verbatim>\<open>version.cpp\<close>).
\<close>

type_synonym version = u16

definition V1_0 :: version where "V1_0 = 0x0100"
definition V1_1 :: version where "V1_1 = 0x0101"

definition SUPPORTED_VERSIONS :: "version list" where
  "SUPPORTED_VERSIONS = [V1_1, V1_0]"

text \<open>The inner and the outer loop of \<^verbatim>\<open>VersionNegotiator::negotiate\<close>.\<close>

fun negotiate_with :: "version \<Rightarrow> version list \<Rightarrow> version option" where
  "negotiate_with client_version [] = None"
| "negotiate_with client_version (server_version # rest) =
     (if client_version = server_version then Some client_version
      else negotiate_with client_version rest)"

fun negotiate :: "version list \<Rightarrow> version list \<Rightarrow> version option" where
  "negotiate [] server_versions = None"
| "negotiate (client_version # rest) server_versions =
     (case negotiate_with client_version server_versions of
        Some v \<Rightarrow> Some v
      | None \<Rightarrow> negotiate rest server_versions)"

lemma negotiate_with_eq: "negotiate_with v ss = (if v \<in> set ss then Some v else None)"
  by (induction ss) auto

lemma negotiate_eq_find: "negotiate cs ss = find (\<lambda>v. v \<in> set ss) cs"
  by (induction cs) (auto simp: negotiate_with_eq)

lemma negotiate_Some_mem: "negotiate cs ss = Some v \<Longrightarrow> v \<in> set cs \<and> v \<in> set ss"
  by (auto simp: negotiate_eq_find find_Some_iff)

lemma negotiate_None_iff: "negotiate cs ss = None \<longleftrightarrow> set cs \<inter> set ss = {}"
  by (auto simp: negotiate_eq_find find_None_iff)

lemma negotiate_skip: "set pre \<inter> set ss = {} \<Longrightarrow> negotiate (pre @ cs) ss = negotiate cs ss"
  by (induction pre) (auto simp: negotiate_with_eq)

section \<open>Properties\<close>

text \<open>The negotiated version is the client's most preferred one that the server also
  supports: everything the client prefers to it is unsupported by the server. There is none
  exactly when the two lists are disjoint.\<close>

theorem negotiate_most_preferred:
  "(negotiate cs ss = Some v \<longleftrightarrow>
      (\<exists>pre post. cs = pre @ v # post \<and> v \<in> set ss \<and> set pre \<inter> set ss = {}))
   \<and> (negotiate cs ss = None \<longleftrightarrow> set cs \<inter> set ss = {})"
proof
  show "negotiate cs ss = Some v \<longleftrightarrow>
      (\<exists>pre post. cs = pre @ v # post \<and> v \<in> set ss \<and> set pre \<inter> set ss = {})"
  proof
    assume "negotiate cs ss = Some v"
    then obtain i where i: "i < length cs" "cs ! i \<in> set ss" "v = cs ! i"
      and before: "\<forall>j<i. cs ! j \<notin> set ss"
      by (auto simp: negotiate_eq_find find_Some_iff)
    have "set (take i cs) \<inter> set ss = {}"
      using before i(1) by (auto simp: in_set_conv_nth)
    then show "\<exists>pre post. cs = pre @ v # post \<and> v \<in> set ss \<and> set pre \<inter> set ss = {}"
      using i id_take_nth_drop [OF i(1)] by blast
  next
    assume "\<exists>pre post. cs = pre @ v # post \<and> v \<in> set ss \<and> set pre \<inter> set ss = {}"
    then obtain pre post where "cs = pre @ v # post" "v \<in> set ss" "set pre \<inter> set ss = {}"
      by blast
    then show "negotiate cs ss = Some v"
      by (simp add: negotiate_skip negotiate_with_eq)
  qed
qed (rule negotiate_None_iff)

end
