(* ===== verification/HandshakeMessages.thy ===== *)
theory HandshakeMessages
  imports Packet Keys Version
begin

text \<open>
  The two handshake messages and their wire format (\<^verbatim>\<open>handshake_messages.hpp\<close>,
  \<^verbatim>\<open>handshake_messages.cpp\<close>). The deserializers keep the explicit offset and the bound check
  before every read of the source.
\<close>

record client_hello =
  supported_versions :: "version list"
  ephemeral_pk :: public_key
  has_client_identity :: bool
  identity_pk :: public_key
  identity_sig :: signature

record server_hello =
  selected_version :: version
  sh_ephemeral_pk :: public_key
  sh_signature :: signature

definition client_hello_serialize :: "client_hello \<Rightarrow> byte_vector" where
  "client_hello_serialize h =
     (let num_versions = htons (of_nat (length (supported_versions h)));
          buffer = store_le 2 num_versions;
          buffer = buffer @ concat (map (\<lambda>version. store_le 2 (htons version)) (supported_versions h));
          buffer = buffer @ pk_data (ephemeral_pk h);
          has_id = (if has_client_identity h then 1 else 0);
          buffer = buffer @ [has_id]
      in if has_client_identity h
         then buffer @ pk_data (identity_pk h) @ sig_data (identity_sig h)
         else buffer)"

text \<open>The loop that reads \<open>n\<close> versions from \<open>offset\<close>.\<close>

fun read_versions :: "nat \<Rightarrow> byte_vector \<Rightarrow> nat \<Rightarrow> version list" where
  "read_versions 0 data off = []"
| "read_versions (Suc n) data off =
     ntohs (load_le (take 2 (drop off data))) # read_versions n data (off + 2)"

definition client_hello_deserialize :: "byte_vector \<Rightarrow> client_hello result" where
  "client_hello_deserialize data =
     (if length data < 2
      then Inl (RuntimeError ''Invalid ClientHello data: too short for version count.'')
      else let num_versions = unat (ntohs (load_le (take 2 (drop 0 data)))); offset = 2 in
      if length data < offset + num_versions * 2
      then Inl (RuntimeError ''Invalid ClientHello data: too short for versions.'')
      else let versions = read_versions num_versions data offset;
               offset = offset + num_versions * 2 in
      if length data < offset + crypto_kx_PUBLICKEYBYTES
      then Inl (RuntimeError ''Invalid ClientHello data: too short for public key.'')
      else let epk = take crypto_kx_PUBLICKEYBYTES (drop offset data);
               offset = offset + crypto_kx_PUBLICKEYBYTES in
      if length data \<le> offset
      then Inl (RuntimeError ''Invalid ClientHello data: too short for identity flag.'')
      else let has_id = (data ! offset \<noteq> 0); offset = offset + 1;
               hello = \<lparr>supported_versions = versions, ephemeral_pk = PublicKey epk,
                        has_client_identity = has_id, identity_pk = PublicKey [],
                        identity_sig = Signature []\<rparr> in
      if \<not> has_id then Inr hello
      else if length data < offset + crypto_sign_PUBLICKEYBYTES
      then Inl (RuntimeError ''Invalid ClientHello data: too short for identity public key.'')
      else let ipk = take crypto_sign_PUBLICKEYBYTES (drop offset data);
               offset = offset + crypto_sign_PUBLICKEYBYTES in
      if length data < offset + crypto_sign_BYTES
      then Inl (RuntimeError ''Invalid ClientHello data: too short for identity signature.'')
      else Inr (hello\<lparr>identity_pk := PublicKey ipk,
                      identity_sig := Signature (take crypto_sign_BYTES (drop offset data))\<rparr>))"

definition server_hello_serialize :: "server_hello \<Rightarrow> byte_vector" where
  "server_hello_serialize h =
     store_le 2 (htons (selected_version h)) @ pk_data (sh_ephemeral_pk h) @ sig_data (sh_signature h)"

definition server_hello_deserialize :: "byte_vector \<Rightarrow> server_hello result" where
  "server_hello_deserialize data =
     (if length data < 2
      then Inl (RuntimeError ''Invalid ServerHello data: too short for version.'')
      else let version = ntohs (load_le (take 2 (drop 0 data))); offset = 2 in
      if length data < offset + crypto_kx_PUBLICKEYBYTES
      then Inl (RuntimeError ''Invalid ServerHello data: too short for public key.'')
      else let epk = take crypto_kx_PUBLICKEYBYTES (drop offset data);
               offset = offset + crypto_kx_PUBLICKEYBYTES in
      if length data < offset + crypto_sign_BYTES
      then Inl (RuntimeError ''Invalid ServerHello data: too short for signature.'')
      else Inr \<lparr>selected_version = version, sh_ephemeral_pk = PublicKey epk,
                sh_signature = Signature (take crypto_sign_BYTES (drop offset data))\<rparr>)"

text \<open>Messages with the field sizes the formats assume.\<close>

definition client_hello_ok :: "client_hello \<Rightarrow> bool" where
  "client_hello_ok h \<longleftrightarrow>
     length (supported_versions h) < 65536
     \<and> length (pk_data (ephemeral_pk h)) = crypto_kx_PUBLICKEYBYTES
     \<and> (if has_client_identity h
        then length (pk_data (identity_pk h)) = crypto_sign_PUBLICKEYBYTES
           \<and> length (sig_data (identity_sig h)) = crypto_sign_BYTES
        else identity_pk h = PublicKey [] \<and> identity_sig h = Signature [])"

definition server_hello_ok :: "server_hello \<Rightarrow> bool" where
  "server_hello_ok h \<longleftrightarrow>
     length (pk_data (sh_ephemeral_pk h)) = crypto_kx_PUBLICKEYBYTES
     \<and> length (sig_data (sh_signature h)) = crypto_sign_BYTES"

section \<open>Reading the version list\<close>

lemma length_read_versions [simp]: "length (read_versions n data off) = n"
  by (induction n arbitrary: off) auto

lemma length_concat_versions [simp]:
  "length (concat (map (\<lambda>v. store_le 2 (htons v)) vs)) = 2 * length vs"
  by (induction vs) auto

lemma read_versions_concat:
  "read_versions (length vs) (pre @ concat (map (\<lambda>v. store_le 2 (htons v)) vs) @ post) (length pre) = vs"
proof (induction vs arbitrary: pre)
  case (Cons v vs)
  show ?case
    using Cons.IH [of "pre @ store_le 2 (htons v)"] by simp
qed simp

section \<open>The two codecs\<close>

lemma server_hello_dec_enc:
  "server_hello_ok h \<Longrightarrow> server_hello_deserialize (server_hello_serialize h @ rest) = Inr h"
  by (simp add: server_hello_deserialize_def server_hello_serialize_def server_hello_ok_def)

interpretation server_hello_codec:
  prefix_codec server_hello_serialize server_hello_deserialize server_hello_ok
  by unfold_locales (rule server_hello_dec_enc)

lemma client_hello_dec_enc:
  assumes "client_hello_ok h"
  shows "client_hello_deserialize (client_hello_serialize h @ rest) = Inr h"
proof -
  let ?vs = "supported_versions h"
  have num: "unat (of_nat (length ?vs) :: u16) = length ?vs"
    using assms by (simp add: client_hello_ok_def unat_of_nat)
  have vs: "read_versions (length ?vs)
      (store_le 2 (htons (of_nat (length ?vs))) @ concat (map (\<lambda>v. store_le 2 (htons v)) ?vs) @ post) 2
      = ?vs" for post
    using read_versions_concat [of ?vs "store_le 2 (htons (of_nat (length ?vs)))"] by simp
  show ?thesis
    using assms num vs
    by (cases h) (auto simp: client_hello_deserialize_def client_hello_serialize_def
        client_hello_ok_def Let_def nth_append)
qed

interpretation client_hello_codec:
  prefix_codec client_hello_serialize client_hello_deserialize client_hello_ok
  by unfold_locales (rule client_hello_dec_enc)

declare server_hello_codec.dec_enc [codec_laws] client_hello_codec.dec_enc [codec_laws]

section \<open>What the deserializers accept\<close>

text \<open>The layout of a ClientHello with an arbitrary identity flag byte.\<close>

definition client_hello_layout :: "u8 \<Rightarrow> client_hello \<Rightarrow> byte_vector" where
  "client_hello_layout flag h =
     store_le 2 (htons (of_nat (length (supported_versions h))))
     @ concat (map (\<lambda>v. store_le 2 (htons v)) (supported_versions h))
     @ pk_data (ephemeral_pk h) @ [flag]
     @ (if has_client_identity h then pk_data (identity_pk h) @ sig_data (identity_sig h) else [])"

lemma client_hello_serialize_layout:
  "client_hello_serialize h = client_hello_layout (if has_client_identity h then 1 else 0) h"
  by (simp add: client_hello_serialize_def client_hello_layout_def Let_def)

lemma concat_read_versions:
  "off + 2 * n \<le> length data \<Longrightarrow>
     concat (map (\<lambda>v. store_le 2 (htons v)) (read_versions n data off)) = take (2 * n) (drop off data)"
proof (induction n arbitrary: off)
  case (Suc n)
  have "take (2 * Suc n) (drop off data) = take 2 (drop off data) @ take (2 * n) (drop (off + 2) data)"
    by (simp add: take_add [of 2 "2 * n" "drop off data", simplified] add.commute)
  then show ?case
    using Suc by (simp add: store_htons_ntohs)
qed simp

lemma client_hello_layout_dec:
  assumes "client_hello_ok h" and "flag \<noteq> 0 \<longleftrightarrow> has_client_identity h"
  shows "client_hello_deserialize (client_hello_layout flag h @ rest) = Inr h"
proof -
  let ?vs = "supported_versions h"
  have num: "unat (of_nat (length ?vs) :: u16) = length ?vs"
    using assms by (simp add: client_hello_ok_def unat_of_nat)
  have vs: "read_versions (length ?vs)
      (store_le 2 (htons (of_nat (length ?vs))) @ concat (map (\<lambda>v. store_le 2 (htons v)) ?vs) @ post) 2
      = ?vs" for post
    using read_versions_concat [of ?vs "store_le 2 (htons (of_nat (length ?vs)))"] by simp
  show ?thesis
    using assms num vs
    by (cases h) (auto simp: client_hello_deserialize_def client_hello_layout_def
        client_hello_ok_def Let_def nth_append)
qed

text \<open>The deserializer's successful runs, with the number \<open>n\<close> of versions read from the header.\<close>

lemma client_hello_deserialize_Inr:
  assumes "client_hello_deserialize data = Inr h" and n: "n = unat (ntohs (load_le (take 2 data)))"
  defines "k \<equiv> 2 + n * 2"
  shows "k + 32 < length data \<and> (data ! (k + 32) \<noteq> 0 \<longrightarrow> k + 129 \<le> length data)
    \<and> h = \<lparr>supported_versions = read_versions n data 2,
          ephemeral_pk = PublicKey (take 32 (drop k data)),
          has_client_identity = (data ! (k + 32) \<noteq> 0),
          identity_pk = PublicKey (if data ! (k + 32) \<noteq> 0 then take 32 (drop (k + 33) data) else []),
          identity_sig = Signature (if data ! (k + 32) \<noteq> 0 then take 64 (drop (k + 65) data) else [])\<rparr>"
  using assms(1)
  unfolding client_hello_deserialize_def Let_def drop_0 n [symmetric] k_def
  by (simp split: if_split_asm add: add.assoc)

lemma client_hello_dec_layout:
  assumes "client_hello_deserialize data = Inr h"
  shows "\<exists>flag rest. client_hello_ok h \<and> (flag \<noteq> 0 \<longleftrightarrow> has_client_identity h)
           \<and> data = client_hello_layout flag h @ rest"
proof -
  define n where n: "n = unat (ntohs (load_le (take 2 data)))"
  define k where k: "k = 2 + n * 2"
  have n': "(of_nat n :: u16) = ntohs (load_le (take 2 data))" by (simp add: n)
  have n_bound: "n < 65536"
    unfolding n using unsigned_less [where 'a = nat, of "ntohs (load_le (take 2 data))"] by simp
  note run = client_hello_deserialize_Inr [OF assms n, folded k]
  then have len: "k + 32 < length data"
    and vs: "supported_versions h = read_versions n data 2"
    and epk: "pk_data (ephemeral_pk h) = take 32 (drop k data)"
    and flag: "has_client_identity h \<longleftrightarrow> data ! (k + 32) \<noteq> 0"
    by simp_all
  from run have ident: "if has_client_identity h
      then k + 129 \<le> length data \<and> pk_data (identity_pk h) = take 32 (drop (k + 33) data)
         \<and> sig_data (identity_sig h) = take 64 (drop (k + 65) data)
      else identity_pk h = PublicKey [] \<and> identity_sig h = Signature []"
    by simp
  have ok: "client_hello_ok h"
    using len vs epk ident n_bound by (auto simp: client_hello_ok_def split: if_splits)
  have hd: "store_le 2 (htons (of_nat (length (supported_versions h)))) = take 2 data"
    using len by (simp add: vs n' store_htons_ntohs)
  have body: "concat (map (\<lambda>v. store_le 2 (htons v)) (supported_versions h)) = take (n * 2) (drop 2 data)"
    unfolding vs using concat_read_versions [of 2 n data] len by (simp add: k mult.commute)
  have prefix: "take (k + 33) data
      = take 2 data @ take (n * 2) (drop 2 data) @ take 32 (drop k data) @ [data ! (k + 32)]"
  proof -
    have "take (k + 32) data = take 2 data @ take (n * 2) (drop 2 data) @ take 32 (drop k data)"
      using take_add [of k 32 data] take_add [of 2 "n * 2" data] unfolding k by simp
    then show ?thesis
      using take_Suc_conv_app_nth [OF len] by (simp add: add.commute [of k])
  qed
  let ?tail = "if has_client_identity h then pk_data (identity_pk h) @ sig_data (identity_sig h) else []"
  have "\<exists>rest. drop (k + 33) data = ?tail @ rest"
  proof (cases "has_client_identity h")
    case True
    then have "?tail = take 96 (drop (k + 33) data)"
      using ident by (simp add: take_add [of 32 64, simplified] add.commute)
    then show ?thesis
      using append_take_drop_id [of 96 "drop (k + 33) data", symmetric] by (intro exI) (simp only:)
  qed simp
  then obtain rest where "drop (k + 33) data = ?tail @ rest" ..
  then have "data = client_hello_layout (data ! (k + 32)) h @ rest"
    using append_take_drop_id [of "k + 33" data]
    by (simp only: client_hello_layout_def hd body epk prefix append_assoc)
  with ok flag show ?thesis by blast
qed

lemma server_hello_dec_layout:
  assumes "server_hello_deserialize data = Inr h"
  shows "\<exists>rest. server_hello_ok h \<and> data = server_hello_serialize h @ rest"
proof -
  from assms have len: "98 \<le> length data"
    and h: "h = \<lparr>selected_version = ntohs (load_le (take 2 data)),
                 sh_ephemeral_pk = PublicKey (take 32 (drop 2 data)),
                 sh_signature = Signature (take 64 (drop 34 data))\<rparr>"
    by (auto simp: server_hello_deserialize_def Let_def split: if_splits)
  have "data = take 2 data @ take 32 (drop 2 data) @ take 64 (drop 34 data) @ drop 98 data"
  proof -
    have "take 98 data = take 2 data @ take 32 (drop 2 data) @ take 64 (drop 34 data)"
      using take_add [of 2 96 data] take_add [of 32 64 "drop 2 data"] by simp
    then show ?thesis
      using append_take_drop_id [of 98 data] by simp
  qed
  then show ?thesis
    using len h by (auto simp: server_hello_ok_def server_hello_serialize_def store_htons_ntohs)
qed

section \<open>Properties\<close>

text \<open>C38: the ClientHello parser accepts exactly the byte strings that start with the layout of
  a well-sized hello (any non-zero flag byte announces an identity), and returns that hello;
  trailing bytes are ignored.\<close>

theorem client_hello_accepted_exactly:
  "client_hello_deserialize data = Inr h \<longleftrightarrow>
     client_hello_ok h
     \<and> (\<exists>flag rest. (flag \<noteq> 0 \<longleftrightarrow> has_client_identity h) \<and> data = client_hello_layout flag h @ rest)"
  using client_hello_dec_layout [of data h] client_hello_layout_dec [of h] by blast

text \<open>The ServerHello parser accepts exactly the serializations of hellos with a 32-byte key
  and a 64-byte signature, followed by anything, and returns that hello.\<close>

theorem server_hello_accepted_exactly:
  "server_hello_deserialize data = Inr h \<longleftrightarrow>
     server_hello_ok h \<and> (\<exists>rest. data = server_hello_serialize h @ rest)"
  using server_hello_dec_layout [of data h] server_hello_dec_enc [of h] by blast

end
