(* ===== verification/Session.thy ===== *)
theory Session
  imports Crypto HandshakeMessages "HOL-Library.Sublist"
begin

text \<open>
  \<^verbatim>\<open>Session\<close> (\<^verbatim>\<open>session.hpp\<close>, \<^verbatim>\<open>session.cpp\<close>): the handshake state machine and the encrypted
  channel with its message counters. Every method returns its result, or the exception it
  throws, together with the session as it leaves it; a method that throws after a member was
  assigned leaves that assignment behind, as the code does. Methods that draw randomness take
  it as an argument.
\<close>

datatype role = CLIENT | SERVER

record session =
  role :: role
  handshake_complete :: bool
  sess_selected_version :: "version option"
  sess_supported_versions :: "version list"
  server_sign_key :: key_pair
  ephemeral_kx_kp :: "key_pair option"
  sess_keys :: "session_keys option"
  client_identity_kp :: "key_pair option"
  peer_identity :: "public_key option"
  send_counter :: u64
  recv_counter :: u64

definition Session :: "role \<Rightarrow> key_pair \<Rightarrow> version list \<Rightarrow> session" where
  "Session r sign_key versions =
     \<lparr>role = r, handshake_complete = False, sess_selected_version = None,
      sess_supported_versions = versions, server_sign_key = sign_key, ephemeral_kx_kp = None,
      sess_keys = None, client_identity_kp = None, peer_identity = None,
      send_counter = 0, recv_counter = 0\<rparr>"

definition wipe_keys :: "session \<Rightarrow> session" where
  "wipe_keys s =
     (let s = (case sess_keys s of
                 Some k \<Rightarrow> s\<lparr>sess_keys := None\<rparr>
               | None \<Rightarrow> s)
      in case ephemeral_kx_kp s of
           Some kp \<Rightarrow> s\<lparr>ephemeral_kx_kp := None\<rparr>
         | None \<Rightarrow> s)"

definition set_client_identity_key :: "key_pair \<Rightarrow> session \<Rightarrow> unit result \<times> session" where
  "set_client_identity_key identity_kp s =
     (if role s \<noteq> CLIENT then (Inl (LogicError ''Only clients can set an identity key.''), s)
      else (Inr (), s\<lparr>client_identity_kp := Some identity_kp\<rparr>))"

definition client_initiate_handshake ::
  "sodium \<Rightarrow> nat \<Rightarrow> session \<Rightarrow> client_hello result \<times> session" where
  "client_initiate_handshake S rnd s =
     (if role s \<noteq> CLIENT then (Inl (LogicError ''Only clients can initiate a handshake.''), s)
      else let kp = generate_kx_keypair S rnd;
               s = s\<lparr>ephemeral_kx_kp := Some kp\<rparr>;
               hello = \<lparr>supported_versions = sess_supported_versions s, ephemeral_pk = publicKey kp,
                        has_client_identity = False, identity_pk = PublicKey [],
                        identity_sig = Signature []\<rparr>
           in case client_identity_kp s of
                None \<Rightarrow> (Inr hello, s)
              | Some ident \<Rightarrow>
                  (case sign S (pk_data (ephemeral_pk hello)) (privateKey ident) of
                     Inl e \<Rightarrow> (Inl e, s)
                   | Inr sg \<Rightarrow> (Inr (hello\<lparr>has_client_identity := True,
                                             identity_pk := publicKey ident,
                                             identity_sig := sg\<rparr>), s)))"

definition server_respond_to_handshake ::
  "sodium \<Rightarrow> nat \<Rightarrow> client_hello \<Rightarrow> session \<Rightarrow> server_hello result \<times> session" where
  "server_respond_to_handshake S rnd client_hello s =
     (if role s \<noteq> SERVER then (Inl (LogicError ''Only servers can respond to a handshake.''), s)
      else case negotiate (supported_versions client_hello) (sess_supported_versions s) of
        None \<Rightarrow> (Inl (RuntimeError
                  ''Client and server have no supported protocol versions in common.''), s)
      | Some chosen_version \<Rightarrow>
          let s = s\<lparr>sess_selected_version := Some chosen_version\<rparr> in
          if has_client_identity client_hello
             \<and> \<not> verify S (identity_sig client_hello) (pk_data (ephemeral_pk client_hello))
                   (identity_pk client_hello)
          then (Inl (RuntimeError ''Client identity signature verification failed.''), s)
          else let s = (if has_client_identity client_hello
                        then s\<lparr>peer_identity := Some (identity_pk client_hello)\<rparr> else s);
                   kp = generate_kx_keypair S rnd;
                   s = s\<lparr>ephemeral_kx_kp := Some kp\<rparr> in
          case sign S (pk_data (publicKey kp)) (privateKey (server_sign_key s)) of
            Inl e \<Rightarrow> (Inl e, s)
          | Inr sg \<Rightarrow>
              (case server_compute_session_keys S kp (ephemeral_pk client_hello) of
                 Inl e \<Rightarrow> (Inl e, s)
               | Inr keys \<Rightarrow>
                   (Inr \<lparr>selected_version = chosen_version, sh_ephemeral_pk = publicKey kp,
                         sh_signature = sg\<rparr>,
                    s\<lparr>sess_keys := Some keys, handshake_complete := True\<rparr>)))"

definition client_finalize_handshake ::
  "sodium \<Rightarrow> server_hello \<Rightarrow> session \<Rightarrow> unit result \<times> session" where
  "client_finalize_handshake S server_hello s =
     (if role s \<noteq> CLIENT then (Inl (LogicError ''Only clients can finalize a handshake.''), s)
      else case ephemeral_kx_kp s of
        None \<Rightarrow> (Inl (LogicError ''client_initiate_handshake must be called first.''), s)
      | Some kp \<Rightarrow>
          if \<not> list_ex (\<lambda>supported_ver. selected_version server_hello = supported_ver)
                (sess_supported_versions s)
          then (Inl (RuntimeError
                  ''Server selected a protocol version that the client does not support.''), s)
          else let s = s\<lparr>sess_selected_version := Some (selected_version server_hello)\<rparr> in
          if \<not> verify S (sh_signature server_hello) (pk_data (sh_ephemeral_pk server_hello))
                (publicKey (server_sign_key s))
          then (Inl (RuntimeError ''Server's signature for its ephemeral key is invalid.''), s)
          else case client_compute_session_keys S kp (sh_ephemeral_pk server_hello) of
                 Inl e \<Rightarrow> (Inl e, s)
               | Inr keys \<Rightarrow> (Inr (), s\<lparr>sess_keys := Some keys, handshake_complete := True\<rparr>))"

definition is_handshake_complete :: "session \<Rightarrow> bool" where
  "is_handshake_complete s = handshake_complete s"

definition get_selected_version :: "session \<Rightarrow> version option" where
  "get_selected_version s = sess_selected_version s"

definition has_peer_identity :: "session \<Rightarrow> bool" where
  "has_peer_identity s \<longleftrightarrow> peer_identity s \<noteq> None"

definition get_peer_identity :: "session \<Rightarrow> public_key option" where
  "get_peer_identity s = peer_identity s"

text \<open>The two data-transfer methods dereference \<^verbatim>\<open>session_keys_\<close>; the branch in which it is null
  is marked, and shown unreachable below.\<close>

definition encrypt_payload ::
  "sodium \<Rightarrow> nat \<Rightarrow> payload \<Rightarrow> session \<Rightarrow> byte_vector result \<times> session" where
  "encrypt_payload S rnd payload s =
     (if \<not> handshake_complete s
      then (Inl (LogicError ''Handshake must be complete before sending data.''), s)
      else case sess_keys s of
             None \<Rightarrow> (Inl (UndefinedBehaviour ''session_keys_ is null''), s)
           | Some keys \<Rightarrow>
               let s = s\<lparr>send_counter := send_counter s + 1\<rparr>
               in (encrypt S rnd payload (send_counter s) (tx keys), s))"

definition decrypt_packet :: "sodium \<Rightarrow> byte_vector \<Rightarrow> session \<Rightarrow> payload result \<times> session" where
  "decrypt_packet S packet s =
     (if \<not> handshake_complete s
      then (Inl (LogicError ''Handshake must be complete before receiving data.''), s)
      else case sess_keys s of
             None \<Rightarrow> (Inl (UndefinedBehaviour ''session_keys_ is null''), s)
           | Some keys \<Rightarrow>
               (case decrypt S packet (rx keys) of
                  Inl e \<Rightarrow> (Inl e, s)
                | Inr result \<Rightarrow>
                    if dec_counter result \<le> recv_counter s
                    then (Inl (RuntimeError ''Counter mismatch. Possible replay attack.''), s)
                    else (Inr (dec_payload result), s\<lparr>recv_counter := dec_counter result\<rparr>)))"

section \<open>The session as a state machine\<close>

text \<open>One step is one call of a public method, in any order, with any arguments and any
  outcome, exceptions included.\<close>

inductive session_step :: "session \<Rightarrow> session \<Rightarrow> bool" where
  identity: "session_step s (snd (set_client_identity_key kp s))"
| initiate: "sodium_ok S \<Longrightarrow> session_step s (snd (client_initiate_handshake S rnd s))"
| respond: "sodium_ok S \<Longrightarrow> session_step s (snd (server_respond_to_handshake S rnd ch s))"
| finalize: "sodium_ok S \<Longrightarrow> session_step s (snd (client_finalize_handshake S sh s))"
| encrypt: "sodium_ok S \<Longrightarrow> session_step s (snd (encrypt_payload S rnd p s))"
| decrypt: "sodium_ok S \<Longrightarrow> session_step s (snd (decrypt_packet S pkt s))"

inductive_cases session_stepE: "session_step s t"

definition fresh_session :: "session \<Rightarrow> bool" where
  "fresh_session s \<longleftrightarrow> (\<exists>r k vs. s = Session r k vs)"

text \<open>A completed handshake has both keys, of the AEAD key size, and a selected version this
  side supports; only a server learns a peer identity.\<close>

definition session_inv :: "session \<Rightarrow> bool" where
  "session_inv s \<longleftrightarrow>
     (handshake_complete s \<longrightarrow>
        (\<exists>k. sess_keys s = Some k \<and> length (rx k) = crypto_aead_KEYBYTES \<and> length (tx k) = crypto_aead_KEYBYTES)
        \<and> sess_selected_version s \<noteq> None \<and> ephemeral_kx_kp s \<noteq> None)
     \<and> (\<forall>v. sess_selected_version s = Some v \<longrightarrow> v \<in> set (sess_supported_versions s))
     \<and> (role s = CLIENT \<longrightarrow> peer_identity s = None)
     \<and> (role s = SERVER \<longrightarrow> client_identity_kp s = None)"

lemmas session_op_defs =
  set_client_identity_key_def client_initiate_handshake_def server_respond_to_handshake_def
  client_finalize_handshake_def encrypt_payload_def decrypt_packet_def

section \<open>Key sizes and agreement\<close>

lemma generate_kx_keypair_sizes:
  "sodium_ok S \<Longrightarrow> length (pk_data (publicKey (generate_kx_keypair S rnd))) = 32
     \<and> length (sk_data (privateKey (generate_kx_keypair S rnd))) = 32"
  using sodium_kx_sizes [of S rnd "fst (crypto_kx_keypair S rnd)" "snd (crypto_kx_keypair S rnd)"]
  by (simp add: generate_kx_keypair_def mk_key_pair_def)

lemma generate_kx_keypair_pair:
  "sodium_ok S \<Longrightarrow> kx_pair S (pk_data (publicKey (generate_kx_keypair S rnd)))
                                (sk_data (privateKey (generate_kx_keypair S rnd)))"
  using sodium_kx_sizes [of S rnd "fst (crypto_kx_keypair S rnd)" "snd (crypto_kx_keypair S rnd)"]
  by (auto simp: generate_kx_keypair_def mk_key_pair_def kx_pair_def)

lemma server_compute_sizes:
  "sodium_ok S \<Longrightarrow> server_compute_session_keys S kp pk = Inr k \<Longrightarrow> length (rx k) = 32 \<and> length (tx k) = 32"
  by (auto simp: server_compute_session_keys_def fill_session_keys_def
      dest: sodium_server_key_sizes split: if_splits option.splits)

lemma client_compute_sizes:
  "sodium_ok S \<Longrightarrow> client_compute_session_keys S kp pk = Inr k \<Longrightarrow> length (rx k) = 32 \<and> length (tx k) = 32"
  by (auto simp: client_compute_session_keys_def fill_session_keys_def
      dest: sodium_client_key_sizes split: if_splits option.splits)

lemma session_keys_agree:
  fixes S r1 r2
  assumes ok: "sodium_ok S"
  defines "ckp \<equiv> generate_kx_keypair S r1" and "skp \<equiv> generate_kx_keypair S r2"
  shows "\<exists>k1 k2. length k1 = 32 \<and> length k2 = 32
     \<and> client_compute_session_keys S ckp (publicKey skp) = Inr \<lparr>rx = k1, tx = k2\<rparr>
     \<and> server_compute_session_keys S skp (publicKey ckp) = Inr \<lparr>rx = k2, tx = k1\<rparr>"
proof -
  note sz = generate_kx_keypair_sizes [OF ok, of r1, folded ckp_def]
    generate_kx_keypair_sizes [OF ok, of r2, folded skp_def]
  obtain k1 k2 where
    c: "crypto_kx_client_session_keys S (pk_data (publicKey ckp)) (sk_data (privateKey ckp))
          (pk_data (publicKey skp)) = Some (k1, k2)" and
    s: "crypto_kx_server_session_keys S (pk_data (publicKey skp)) (sk_data (privateKey skp))
          (pk_data (publicKey ckp)) = Some (k2, k1)"
    using ok generate_kx_keypair_pair [OF ok, of r1] generate_kx_keypair_pair [OF ok, of r2]
    unfolding sodium_ok_def sodium_kx_agree_def ckp_def skp_def by metis
  have len: "length k1 = 32" "length k2 = 32"
    using sodium_client_key_sizes [OF ok c] by simp_all
  then have "client_compute_session_keys S ckp (publicKey skp) = Inr \<lparr>rx = k1, tx = k2\<rparr>"
    and "server_compute_session_keys S skp (publicKey ckp) = Inr \<lparr>rx = k2, tx = k1\<rparr>"
    using sz c s
    by (simp_all add: client_compute_session_keys_def server_compute_session_keys_def fill_session_keys_def)
  with len show ?thesis by blast
qed

section \<open>The invariant\<close>

lemma fresh_session_inv: "fresh_session s \<Longrightarrow> session_inv s"
  by (auto simp: fresh_session_def session_inv_def Session_def)

lemma set_identity_inv: "session_inv s \<Longrightarrow> session_inv (snd (set_client_identity_key kp s))"
  by (simp add: session_inv_def set_client_identity_key_def split: role.splits)

lemma initiate_inv: "session_inv s \<Longrightarrow> session_inv (snd (client_initiate_handshake S rnd s))"
  by (auto simp: session_inv_def client_initiate_handshake_def Let_def split: option.splits sum.splits)

lemma respond_inv:
  "sodium_ok S \<Longrightarrow> session_inv s \<Longrightarrow> session_inv (snd (server_respond_to_handshake S rnd ch s))"
  by (auto simp: session_inv_def server_respond_to_handshake_def Let_def server_compute_sizes
      dest: negotiate_Some_mem split: option.splits sum.splits)

lemma finalize_inv:
  "sodium_ok S \<Longrightarrow> session_inv s \<Longrightarrow> session_inv (snd (client_finalize_handshake S sh s))"
  by (auto simp: session_inv_def client_finalize_handshake_def Let_def client_compute_sizes list_ex_iff
      split: option.splits sum.splits)

lemma encrypt_inv: "session_inv s \<Longrightarrow> session_inv (snd (encrypt_payload S rnd p s))"
  by (auto simp: session_inv_def encrypt_payload_def Let_def split: option.splits)

lemma decrypt_inv: "session_inv s \<Longrightarrow> session_inv (snd (decrypt_packet S pkt s))"
  by (auto simp: session_inv_def decrypt_packet_def split: option.splits sum.splits)

lemma session_step_inv: "session_inv s \<Longrightarrow> session_step s t \<Longrightarrow> session_inv t"
  by (erule session_stepE)
    (auto intro: set_identity_inv initiate_inv respond_inv finalize_inv encrypt_inv decrypt_inv)

interpretation session_machine: machine fresh_session session_step session_inv
  by unfold_locales (auto intro: fresh_session_inv session_step_inv)

text \<open>In a session that keeps the invariant the two data-transfer methods fail only with standard
  exceptions: the null-pointer branches are unreachable.\<close>

lemma data_transfer_std:
  assumes "session_inv s"
  shows "encrypt_payload S rnd p s = (Inl e, t) \<Longrightarrow> is_std_exception e"
    and "decrypt_packet S pkt s = (Inl e, t) \<Longrightarrow> is_std_exception e \<and> t = s"
proof -
  show "encrypt_payload S rnd p s = (Inl e, t) \<Longrightarrow> is_std_exception e"
    using assms
    by (auto simp: encrypt_payload_def session_inv_def encrypt_def Let_def split: option.splits if_splits)
  have "payload_deserialize bs = Inl e \<Longrightarrow> is_std_exception e" for bs e
    by (auto simp: payload_deserialize_def split: if_splits)
  then show "decrypt_packet S pkt s = (Inl e, t) \<Longrightarrow> is_std_exception e \<and> t = s"
    using assms
    by (auto simp: decrypt_packet_def session_inv_def decrypt_def Let_def split: option.splits if_splits sum.splits)
qed

section \<open>Counters\<close>

text \<open>The counter a packet carries in its header.\<close>

definition packet_counter :: "byte_vector \<Rightarrow> u64" where
  "packet_counter pkt = ntohll_local (load_le (take 8 (drop 12 pkt)))"

lemma decrypt_counter: "decrypt S pkt k = Inr r \<Longrightarrow> dec_counter r = packet_counter pkt"
  by (auto simp: decrypt_def packet_counter_def Let_def split: if_splits option.splits sum.splits)

lemma decrypt_packet_Inr:
  "decrypt_packet S pkt s = (Inr p, t) \<Longrightarrow>
     recv_counter s < packet_counter pkt \<and> t = s\<lparr>recv_counter := packet_counter pkt\<rparr>"
  by (auto simp: decrypt_packet_def dest: decrypt_counter split: if_splits option.splits sum.splits)

lemma decrypt_packet_Inl: "decrypt_packet S pkt s = (Inl e, t) \<Longrightarrow> t = s"
  by (auto simp: decrypt_packet_def split: if_splits option.splits sum.splits)

lemma decrypt_packet_stale:
  "packet_counter pkt \<le> recv_counter s \<Longrightarrow> \<exists>e. decrypt_packet S pkt s = (Inl e, s)"
  by (auto simp: decrypt_packet_def dest: decrypt_counter split: option.splits sum.splits)

lemma decrypt_packet_recv_mono: "recv_counter s \<le> recv_counter (snd (decrypt_packet S pkt s))"
  by (auto simp: decrypt_packet_def not_le intro: less_imp_le split: option.splits sum.splits)

lemma session_step_recv_mono: "session_step s t \<Longrightarrow> recv_counter s \<le> recv_counter t"
  by (erule session_stepE)
    (auto simp: decrypt_packet_recv_mono set_client_identity_key_def client_initiate_handshake_def
      server_respond_to_handshake_def client_finalize_handshake_def encrypt_payload_def Let_def
      split: option.splits sum.splits)

lemma session_steps_recv_mono: "session_step\<^sup>*\<^sup>* s t \<Longrightarrow> recv_counter s \<le> recv_counter t"
  by (induction rule: rtranclp_induct) (auto dest: session_step_recv_mono)

section \<open>The handshake between two honest sessions\<close>

text \<open>
  The exchange as the network layer performs it: the client's hello is serialized, parsed by
  the server, answered, and the answer is serialized and parsed by the client.
\<close>

definition handshake_over_wire ::
  "sodium \<Rightarrow> nat \<Rightarrow> nat \<Rightarrow> session \<Rightarrow> session \<Rightarrow> unit result \<times> session \<times> session" where
  "handshake_over_wire S r1 r2 client server =
     (case client_initiate_handshake S r1 client of
        (Inl e, c1) \<Rightarrow> (Inl e, c1, server)
      | (Inr ch, c1) \<Rightarrow>
      (case client_hello_deserialize (client_hello_serialize ch) of
        Inl e \<Rightarrow> (Inl e, c1, server)
      | Inr ch' \<Rightarrow>
      (case server_respond_to_handshake S r2 ch' server of
        (Inl e, s1) \<Rightarrow> (Inl e, c1, s1)
      | (Inr sh, s1) \<Rightarrow>
      (case server_hello_deserialize (server_hello_serialize sh) of
        Inl e \<Rightarrow> (Inl e, c1, s1)
      | Inr sh' \<Rightarrow>
      (case client_finalize_handshake S sh' c1 of (r, c2) \<Rightarrow> (r, c2, s1))))))"

text \<open>What \<open>a\<close> encrypts, \<open>b\<close> can decrypt.\<close>

definition linked :: "session \<Rightarrow> session \<Rightarrow> bool" where
  "linked a b \<longleftrightarrow> handshake_complete a \<and> handshake_complete b
     \<and> (\<exists>ka kb. sess_keys a = Some ka \<and> sess_keys b = Some kb
          \<and> tx ka = rx kb \<and> length (tx ka) = crypto_aead_KEYBYTES)"

definition key_pair_ok :: "sodium \<Rightarrow> key_pair \<Rightarrow> bool" where
  "key_pair_ok S kp \<longleftrightarrow> sign_pair S (pk_data (publicKey kp)) (sk_data (privateKey kp))"

lemma key_pair_ok_sizes:
  "sodium_ok S \<Longrightarrow> key_pair_ok S kp \<Longrightarrow>
     length (pk_data (publicKey kp)) = 32 \<and> length (sk_data (privateKey kp)) = 64"
  unfolding key_pair_ok_def by (rule sodium_sign_sizes)

lemma generate_sign_keypair_ok: "sodium_ok S \<Longrightarrow> key_pair_ok S (generate_sign_keypair S rnd)"
proof -
  assume ok: "sodium_ok S"
  have pair: "sign_pair S (fst (crypto_sign_keypair S rnd)) (snd (crypto_sign_keypair S rnd))"
    unfolding sign_pair_def by (metis surjective_pairing)
  with sodium_sign_sizes [OF ok pair] show ?thesis
    by (simp add: key_pair_ok_def generate_sign_keypair_def mk_key_pair_def)
qed

lemma sign_verifies:
  assumes "sodium_ok S" and "key_pair_ok S kp"
  shows "\<exists>sg. sign S m (privateKey kp) = Inr sg \<and> length (sig_data sg) = 64 \<and> verify S sg m (publicKey kp)"
proof -
  have "crypto_sign_verify_detached S (crypto_sign_detached S m (sk_data (privateKey kp))) m
      (pk_data (publicKey kp))"
    using assms unfolding sodium_ok_def sodium_sign_correct_def key_pair_ok_def by blast
  then show ?thesis
    using assms key_pair_ok_sizes [OF assms] by (simp add: sign_def verify_def)
qed

lemma client_initiate_ok:
  assumes ok: "sodium_ok S" and "role c = CLIENT"
    and ident: "\<And>kp. client_identity_kp c = Some kp \<Longrightarrow> key_pair_ok S kp"
    and "length (sess_supported_versions c) < 65536"
  shows "\<exists>ch. client_initiate_handshake S rnd c
               = (Inr ch, c\<lparr>ephemeral_kx_kp := Some (generate_kx_keypair S rnd)\<rparr>)
           \<and> client_hello_ok ch
           \<and> supported_versions ch = sess_supported_versions c
           \<and> ephemeral_pk ch = publicKey (generate_kx_keypair S rnd)
           \<and> (has_client_identity ch \<longleftrightarrow> client_identity_kp c \<noteq> None)
           \<and> (has_client_identity ch \<longrightarrow>
                verify S (identity_sig ch) (pk_data (ephemeral_pk ch)) (identity_pk ch))
           \<and> (\<forall>kp. client_identity_kp c = Some kp \<longrightarrow> identity_pk ch = publicKey kp)"
proof (cases "client_identity_kp c")
  case None
  then show ?thesis
    using assms generate_kx_keypair_sizes [OF ok, of rnd]
    by (simp add: client_initiate_handshake_def Let_def client_hello_ok_def)
next
  case (Some kp)
  then have kp: "key_pair_ok S kp" by (rule ident)
  obtain sg where "sign S (pk_data (publicKey (generate_kx_keypair S rnd))) (privateKey kp) = Inr sg"
    and "length (sig_data sg) = 64"
    and "verify S sg (pk_data (publicKey (generate_kx_keypair S rnd))) (publicKey kp)"
    using sign_verifies [OF ok kp] by blast
  then show ?thesis
    using Some assms generate_kx_keypair_sizes [OF ok, of rnd] key_pair_ok_sizes [OF ok kp]
    by (simp add: client_initiate_handshake_def Let_def client_hello_ok_def)
qed

text \<open>The server's answer to a well-formed hello whose key comes from a generated key pair.\<close>

lemma server_respond_ok:
  assumes ok: "sodium_ok S" and "role s = SERVER"
    and "negotiate (supported_versions ch) (sess_supported_versions s) = Some v"
    and "has_client_identity ch \<Longrightarrow>
           verify S (identity_sig ch) (pk_data (ephemeral_pk ch)) (identity_pk ch)"
    and "key_pair_ok S (server_sign_key s)"
    and "server_compute_session_keys S (generate_kx_keypair S rnd) (ephemeral_pk ch) = Inr keys"
  shows "\<exists>sg. server_respond_to_handshake S rnd ch s
           = (Inr \<lparr>selected_version = v, sh_ephemeral_pk = publicKey (generate_kx_keypair S rnd),
                   sh_signature = sg\<rparr>,
              s\<lparr>sess_selected_version := Some v,
                 peer_identity := (if has_client_identity ch then Some (identity_pk ch) else peer_identity s),
                 ephemeral_kx_kp := Some (generate_kx_keypair S rnd),
                 sess_keys := Some keys, handshake_complete := True\<rparr>)
           \<and> length (sig_data sg) = 64
           \<and> verify S sg (pk_data (publicKey (generate_kx_keypair S rnd))) (publicKey (server_sign_key s))"
proof -
  obtain sg where "sign S (pk_data (publicKey (generate_kx_keypair S rnd)))
        (privateKey (server_sign_key s)) = Inr sg"
    and "length (sig_data sg) = 64"
    and "verify S sg (pk_data (publicKey (generate_kx_keypair S rnd))) (publicKey (server_sign_key s))"
    using sign_verifies [OF ok assms(5)] by blast
  then show ?thesis
    using assms by (simp add: server_respond_to_handshake_def Let_def)
qed

lemma handshake_agreement:
  assumes ok: "sodium_ok S" and c: "role c = CLIENT" and s: "role s = SERVER"
    and neg: "negotiate (sess_supported_versions c) (sess_supported_versions s) = Some v"
    and vers: "length (sess_supported_versions c) < 65536"
    and ident: "\<And>kp. client_identity_kp c = Some kp \<Longrightarrow> key_pair_ok S kp"
    and skey: "key_pair_ok S (server_sign_key s)"
    and pin: "publicKey (server_sign_key c) = publicKey (server_sign_key s)"
  shows "\<exists>c' s'. handshake_over_wire S r1 r2 c s = (Inr (), c', s')
     \<and> linked c' s' \<and> linked s' c'
     \<and> sess_selected_version c' = Some v \<and> sess_selected_version s' = Some v
     \<and> send_counter c' = send_counter c \<and> recv_counter c' = recv_counter c
     \<and> send_counter s' = send_counter s \<and> recv_counter s' = recv_counter s
     \<and> peer_identity s' = (case client_identity_kp c of None \<Rightarrow> peer_identity s
                                                      | Some kp \<Rightarrow> Some (publicKey kp))"
proof -
  obtain ch where ch: "client_initiate_handshake S r1 c
               = (Inr ch, c\<lparr>ephemeral_kx_kp := Some (generate_kx_keypair S r1)\<rparr>)"
      "client_hello_ok ch" "supported_versions ch = sess_supported_versions c"
      "ephemeral_pk ch = publicKey (generate_kx_keypair S r1)"
      "has_client_identity ch \<longleftrightarrow> client_identity_kp c \<noteq> None"
      "has_client_identity ch \<longrightarrow> verify S (identity_sig ch) (pk_data (ephemeral_pk ch)) (identity_pk ch)"
      "\<forall>kp. client_identity_kp c = Some kp \<longrightarrow> identity_pk ch = publicKey kp"
    using client_initiate_ok [OF ok c ident vers] by blast
  obtain k1 k2 where k: "length k1 = 32" "length k2 = 32"
      "client_compute_session_keys S (generate_kx_keypair S r1) (publicKey (generate_kx_keypair S r2))
        = Inr \<lparr>rx = k1, tx = k2\<rparr>"
      "server_compute_session_keys S (generate_kx_keypair S r2) (publicKey (generate_kx_keypair S r1))
        = Inr \<lparr>rx = k2, tx = k1\<rparr>"
    using session_keys_agree [OF ok] by blast
  obtain sg where sh: "server_respond_to_handshake S r2 ch s
           = (Inr \<lparr>selected_version = v, sh_ephemeral_pk = publicKey (generate_kx_keypair S r2),
                   sh_signature = sg\<rparr>,
              s\<lparr>sess_selected_version := Some v,
                 peer_identity := (if has_client_identity ch then Some (identity_pk ch) else peer_identity s),
                 ephemeral_kx_kp := Some (generate_kx_keypair S r2),
                 sess_keys := Some \<lparr>rx = k2, tx = k1\<rparr>, handshake_complete := True\<rparr>)"
      "length (sig_data sg) = 64"
      "verify S sg (pk_data (publicKey (generate_kx_keypair S r2))) (publicKey (server_sign_key s))"
    using server_respond_ok [OF ok s, of ch v r2 "\<lparr>rx = k2, tx = k1\<rparr>"] neg ch k skey by auto
  have wire1: "client_hello_deserialize (client_hello_serialize ch) = Inr ch"
    using ch(2) by (rule codec_laws)
  have wire2: "server_hello_deserialize (server_hello_serialize
      \<lparr>selected_version = v, sh_ephemeral_pk = publicKey (generate_kx_keypair S r2), sh_signature = sg\<rparr>)
    = Inr \<lparr>selected_version = v, sh_ephemeral_pk = publicKey (generate_kx_keypair S r2), sh_signature = sg\<rparr>"
    using sh(2) generate_kx_keypair_sizes [OF ok, of r2]
    by (intro codec_laws) (simp add: server_hello_ok_def)
  have "v \<in> set (sess_supported_versions c)"
    using negotiate_Some_mem [OF neg] by simp
  then show ?thesis
    using ch sh wire1 wire2 k c pin
    by (auto simp: handshake_over_wire_def client_finalize_handshake_def Let_def linked_def list_ex_iff
        split: option.splits)
qed

section \<open>Sequences of packets\<close>

text \<open>Encrypting a list of payloads (each with the randomness of its call), and feeding a list
  of packets to a receiver; the receiver goes on after a packet it rejects.\<close>

fun encrypt_all ::
  "sodium \<Rightarrow> (nat \<times> payload) list \<Rightarrow> session \<Rightarrow> byte_vector result list \<times> session" where
  "encrypt_all S [] s = ([], s)"
| "encrypt_all S ((rnd, p) # rest) s =
     (let (r, s') = encrypt_payload S rnd p s; (rs, s'') = encrypt_all S rest s' in (r # rs, s''))"

fun decrypt_all ::
  "sodium \<Rightarrow> byte_vector list \<Rightarrow> session \<Rightarrow> payload result list \<times> session" where
  "decrypt_all S [] s = ([], s)"
| "decrypt_all S (pkt # rest) s =
     (let (r, s') = decrypt_packet S pkt s; (rs, s'') = decrypt_all S rest s' in (r # rs, s''))"

text \<open>The packets a receiver accepts out of a list.\<close>

fun accepted :: "sodium \<Rightarrow> byte_vector list \<Rightarrow> session \<Rightarrow> byte_vector list" where
  "accepted S [] s = []"
| "accepted S (pkt # rest) s =
     (case decrypt_packet S pkt s of
        (Inl e, s') \<Rightarrow> accepted S rest s'
      | (Inr p, s') \<Rightarrow> pkt # accepted S rest s')"

lemma accepted_counters:
  "sorted_wrt (<) (map packet_counter (accepted S pkts s))
   \<and> (\<forall>pkt \<in> set (accepted S pkts s). recv_counter s < packet_counter pkt)"
proof (induction pkts arbitrary: s)
  case (Cons pkt pkts)
  show ?case
  proof (cases "decrypt_packet S pkt s")
    case (Pair r s')
    show ?thesis
    proof (cases r)
      case (Inl e)
      then show ?thesis using Pair Cons.IH [of s] decrypt_packet_Inl [of S pkt s] by auto
    next
      case (Inr p)
      then have "recv_counter s < packet_counter pkt" "recv_counter s' = packet_counter pkt"
        using Pair decrypt_packet_Inr [of S pkt s p s'] by auto
      then show ?thesis using Pair Inr Cons.IH [of s'] by fastforce
    qed
  qed
qed simp

text \<open>
  A stream of sealed packets under one key with increasing counters, all above \<open>c\<close>. Every
  receiver at \<open>c\<close> opens all of them, and so does one that misses some.
\<close>

fun sealed_stream :: "sodium \<Rightarrow> byte_vector \<Rightarrow> u64 \<Rightarrow> (payload \<times> byte_vector) list \<Rightarrow> bool" where
  "sealed_stream S k c [] \<longleftrightarrow> True"
| "sealed_stream S k c ((p, pkt) # rest) \<longleftrightarrow>
     c < packet_counter pkt
     \<and> decrypt S pkt k = Inr \<lparr>dec_payload = p, dec_counter = packet_counter pkt\<rparr>
     \<and> sealed_stream S k (packet_counter pkt) rest"

lemma sealed_stream_mono: "sealed_stream S k c xs \<Longrightarrow> c' \<le> c \<Longrightarrow> sealed_stream S k c' xs"
  by (cases xs) auto

lemma sealed_stream_subseq: "subseq ys xs \<Longrightarrow> sealed_stream S k c xs \<Longrightarrow> sealed_stream S k c ys"
proof (induction arbitrary: c rule: list_emb.induct)
  case (list_emb_Cons xs ys y)
  obtain p pkt where y: "y = (p, pkt)" by (cases y)
  with list_emb_Cons have "sealed_stream S k (packet_counter pkt) xs" "c \<le> packet_counter pkt"
    by (simp_all add: less_imp_le)
  then show ?case by (rule sealed_stream_mono)
next
  case (list_emb_Cons2 x y xs ys)
  then show ?case by (cases y) auto
qed simp

lemma decrypt_all_sealed:
  "handshake_complete s \<Longrightarrow> sess_keys s = Some keys \<Longrightarrow> sealed_stream S (rx keys) (recv_counter s) xs
     \<Longrightarrow> fst (decrypt_all S (map snd xs) s) = map (Inr \<circ> fst) xs"
proof (induction xs arbitrary: s)
  case (Cons x xs)
  then have step: "decrypt_packet S (snd x) s = (Inr (fst x), s\<lparr>recv_counter := packet_counter (snd x)\<rparr>)"
    by (cases x) (auto simp: decrypt_packet_def)
  have "sealed_stream S (rx keys) (packet_counter (snd x)) xs"
    using Cons.prems(3) by (cases x) simp
  then have "fst (decrypt_all S (map snd xs) (s\<lparr>recv_counter := packet_counter (snd x)\<rparr>))
      = map (Inr \<circ> fst) xs"
    using Cons by simp
  then show ?case
    by (simp add: step split_beta)
qed simp

lemma succ_counter: "unat (c :: u64) + 1 < 2 ^ 64 \<Longrightarrow> c < c + 1 \<and> unat (c + 1) = unat c + 1"
  by (simp add: word_less_nat_alt unat_word_ariths)

lemma encrypt_all_sealed:
  assumes "sodium_ok S" and "handshake_complete s" and "sess_keys s = Some keys"
    and "length (tx keys) = 32" and "unat (send_counter s) + length ps < 2 ^ 64"
  shows "\<exists>pkts. fst (encrypt_all S ps s) = map Inr pkts \<and> length pkts = length ps
     \<and> sealed_stream S (tx keys) (send_counter s) (zip (map snd ps) pkts)"
  using assms
proof (induction ps arbitrary: s)
  case (Cons x ps)
  obtain rnd p where x: "x = (rnd, p)" by (cases x)
  let ?s = "s\<lparr>send_counter := send_counter s + 1\<rparr>"
  obtain pkt where pkt: "encrypt S rnd p (send_counter s + 1) (tx keys) = Inr pkt"
    and dec: "decrypt S pkt (tx keys) = Inr \<lparr>dec_payload = p, dec_counter = send_counter s + 1\<rparr>"
    using crypto_channel.sealed_opens [OF Cons.prems(1) Cons.prems(4)] by blast
  have ctr: "packet_counter pkt = send_counter s + 1"
    using decrypt_counter [OF dec] by simp
  have succ: "send_counter s < send_counter s + 1" "unat (send_counter s + 1) = unat (send_counter s) + 1"
    using succ_counter [of "send_counter s"] Cons.prems(5) by auto
  obtain pkts where "fst (encrypt_all S ps ?s) = map Inr pkts" "length pkts = length ps"
    "sealed_stream S (tx keys) (send_counter s + 1) (zip (map snd ps) pkts)"
    using Cons.IH [of ?s] Cons.prems succ by auto
  then have "fst (encrypt_all S (x # ps) s) = map Inr (pkt # pkts)"
    "sealed_stream S (tx keys) (send_counter s) (zip (map snd (x # ps)) (pkt # pkts))"
    using Cons.prems x pkt dec ctr succ
    by (simp_all add: encrypt_payload_def Let_def split_beta)
  then show ?case
    using \<open>length pkts = length ps\<close> by (metis length_Cons)
qed simp

lemma linked_round_trip:
  assumes "sodium_ok S" and "linked a b" and "recv_counter b \<le> send_counter a"
    and "unat (send_counter a) + 1 < 2 ^ 64"
  shows "\<exists>pkt. encrypt_payload S rnd p a = (Inr pkt, a\<lparr>send_counter := send_counter a + 1\<rparr>)
     \<and> decrypt_packet S pkt b = (Inr p, b\<lparr>recv_counter := send_counter a + 1\<rparr>)"
proof -
  obtain ka kb where k: "sess_keys a = Some ka" "sess_keys b = Some kb" "tx ka = rx kb"
      "length (tx ka) = 32" "handshake_complete a" "handshake_complete b"
    using assms(2) by (auto simp: linked_def)
  obtain pkt where "encrypt S rnd p (send_counter a + 1) (tx ka) = Inr pkt"
    "decrypt S pkt (tx ka) = Inr \<lparr>dec_payload = p, dec_counter = send_counter a + 1\<rparr>"
    using crypto_channel.sealed_opens [OF assms(1) k(4)] by blast
  moreover have "recv_counter b < send_counter a + 1"
    using assms(3) succ_counter [OF assms(4)] by (metis order_le_less_trans)
  ultimately show ?thesis
    using k by (simp add: encrypt_payload_def decrypt_packet_def Let_def)
qed

text \<open>What reaches the application out of a list of packets.\<close>

definition received :: "sodium \<Rightarrow> byte_vector list \<Rightarrow> session \<Rightarrow> payload list" where
  "received S pkts s = map projr (filter (\<lambda>r. \<not> isl r) (fst (decrypt_all S pkts s)))"

lemma received_simps [simp]:
  "received S [] s = []"
  "received S (pkt # pkts) s =
     (case decrypt_packet S pkt s of
        (Inl e, s') \<Rightarrow> received S pkts s'
      | (Inr p, s') \<Rightarrow> p # received S pkts s')"
  by (simp_all add: received_def split_beta split: prod.split sum.split)

lemma sealed_stream_split:
  "sealed_stream S k c (ys @ (p, pkt) # zs) \<Longrightarrow>
     (\<forall>x \<in> set ys. packet_counter (snd x) < packet_counter pkt)
     \<and> decrypt S pkt k = Inr \<lparr>dec_payload = p, dec_counter = packet_counter pkt\<rparr>
     \<and> sealed_stream S k (packet_counter pkt) zs \<and> c < packet_counter pkt"
proof (induction ys arbitrary: c)
  case (Cons y ys)
  obtain q pkt' where y: "y = (q, pkt')" by (cases y)
  then have "sealed_stream S k (packet_counter pkt') (ys @ (p, pkt) # zs)" and "c < packet_counter pkt'"
    using Cons.prems by simp_all
  then show ?case using Cons.IH y by fastforce
qed simp

text \<open>A receiver that is only ever given packets of a sealed stream, or such as do not open, delivers
  payloads of the stream, each at most once and in order.\<close>

lemma received_subseq:
  assumes "handshake_complete s" and "sess_keys s = Some keys" and "sealed_stream S (rx keys) c xs"
    and "\<And>pkt x. pkt \<in> set pkts \<Longrightarrow> decrypt S pkt (rx keys) = Inr x \<Longrightarrow> recv_counter s < packet_counter pkt \<Longrightarrow>
      pkt \<in> snd ` set xs"
  shows "subseq (received S pkts s) (map fst xs)"
  using assms
proof (induction pkts arbitrary: s c xs)
  case (Cons pkt pkts)
  obtain r s' where run: "decrypt_packet S pkt s = (r, s')" by fastforce
  show ?case
  proof (cases r)
    case (Inl e)
    then have "s' = s" using decrypt_packet_Inl run by simp
    then show ?thesis using Inl run Cons by simp
  next
    case (Inr p)
    have opened: "decrypt S pkt (rx keys) = Inr \<lparr>dec_payload = p, dec_counter = packet_counter pkt\<rparr>"
        "recv_counter s < packet_counter pkt" and s': "s' = s\<lparr>recv_counter := packet_counter pkt\<rparr>"
      using run Inr Cons.prems(1,2) decrypt_counter [of S pkt "rx keys"]
      by (auto simp: decrypt_packet_def split: sum.splits if_splits)
    then obtain p' where "(p', pkt) \<in> set xs"
      using Cons.prems(4) [of pkt] by force
    then obtain ys zs where xs: "xs = ys @ (p', pkt) # zs" by (meson split_list)
    note split = sealed_stream_split [OF Cons.prems(3) [unfolded xs]]
    have "subseq (received S pkts s') (map fst zs)"
    proof (rule Cons.IH [of s' "packet_counter pkt"])
      fix pkt' x
      assume "pkt' \<in> set pkts" "decrypt S pkt' (rx keys) = Inr x" and later: "recv_counter s' < packet_counter pkt'"
      then have "pkt' \<in> snd ` set xs"
        using Cons.prems(4) [of pkt'] opened(2) s' by (auto dest: less_trans)
      then show "pkt' \<in> snd ` set zs"
        using later s' split xs by fastforce
    qed (use Cons.prems(1,2) split s' in simp_all)
    moreover have "p' = p" using split opened(1) by simp
    ultimately show ?thesis
      using run Inr by (auto simp: xs intro: list_emb_append2)
  qed
qed simp

text \<open>A receiver that is given packets of one channel in any order and with any repetitions delivers
  those whose counter exceeds every counter before them.\<close>

lemma received_maxima:
  assumes "handshake_complete s" and "sess_keys s = Some keys"
    and "\<And>i. i \<in> set is \<Longrightarrow> decrypt S (pkt i) (rx keys) = Inr \<lparr>dec_payload = f i, dec_counter = packet_counter (pkt i)\<rparr>"
  shows "received S (map pkt is) s
    = map f (ltr_maxima (\<lambda>i. packet_counter (pkt i)) (filter (\<lambda>i. recv_counter s < packet_counter (pkt i)) is))"
  using assms
proof (induction "is" arbitrary: s)
  case (Cons i "is")
  let ?c = "packet_counter (pkt i)"
  let ?t = "s\<lparr>recv_counter := ?c\<rparr>"
  have run: "decrypt_packet S (pkt i) s = (if recv_counter s < ?c then (Inr (f i), ?t)
      else (Inl (RuntimeError ''Counter mismatch. Possible replay attack.''), s))"
    using Cons.prems by (simp add: decrypt_packet_def not_less [symmetric])
  show ?case
  proof (cases "recv_counter s < ?c")
    case True
    have "filter (\<lambda>j. ?c < packet_counter (pkt j)) (filter (\<lambda>j. recv_counter s < packet_counter (pkt j)) is)
        = filter (\<lambda>j. ?c < packet_counter (pkt j)) is"
      using True by (auto intro: filter_cong less_trans)
    moreover have "received S (map pkt is) ?t
        = map f (ltr_maxima (\<lambda>j. packet_counter (pkt j)) (filter (\<lambda>j. ?c < packet_counter (pkt j)) is))"
      using Cons.IH [of ?t] Cons.prems by simp
    ultimately show ?thesis using run True by simp
  next
    case False
    then show ?thesis using run Cons.IH [of s] Cons.prems by simp
  qed
qed simp

lemma sealed_stream_nth:
  "sealed_stream S k c xs \<Longrightarrow> i < length xs \<Longrightarrow>
     decrypt S (snd (xs ! i)) k = Inr \<lparr>dec_payload = fst (xs ! i), dec_counter = packet_counter (snd (xs ! i))\<rparr>
     \<and> c < packet_counter (snd (xs ! i))
     \<and> (\<forall>j < i. packet_counter (snd (xs ! j)) < packet_counter (snd (xs ! i)))"
proof -
  assume *: "sealed_stream S k c xs" "i < length xs"
  have "xs = take i xs @ (fst (xs ! i), snd (xs ! i)) # drop (Suc i) xs"
    using *(2) by (simp add: id_take_nth_drop [symmetric])
  then have "sealed_stream S k c (take i xs @ (fst (xs ! i), snd (xs ! i)) # drop (Suc i) xs)"
    using *(1) by simp
  note split = sealed_stream_split [OF this]
  have "xs ! j \<in> set (take i xs)" if "j < i" for j
    using that *(2) by (auto simp: in_set_conv_nth intro: exI [of _ j])
  then show ?thesis using split by blast
qed

section \<open>Sample sessions\<close>

text \<open>Concrete sessions over \<open>model_sodium\<close>, used to exhibit inputs that satisfy the hypotheses
  of the properties below.\<close>

definition sample_server_key :: key_pair where
  "sample_server_key = generate_sign_keypair model_sodium 7"

definition sample_client :: session where
  "sample_client =
     Session CLIENT (sample_server_key\<lparr>privateKey := PrivateKey []\<rparr>) [V1_1, V1_0]"

definition sample_server :: session where
  "sample_server = Session SERVER sample_server_key [V1_0]"

definition sample_client_up :: session where
  "sample_client_up = fst (snd (handshake_over_wire model_sodium 1 2 sample_client sample_server))"

definition sample_server_up :: session where
  "sample_server_up = snd (snd (handshake_over_wire model_sodium 1 2 sample_client sample_server))"

definition sample_payload :: payload where
  "sample_payload = \<lparr>op_code = 0x1234, parameters = [0, 1, 42]\<rparr>"

lemma sample_server_key_ok: "key_pair_ok model_sodium sample_server_key"
  unfolding sample_server_key_def by (rule generate_sign_keypair_ok) (rule model_sodium_ok)

lemma sample_negotiate: "negotiate [V1_1, V1_0] [V1_0] = Some V1_0"
  by (simp add: V1_1_def V1_0_def)

lemma sample_handshake:
  "\<exists>c' s'. handshake_over_wire model_sodium 1 2 sample_client sample_server = (Inr (), c', s')
     \<and> linked c' s' \<and> send_counter c' = 0 \<and> recv_counter s' = 0"
proof -
  have "\<exists>c' s'. handshake_over_wire model_sodium 1 2 sample_client sample_server = (Inr (), c', s')
     \<and> linked c' s' \<and> linked s' c'
     \<and> sess_selected_version c' = Some V1_0 \<and> sess_selected_version s' = Some V1_0
     \<and> send_counter c' = send_counter sample_client \<and> recv_counter c' = recv_counter sample_client
     \<and> send_counter s' = send_counter sample_server \<and> recv_counter s' = recv_counter sample_server
     \<and> peer_identity s' = (case client_identity_kp sample_client of None \<Rightarrow> peer_identity sample_server
                                                      | Some kp \<Rightarrow> Some (publicKey kp))"
    by (rule handshake_agreement)
      (simp_all add: model_sodium_ok sample_client_def sample_server_def Session_def
        sample_negotiate sample_server_key_ok)
  then show ?thesis
    by (auto simp: sample_client_def sample_server_def Session_def)
qed

lemma sample_up: "linked sample_client_up sample_server_up"
  "send_counter sample_client_up = 0" "recv_counter sample_server_up = 0"
  using sample_handshake by (auto simp: sample_client_up_def sample_server_up_def)

definition sample_packet :: byte_vector where
  "sample_packet = projr (fst (encrypt_payload model_sodium 3 sample_payload sample_client_up))"

lemma sample_packet_accepted:
  "decrypt_packet model_sodium sample_packet sample_server_up
     = (Inr sample_payload, sample_server_up\<lparr>recv_counter := 1\<rparr>)"
  using linked_round_trip [OF model_sodium_ok sample_up(1), of 3 sample_payload]
  by (auto simp: sample_up sample_packet_def)

lemma lossy_packets:
  "\<exists>p1 p2. fst (encrypt_all model_sodium [(1, sample_payload), (2, sample_payload)] sample_client_up) = [Inr p1, Inr p2]"
proof -
  obtain keys where "handshake_complete sample_client_up" "sess_keys sample_client_up = Some keys" "length (tx keys) = 32"
    using sample_up(1) by (auto simp: linked_def)
  then obtain pkts where "fst (encrypt_all model_sodium [(1, sample_payload), (2, sample_payload)] sample_client_up) = map Inr pkts"
      "length pkts = 2"
    using encrypt_all_sealed [OF model_sodium_ok, of sample_client_up keys "[(1, sample_payload), (2, sample_payload)]"]
    by (auto simp: sample_up)
  then show ?thesis by (auto simp: length_Suc_conv numeral_2_eq_2)
qed

section \<open>Properties\<close>

text \<open>C3: a client and a server with a common version, the server's key pinned in the client,
  complete the handshake over the wire: both agree on the version the negotiation selects,
  each one's sending key is the other's receiving key, the counters are untouched, and the
  server knows the client's identity exactly when the client has one.\<close>

theorem handshake_establishes_channel:
  assumes "sodium_ok S" and "role c = CLIENT" and "role s = SERVER"
    and "negotiate (sess_supported_versions c) (sess_supported_versions s) = Some v"
    and "length (sess_supported_versions c) < 65536"
    and "\<And>kp. client_identity_kp c = Some kp \<Longrightarrow> key_pair_ok S kp"
    and "key_pair_ok S (server_sign_key s)"
    and "publicKey (server_sign_key c) = publicKey (server_sign_key s)"
  shows "\<exists>c' s'. handshake_over_wire S r1 r2 c s = (Inr (), c', s')
     \<and> linked c' s' \<and> linked s' c'
     \<and> sess_selected_version c' = Some v \<and> sess_selected_version s' = Some v
     \<and> send_counter c' = send_counter c \<and> recv_counter c' = recv_counter c
     \<and> send_counter s' = send_counter s \<and> recv_counter s' = recv_counter s
     \<and> peer_identity s' = (case client_identity_kp c of None \<Rightarrow> peer_identity s
                                                      | Some kp \<Rightarrow> Some (publicKey kp))"
  using assms by (rule handshake_agreement)

theorem handshake_establishes_channel_witness:
  "\<exists>c' s'. handshake_over_wire model_sodium 1 2 sample_client sample_server = (Inr (), c', s')
     \<and> linked c' s' \<and> linked s' c' \<and> sess_selected_version c' = Some V1_0"
proof -
  have "\<exists>c' s'. handshake_over_wire model_sodium 1 2 sample_client sample_server = (Inr (), c', s')
     \<and> linked c' s' \<and> linked s' c'
     \<and> sess_selected_version c' = Some V1_0 \<and> sess_selected_version s' = Some V1_0
     \<and> send_counter c' = send_counter sample_client \<and> recv_counter c' = recv_counter sample_client
     \<and> send_counter s' = send_counter sample_server \<and> recv_counter s' = recv_counter sample_server
     \<and> peer_identity s' = (case client_identity_kp sample_client of None \<Rightarrow> peer_identity sample_server
                                                      | Some kp \<Rightarrow> Some (publicKey kp))"
    by (rule handshake_establishes_channel)
      (simp_all add: model_sodium_ok sample_client_def sample_server_def Session_def
        sample_negotiate sample_server_key_ok)
  then show ?thesis by blast
qed

text \<open>C9: what a receiver makes of any way the network treats a run of packets. The sender's payloads are
  encrypted one after the other, and the packets with the indices \<open>is\<close> arrive, in that order: any of them
  may be missing, repeated or overtaken by later ones. The application gets exactly the payloads at the
  left-to-right maxima of the indices; it gets all that arrive just when they arrive in order.\<close>

theorem delivery_exact:
  assumes "sodium_ok S" and "linked a b" and "recv_counter b \<le> send_counter a"
    and "unat (send_counter a) + length ps < 2 ^ 64" and "list_all (\<lambda>i. i < length ps) is"
  shows "\<exists>pkts. fst (encrypt_all S ps a) = map Inr pkts
     \<and> received S (map (nth pkts) is) b = map (\<lambda>i. snd (ps ! i)) (ltr_maxima (\<lambda>i. i) is)
     \<and> (length (received S (map (nth pkts) is) b) = length is \<longleftrightarrow> sorted_wrt (<) is)"
proof -
  obtain ka kb where k: "sess_keys a = Some ka" "sess_keys b = Some kb" "tx ka = rx kb"
      "length (tx ka) = 32" "handshake_complete a" "handshake_complete b"
    using assms(2) by (auto simp: linked_def)
  obtain pkts where sent: "fst (encrypt_all S ps a) = map Inr pkts" "length pkts = length ps"
    and sealed: "sealed_stream S (tx ka) (send_counter a) (zip (map snd ps) pkts)"
    using encrypt_all_sealed [OF assms(1) k(5,1,4) assms(4)] by blast
  have nth: "decrypt S (pkts ! i) (rx kb) = Inr \<lparr>dec_payload = snd (ps ! i), dec_counter = packet_counter (pkts ! i)\<rparr>"
      "recv_counter b < packet_counter (pkts ! i)"
      "\<forall>j < i. packet_counter (pkts ! j) < packet_counter (pkts ! i)" if "i < length ps" for i
    using sealed_stream_nth [OF sealed, of i] that sent(2) assms(3) k(3) by auto
  have inside: "i < length ps" if "i \<in> set is" for i using assms(5) that by (simp add: list_all_iff)
  have ordered: "packet_counter (pkts ! i) < packet_counter (pkts ! j) \<longleftrightarrow> i < j"
    if "i \<in> set is" "j \<in> set is" for i j
    using nth(3) [OF inside [OF that(1)]] nth(3) [OF inside [OF that(2)]]
    by (cases i j rule: linorder_cases) (auto dest: less_asym)
  have "received S (map (nth pkts) is) b = map (\<lambda>i. snd (ps ! i)) (ltr_maxima (\<lambda>i. packet_counter (pkts ! i)) is)"
    using received_maxima [OF k(6,2), of "is" S "nth pkts" "\<lambda>i. snd (ps ! i)"] nth inside by simp
  moreover have "ltr_maxima (\<lambda>i. packet_counter (pkts ! i)) is = ltr_maxima (\<lambda>i. i) is"
    by (rule ltr_maxima_cong) (rule ordered)
  ultimately show ?thesis using sent(1) by (auto simp: ltr_maxima_all)
qed

theorem delivery_exact_witness:
  "\<exists>pkts. fst (encrypt_all model_sodium [(1, sample_payload), (2, sample_payload\<lparr>op_code := 7\<rparr>)] sample_client_up)
        = map Inr pkts
     \<and> received model_sodium [pkts ! 1, pkts ! 0, pkts ! 1] sample_server_up = [sample_payload\<lparr>op_code := 7\<rparr>]"
  using delivery_exact [OF model_sodium_ok sample_up(1),
      of "[(1, sample_payload), (2, sample_payload\<lparr>op_code := 7\<rparr>)]" "[1, 0, 1]"]
  by (auto simp: sample_up)

text \<open>Over an established channel, whatever subsequence of the sent packets arrives in
  order is decrypted to exactly the corresponding payloads, as long as the 64-bit counter of
  the sender does not wrap.\<close>

theorem lossy_in_order_delivery:
  assumes "sodium_ok S" and "linked a b" and "recv_counter b \<le> send_counter a"
    and "unat (send_counter a) + length ps < 2 ^ 64"
  shows "\<exists>pkts. fst (encrypt_all S ps a) = map Inr pkts
     \<and> (\<forall>xs. subseq xs (zip (map snd ps) pkts) \<longrightarrow>
          fst (decrypt_all S (map snd xs) b) = map (Inr \<circ> fst) xs)"
proof -
  obtain ka kb where k: "sess_keys a = Some ka" "sess_keys b = Some kb" "tx ka = rx kb"
      "length (tx ka) = 32" "handshake_complete a" "handshake_complete b"
    using assms(2) by (auto simp: linked_def)
  obtain pkts where "fst (encrypt_all S ps a) = map Inr pkts"
    and sealed: "sealed_stream S (tx ka) (send_counter a) (zip (map snd ps) pkts)"
    using encrypt_all_sealed [OF assms(1) k(5,1,4) assms(4)] by blast
  moreover have "fst (decrypt_all S (map snd xs) b) = map (Inr \<circ> fst) xs"
    if "subseq xs (zip (map snd ps) pkts)" for xs
    using sealed_stream_mono [OF sealed_stream_subseq [OF that sealed] assms(3)] k(3)
    by (intro decrypt_all_sealed [OF k(6,2)]) simp
  ultimately show ?thesis by blast
qed

theorem lossy_in_order_delivery_witness:
  "\<exists>pkts. fst (encrypt_all model_sodium [(1, sample_payload), (2, sample_payload)] sample_client_up)
        = map Inr pkts
     \<and> (\<forall>xs. subseq xs (zip [sample_payload, sample_payload] pkts) \<longrightarrow>
          fst (decrypt_all model_sodium (map snd xs) sample_server_up) = map (Inr \<circ> fst) xs)"
  using lossy_in_order_delivery [OF model_sodium_ok sample_up(1),
      of "[(1, sample_payload), (2, sample_payload)]"]
  by (simp add: sample_up)

text \<open>C2: a packet is never accepted twice. Once a session has accepted a packet, every later
  state of it, whatever methods were called in between (a new handshake included), rejects
  that packet and is left unchanged by the attempt.\<close>

theorem replay_rejected:
  assumes "decrypt_packet S pkt s = (Inr p, s')" and "session_step\<^sup>*\<^sup>* s' t"
  shows "\<exists>e. decrypt_packet S' pkt t = (Inl e, t)"
  using decrypt_packet_Inr [OF assms(1)] session_steps_recv_mono [OF assms(2)]
  by (intro decrypt_packet_stale) simp

theorem replay_rejected_witness:
  "\<exists>e. decrypt_packet model_sodium sample_packet
          (snd (encrypt_payload model_sodium 5 sample_payload (sample_server_up\<lparr>recv_counter := 1\<rparr>)))
        = (Inl e, snd (encrypt_payload model_sodium 5 sample_payload (sample_server_up\<lparr>recv_counter := 1\<rparr>)))"
  by (rule replay_rejected [OF sample_packet_accepted])
    (rule r_into_rtranclp, rule session_step.encrypt, rule model_sodium_ok)



text \<open>The packets a receiver accepts out of any input, whatever an attacker inserts,
  repeats or reorders, carry strictly increasing counters above the one it started from; in
  particular no packet occurs twice among them.\<close>

theorem accepted_strictly_increasing:
  "sorted_wrt (<) (map packet_counter (accepted S pkts s))
   \<and> list_all (\<lambda>pkt. recv_counter s < packet_counter pkt) (accepted S pkts s)
   \<and> distinct (accepted S pkts s)"
  using accepted_counters [of S pkts s] strict_sorted_iff [of "map packet_counter (accepted S pkts s)"]
  by (auto simp: list_all_iff distinct_map)

lemma encrypt_payload_complete:
  assumes "sodium_ok S" and "session_inv s" and "handshake_complete s"
  shows "\<exists>pkt t. encrypt_payload S rnd p s = (Inr pkt, t)"
  using assms by (auto simp: session_inv_def encrypt_payload_def encrypt_packet)

text \<open>C24: in every state a session can reach through its public methods, a completed handshake
  means that both session keys are present with the AEAD key size and that the selected
  version is one this side supports: encryption then always yields a packet, and neither
  data-transfer method can dereference a null key pointer.\<close>

theorem reachable_session_safe:
  assumes "fresh_session s" and "session_step\<^sup>*\<^sup>* s t" and "sodium_ok S"
  shows "session_inv t
     \<and> (handshake_complete t \<longrightarrow> (\<exists>pkt. fst (encrypt_payload S rnd p t) = Inr pkt))
     \<and> fst (encrypt_payload S rnd p t) \<noteq> Inl (UndefinedBehaviour msg)
     \<and> fst (decrypt_packet S pkt t) \<noteq> Inl (UndefinedBehaviour msg)"
proof -
  have inv: "session_inv t"
    using session_machine.reachable_inv [OF assms(1,2)] .
  moreover have "\<exists>pkt. fst (encrypt_payload S rnd p t) = Inr pkt" if "handshake_complete t"
    using encrypt_payload_complete [OF assms(3) inv that] by (metis fst_conv)
  moreover have "fst (encrypt_payload S rnd p t) \<noteq> Inl (UndefinedBehaviour msg)"
    using inv by (auto simp: session_inv_def encrypt_payload_def encrypt_def Let_def)
  moreover have "fst (decrypt_packet S pkt t) \<noteq> Inl (UndefinedBehaviour msg)"
    using inv by (auto simp: session_inv_def decrypt_packet_def decrypt_def payload_deserialize_def Let_def
        split: if_splits option.splits sum.splits)
  ultimately show ?thesis by blast
qed


theorem reachable_session_safe_witness:
  "session_inv (snd (client_initiate_handshake model_sodium 1 sample_client))"
proof -
  have "session_step\<^sup>*\<^sup>* sample_client (snd (client_initiate_handshake model_sodium 1 sample_client))"
    by (rule r_into_rtranclp, rule session_step.initiate, rule model_sodium_ok)
  moreover have "fresh_session sample_client"
    by (auto simp: fresh_session_def sample_client_def)
  ultimately show ?thesis
    using reachable_session_safe [OF _ _ model_sodium_ok] by blast
qed

text \<open>C21: the server authenticates the client and the client the server. A server session gains
  or changes its peer identity only to the identity key of a hello whose signature over the
  hello's own ephemeral key verifies under that key; a client session finalizes exactly when
  it had initiated, the selected version is one it offers, the signature over the server's
  ephemeral key verifies under the pinned server key, and the key exchange succeeds.\<close>

theorem handshake_authentication:
  "(peer_identity (snd (server_respond_to_handshake S rnd ch s)) \<noteq> peer_identity s \<longrightarrow>
      peer_identity (snd (server_respond_to_handshake S rnd ch s)) = Some (identity_pk ch)
      \<and> has_client_identity ch
      \<and> verify S (identity_sig ch) (pk_data (ephemeral_pk ch)) (identity_pk ch))
   \<and> (fst (client_finalize_handshake S sh c) = Inr () \<longleftrightarrow>
        role c = CLIENT
        \<and> selected_version sh \<in> set (sess_supported_versions c)
        \<and> verify S (sh_signature sh) (pk_data (sh_ephemeral_pk sh)) (publicKey (server_sign_key c))
        \<and> (\<exists>kp keys. ephemeral_kx_kp c = Some kp
             \<and> client_compute_session_keys S kp (sh_ephemeral_pk sh) = Inr keys))"
  by (auto simp: server_respond_to_handshake_def client_finalize_handshake_def Let_def list_ex_iff
      split: option.splits sum.splits if_splits)

theorem handshake_authentication_witness:
  "peer_identity (snd (server_respond_to_handshake model_sodium 2
      \<lparr>supported_versions = [V1_0], ephemeral_pk = PublicKey (replicate 32 1),
       has_client_identity = True, identity_pk = PublicKey (replicate 32 9),
       identity_sig = Signature (replicate 64 9)\<rparr> sample_server)) = Some (PublicKey (replicate 32 9))
   \<and> verify model_sodium (Signature (replicate 64 9)) (replicate 32 1) (PublicKey (replicate 32 9))"
proof -
  let ?ch = "\<lparr>supported_versions = [V1_0], ephemeral_pk = PublicKey (replicate 32 1),
       has_client_identity = True, identity_pk = PublicKey (replicate 32 9),
       identity_sig = Signature (replicate 64 9)\<rparr>"
  have "verify model_sodium (Signature (replicate 64 9)) (replicate 32 1) (PublicKey (replicate 32 9))"
    by (simp add: verify_def model_sodium_def)
  then have "peer_identity (snd (server_respond_to_handshake model_sodium 2 ?ch sample_server)) \<noteq> None"
    by (simp add: server_respond_to_handshake_def sample_server_def Session_def Let_def
        split: sum.splits)
  then show ?thesis
    using handshake_authentication [of model_sodium 2 ?ch sample_server undefined undefined]
    by (simp add: sample_server_def Session_def)
qed

text \<open>The counter is 64 bits wide and wraps: the packet a session sends after the counter
  has reached its maximum carries counter 0, and no receiver ever accepts it.\<close>

theorem exhausted_counter_rejected:
  assumes "sodium_ok S" and "linked a b" and "send_counter a = 2 ^ 64 - 1"
  shows "\<exists>pkt. encrypt_payload S rnd p a = (Inr pkt, a\<lparr>send_counter := 0\<rparr>)
     \<and> packet_counter pkt = 0 \<and> (\<exists>e. decrypt_packet S' pkt t = (Inl e, t))"
proof -
  obtain ka where k: "sess_keys a = Some ka" "length (tx ka) = 32" "handshake_complete a"
    using assms(2) by (auto simp: linked_def)
  have wrap: "send_counter a + 1 = 0"
    using assms(3) by simp
  obtain pkt where pkt: "encrypt S rnd p 0 (tx ka) = Inr pkt"
      "decrypt S pkt (tx ka) = Inr \<lparr>dec_payload = p, dec_counter = 0\<rparr>"
    using crypto_channel.sealed_opens [OF assms(1) k(2)] by blast
  have "packet_counter pkt = 0"
    using decrypt_counter [OF pkt(2)] by simp
  then show ?thesis
    using k pkt wrap decrypt_packet_stale [of pkt t S'] by (simp add: encrypt_payload_def Let_def)
qed

theorem exhausted_counter_rejected_witness:
  "\<exists>pkt. encrypt_payload model_sodium 1 sample_payload (sample_client_up\<lparr>send_counter := 2 ^ 64 - 1\<rparr>)
      = (Inr pkt, sample_client_up\<lparr>send_counter := 2 ^ 64 - 1, send_counter := 0\<rparr>)
     \<and> packet_counter pkt = 0
     \<and> (\<exists>e. decrypt_packet model_sodium pkt sample_server_up = (Inl e, sample_server_up))"
proof (rule exhausted_counter_rejected [OF model_sodium_ok])
  show "linked (sample_client_up\<lparr>send_counter := 2 ^ 64 - 1\<rparr>) sample_server_up"
    using sample_up(1) by (simp add: linked_def)
qed simp
end
