(* ===== verification/Config.thy ===== *)
theory Config
  imports Version
begin

text \<open>
  The configuration structures of \<^verbatim>\<open>config.hpp\<close> with their default member initializers, and the
  reader \<^verbatim>\<open>Config::from_yaml\<close> of \<^verbatim>\<open>config.cpp\<close>. A file is its contents, or \<open>None\<close> when it cannot be
  opened. \<^verbatim>\<open>std::stoul\<close> is modelled for the 64-bit \<^verbatim>\<open>unsigned long\<close> of LP64 platforms in the "C"
  locale, with its two exceptions.
\<close>

section \<open>Structures\<close>

record rate_limit_config =
  rl_enabled :: bool
  messages_per_second :: u32
  burst_size :: u32
  handshake_attempts_per_minute :: u32
  connections_per_minute :: u32

definition RateLimitConfig_defaults :: rate_limit_config where
  "RateLimitConfig_defaults =
     \<lparr>rl_enabled = True, messages_per_second = 100, burst_size = 200,
      handshake_attempts_per_minute = 10, connections_per_minute = 30\<rparr>"

record connection_limit_config =
  cl_enabled :: bool
  max_per_ip :: u32
  max_total :: u32

definition ConnectionLimitConfig_defaults :: connection_limit_config where
  "ConnectionLimitConfig_defaults = \<lparr>cl_enabled = True, max_per_ip = 10, max_total = 1000\<rparr>"

record message_limit_config =
  ml_enabled :: bool
  max_ws_frame_size :: u32
  max_decrypted_payload :: u32

definition MessageLimitConfig_defaults :: message_limit_config where
  "MessageLimitConfig_defaults =
     \<lparr>ml_enabled = True, max_ws_frame_size = 1048576, max_decrypted_payload = 65535\<rparr>"

record timeout_config =
  to_enabled :: bool
  handshake_ms :: u32
  idle_ms :: u32
  check_interval_ms :: u32
  request_ms :: u32

definition TimeoutConfig_defaults :: timeout_config where
  "TimeoutConfig_defaults =
     \<lparr>to_enabled = True, handshake_ms = 10000, idle_ms = 300000, check_interval_ms = 5000,
      request_ms = 30000\<rparr>"

record reserved_opcodes =
  RESPONSE :: u16
  STREAM_START :: u16
  STREAM_DATA :: u16
  STREAM_END :: u16
  STREAM_CANCEL :: u16

definition ReservedOpcodes_defaults :: reserved_opcodes where
  "ReservedOpcodes_defaults =
     \<lparr>RESPONSE = 0xFFFF, STREAM_START = 0xFFFD, STREAM_DATA = 0xFFFC, STREAM_END = 0xFFFB,
      STREAM_CANCEL = 0xFFFA\<rparr>"

record config =
  rate_limit :: rate_limit_config
  connection_limits :: connection_limit_config
  message_limits :: message_limit_config
  timeouts :: timeout_config
  opcodes :: reserved_opcodes
  cfg_supported_versions :: "version list"

text \<open>The value-initialized \<^verbatim>\<open>Config\<close>, and \<^verbatim>\<open>Config::with_defaults()\<close>.\<close>

definition Config :: config where
  "Config =
     \<lparr>rate_limit = RateLimitConfig_defaults, connection_limits = ConnectionLimitConfig_defaults,
      message_limits = MessageLimitConfig_defaults, timeouts = TimeoutConfig_defaults,
      opcodes = ReservedOpcodes_defaults, cfg_supported_versions = []\<rparr>"

definition with_defaults :: config where
  "with_defaults = Config\<lparr>cfg_supported_versions := [V1_1, V1_0]\<rparr>"

section \<open>Lines\<close>

text \<open>The lines that successive calls of \<^verbatim>\<open>std::getline\<close> deliver: a last line without a newline
  counts, nothing after a final newline does.\<close>

fun getlines_from :: "string \<Rightarrow> string \<Rightarrow> string list" where
  "getlines_from acc [] = (if acc = [] then [] else [rev acc])"
| "getlines_from acc (c # cs) =
     (if c = CHR 0x0A then rev acc # getlines_from [] cs else getlines_from (c # acc) cs)"

definition getlines :: "string \<Rightarrow> string list" where
  "getlines = getlines_from []"

abbreviation is_blank :: "char \<Rightarrow> bool" where
  "is_blank c \<equiv> c = CHR 0x20 \<or> c = CHR 0x09"

definition trim :: "string \<Rightarrow> string" where
  "trim s = (let s = dropWhile is_blank s
             in rev (dropWhile (\<lambda>c. is_blank c \<or> c = CHR 0x0D) (rev s)))"

text \<open>
  \<^verbatim>\<open>parse_yaml_line\<close> with its reference parameters: whether a key was set, then the section, the
  key and the value as it leaves them. The code computes the indentation of a section header
  and then assigns the same section name in both cases.
\<close>

definition parse_yaml_line ::
  "string \<Rightarrow> string \<Rightarrow> string \<Rightarrow> string \<Rightarrow> bool \<times> string \<times> string \<times> string" where
  "parse_yaml_line line section key val =
     (let content = trim (takeWhile (\<lambda>c. c \<noteq> CHR ''#'') line) in
      if content = [] then (False, section, key, val)
      else if \<not> list_ex (\<lambda>c. c = CHR '':'') content then (False, section, key, val)
      else let before = trim (takeWhile (\<lambda>c. c \<noteq> CHR '':'') content);
               after = trim (tl (dropWhile (\<lambda>c. c \<noteq> CHR '':'') content)) in
      if after = []
      then let indent = length (takeWhile is_blank line);
               section = (if indent = 0 then before else before)
           in (False, section, [], [])
      else (True, section, before, after))"

section \<open>Numbers\<close>

text \<open>\<^verbatim>\<open>isspace\<close> and the value of a digit in the "C" locale.\<close>

definition is_space :: "char \<Rightarrow> bool" where
  "is_space c \<longleftrightarrow> c = CHR 0x20 \<or> (9 \<le> (of_char c :: nat) \<and> (of_char c :: nat) \<le> 13)"

definition digit_val :: "nat \<Rightarrow> char \<Rightarrow> nat option" where
  "digit_val base c =
     (let n = of_char c :: nat;
          d = (if 48 \<le> n \<and> n \<le> 57 then Some (n - 48)
               else if 65 \<le> n \<and> n \<le> 90 then Some (n - 55)
               else if 97 \<le> n \<and> n \<le> 122 then Some (n - 87) else None)
      in case d of Some v \<Rightarrow> if v < base then Some v else None | None \<Rightarrow> None)"

fun digits_val :: "nat \<Rightarrow> nat \<Rightarrow> string \<Rightarrow> nat" where
  "digits_val base acc [] = acc"
| "digits_val base acc (c # cs) =
     (case digit_val base c of
        Some v \<Rightarrow> digits_val base (acc * base + v) cs
      | None \<Rightarrow> acc)"

definition is_digit :: "nat \<Rightarrow> string \<Rightarrow> bool" where
  "is_digit base cs \<longleftrightarrow> cs \<noteq> [] \<and> digit_val base (hd cs) \<noteq> None"

text \<open>The prefix \<^verbatim>\<open>0x\<close> is skipped in base 16 when a digit follows it.\<close>

definition skip_0x :: "nat \<Rightarrow> string \<Rightarrow> string" where
  "skip_0x base cs =
     (if base = 16 \<and> 2 \<le> length cs \<and> cs ! 0 = CHR ''0'' \<and> (cs ! 1 = CHR ''x'' \<or> cs ! 1 = CHR ''X'')
         \<and> is_digit base (drop 2 cs)
      then drop 2 cs else cs)"

definition stoul :: "nat \<Rightarrow> string \<Rightarrow> u64 result" where
  "stoul base s =
     (let cs = dropWhile is_space s;
          neg = (cs \<noteq> [] \<and> hd cs = CHR ''-'');
          cs = (if cs \<noteq> [] \<and> (hd cs = CHR ''-'' \<or> hd cs = CHR ''+'') then tl cs else cs);
          cs = skip_0x base cs in
      if \<not> is_digit base cs then Inl (StdException ''std::invalid_argument: stoul'')
      else let n = digits_val base 0 cs in
      if n > 2 ^ 64 - 1 then Inl (StdException ''std::out_of_range: stoul'')
      else Inr (if neg then - of_nat n else of_nat n))"

definition parse_uint32 :: "string \<Rightarrow> u32 result" where
  "parse_uint32 s =
     (if s = [] then Inr 0
      else if length s > 2 \<and> s ! 0 = CHR ''0'' \<and> (s ! 1 = CHR ''x'' \<or> s ! 1 = CHR ''X'')
      then map_sum id ucast (stoul 16 s)
      else map_sum id ucast (stoul 10 s))"

text \<open>The loop over \<^verbatim>\<open>supported_versions\<close>, on the part of the value from \<^verbatim>\<open>pos\<close> on.\<close>

definition is_number_char :: "char \<Rightarrow> bool" where
  "is_number_char c \<longleftrightarrow> c \<in> set ''0123456789xXabcdefABCDEF''"

function parse_versions :: "string \<Rightarrow> version list result" where
  "parse_versions val =
     (let start = dropWhile (\<lambda>c. \<not> is_number_char c) val in
      if start = [] then Inr []
      else let num_str = takeWhile is_number_char start in
      case stoul 16 num_str of
        Inl e \<Rightarrow> Inl e
      | Inr v \<Rightarrow>
          (case parse_versions (dropWhile is_number_char start) of
             Inl e \<Rightarrow> Inl e
           | Inr vs \<Rightarrow> Inr (ucast v # vs)))"
  by pat_completeness auto
termination
proof (relation "measure length", simp)
  fix val :: string and x xa :: string and xb :: u64
  assume x: "x = dropWhile (\<lambda>c. \<not> is_number_char c) val" and ne: "x \<noteq> []"
  then have "is_number_char (hd x)"
    using hd_dropWhile [of "\<lambda>c. \<not> is_number_char c" val] by simp
  then have "length (dropWhile is_number_char x) < length x"
    using ne by (cases x) (auto simp: le_imp_less_Suc length_dropWhile_le)
  also have "\<dots> \<le> length val"
    by (simp add: x length_dropWhile_le)
  finally show "(dropWhile is_number_char x, val) \<in> measure length" by simp
qed

declare parse_versions.simps [simp del]

section \<open>Settings\<close>

definition set_u32 :: "(u32 \<Rightarrow> config \<Rightarrow> config) \<Rightarrow> string \<Rightarrow> config \<Rightarrow> config result" where
  "set_u32 f val cfg = (case parse_uint32 val of Inl e \<Rightarrow> Inl e | Inr n \<Rightarrow> Inr (f n cfg))"

definition set_u16 :: "(u16 \<Rightarrow> config \<Rightarrow> config) \<Rightarrow> string \<Rightarrow> config \<Rightarrow> config result" where
  "set_u16 f val cfg = (case parse_uint32 val of Inl e \<Rightarrow> Inl e | Inr n \<Rightarrow> Inr (f (ucast n) cfg))"

definition apply_enabled :: "string \<Rightarrow> string \<Rightarrow> config \<Rightarrow> config" where
  "apply_enabled section val cfg =
     (let v = (val = ''true'' \<or> val = ''yes'' \<or> val = ''1'') in
      if section = ''rate_limiting'' then cfg\<lparr>rate_limit := (rate_limit cfg)\<lparr>rl_enabled := v\<rparr>\<rparr>
      else if section = ''connection_limits''
      then cfg\<lparr>connection_limits := (connection_limits cfg)\<lparr>cl_enabled := v\<rparr>\<rparr>
      else if section = ''message_limits''
      then cfg\<lparr>message_limits := (message_limits cfg)\<lparr>ml_enabled := v\<rparr>\<rparr>
      else if section = ''timeouts'' then cfg\<lparr>timeouts := (timeouts cfg)\<lparr>to_enabled := v\<rparr>\<rparr>
      else cfg)"

definition apply_setting :: "string \<Rightarrow> string \<Rightarrow> string \<Rightarrow> config \<Rightarrow> config result" where
  "apply_setting section key val cfg =
    (if key = ''enabled'' then Inr (apply_enabled section val cfg)
     else if key = ''messages_per_second'' then set_u32 (\<lambda>n. rate_limit_update (messages_per_second_update (\<lambda>_. n))) val cfg
     else if key = ''burst_size'' then set_u32 (\<lambda>n. rate_limit_update (burst_size_update (\<lambda>_. n))) val cfg
     else if key = ''handshake_attempts_per_minute''
     then set_u32 (\<lambda>n. rate_limit_update (handshake_attempts_per_minute_update (\<lambda>_. n))) val cfg
     else if key = ''connections_per_minute''
     then set_u32 (\<lambda>n. rate_limit_update (connections_per_minute_update (\<lambda>_. n))) val cfg
     else if key = ''max_per_ip'' then set_u32 (\<lambda>n. connection_limits_update (max_per_ip_update (\<lambda>_. n))) val cfg
     else if key = ''max_total'' then set_u32 (\<lambda>n. connection_limits_update (max_total_update (\<lambda>_. n))) val cfg
     else if key = ''max_ws_frame_size''
     then set_u32 (\<lambda>n. message_limits_update (max_ws_frame_size_update (\<lambda>_. n))) val cfg
     else if key = ''max_decrypted_payload''
     then set_u32 (\<lambda>n. message_limits_update (max_decrypted_payload_update (\<lambda>_. n))) val cfg
     else if key = ''handshake_ms'' then set_u32 (\<lambda>n. timeouts_update (handshake_ms_update (\<lambda>_. n))) val cfg
     else if key = ''idle_ms'' then set_u32 (\<lambda>n. timeouts_update (idle_ms_update (\<lambda>_. n))) val cfg
     else if key = ''check_interval_ms''
     then set_u32 (\<lambda>n. timeouts_update (check_interval_ms_update (\<lambda>_. n))) val cfg
     else if key = ''request_ms'' then set_u32 (\<lambda>n. timeouts_update (request_ms_update (\<lambda>_. n))) val cfg
     else if key = ''RESPONSE'' then set_u16 (\<lambda>n. opcodes_update (RESPONSE_update (\<lambda>_. n))) val cfg
     else if key = ''STREAM_START'' then set_u16 (\<lambda>n. opcodes_update (STREAM_START_update (\<lambda>_. n))) val cfg
     else if key = ''STREAM_DATA'' then set_u16 (\<lambda>n. opcodes_update (STREAM_DATA_update (\<lambda>_. n))) val cfg
     else if key = ''STREAM_END'' then set_u16 (\<lambda>n. opcodes_update (STREAM_END_update (\<lambda>_. n))) val cfg
     else if key = ''STREAM_CANCEL'' then set_u16 (\<lambda>n. opcodes_update (STREAM_CANCEL_update (\<lambda>_. n))) val cfg
     else if key = ''supported_versions''
     then (case parse_versions val of
             Inl e \<Rightarrow> Inl e
           | Inr versions \<Rightarrow>
               Inr (if versions \<noteq> [] then cfg\<lparr>cfg_supported_versions := versions\<rparr> else cfg))
     else Inr cfg)"

text \<open>The loop over the lines: the configuration, the current section, the line number and the
  lines a warning was printed for. A standard exception is caught; any other would leave the
  function.\<close>

fun from_lines :: "string list \<Rightarrow> nat \<Rightarrow> string \<Rightarrow> config \<Rightarrow> (config \<times> nat list) result" where
  "from_lines [] line_num section cfg = Inr (cfg, [])"
| "from_lines (line # rest) line_num section cfg =
     (let line_num = line_num + 1 in
      case parse_yaml_line line section [] [] of
        (False, section, key, val) \<Rightarrow> from_lines rest line_num section cfg
      | (True, section, key, val) \<Rightarrow>
          (case apply_setting section key val cfg of
             Inr cfg \<Rightarrow> from_lines rest line_num section cfg
           | Inl e \<Rightarrow>
               if is_std_exception e
               then map_sum id (map_prod id ((#) line_num)) (from_lines rest line_num section cfg)
               else Inl e))"

definition from_yaml :: "string option \<Rightarrow> (config \<times> nat list) result" where
  "from_yaml file =
     (case file of
        None \<Rightarrow> Inr (Config, [])
      | Some contents \<Rightarrow> from_lines (getlines contents) 0 [] Config)"

section \<open>Numbers in text\<close>

text \<open>The numeral of a number in a base, as a person writes it into the file.\<close>

definition digit_char :: "nat \<Rightarrow> char" where
  "digit_char d = char_of (if d < 10 then 48 + d else 87 + d)"

fun numeral_text :: "nat \<Rightarrow> nat \<Rightarrow> string" where
  "numeral_text base n =
     (if n < base \<or> base < 2 then [digit_char n]
      else numeral_text base (n div base) @ [digit_char (n mod base)])"

declare numeral_text.simps [simp del]

lemma of_char_digit_char: "d < 36 \<Longrightarrow> (of_char (digit_char d) :: nat) = (if d < 10 then 48 + d else 87 + d)"
  by (simp add: digit_char_def)

lemma digit_val_digit_char: "d < base \<Longrightarrow> base \<le> 36 \<Longrightarrow> digit_val base (digit_char d) = Some d"
  by (simp add: digit_val_def of_char_digit_char Let_def)

lemma numeral_not_Nil [simp]: "numeral_text base n \<noteq> []"
  by (subst numeral_text.simps) simp

lemma set_numeral: "2 \<le> base \<Longrightarrow> set (numeral_text base n) \<subseteq> digit_char ` {..<base}"
proof (induction base n rule: numeral_text.induct)
  case (1 base n)
  then show ?case
    by (subst numeral_text.simps) auto
qed

lemma digits_val_append:
  "\<forall>c \<in> set xs. digit_val base c \<noteq> None \<Longrightarrow>
     digits_val base acc (xs @ ys) = digits_val base (digits_val base acc xs) ys"
  by (induction xs arbitrary: acc) auto

lemma numeral_digits:
  "2 \<le> base \<Longrightarrow> base \<le> 36 \<Longrightarrow> c \<in> set (numeral_text base n) \<Longrightarrow> digit_val base c \<noteq> None"
  using set_numeral [of base n] by (force simp: digit_val_digit_char)

lemma digits_val_numeral:
  assumes "2 \<le> base" and "base \<le> 36"
  shows "digits_val base 0 (numeral_text base n) = n"
  using assms
proof (induction base n rule: numeral_text.induct)
  case (1 base n)
  show ?case
  proof (cases "n < base")
    case True
    with 1 show ?thesis by (subst numeral_text.simps) (simp add: digit_val_digit_char)
  next
    case False
    with 1 have "digits_val base 0 (numeral_text base (n div base)) = n div base" by simp
    with False 1 show ?thesis
      by (subst numeral_text.simps)
        (simp add: digits_val_append numeral_digits digit_val_digit_char div_mult_mod_eq)
  qed
qed

lemma digits_val_stop: "digit_val base c = None \<Longrightarrow> digits_val base acc (c # cs) = acc"
  by simp

text \<open>Characters of numerals are letters or digits, so no other parsing rule applies to them.\<close>

definition alnum :: "char \<Rightarrow> bool" where
  "alnum c \<longleftrightarrow> (let n = of_char c :: nat in
     (48 \<le> n \<and> n \<le> 57) \<or> (65 \<le> n \<and> n \<le> 90) \<or> n = 95 \<or> (97 \<le> n \<and> n \<le> 122))"

lemma digit_val_alnum: "digit_val base c \<noteq> None \<Longrightarrow> alnum c"
  by (auto simp: digit_val_def alnum_def Let_def split: if_splits)

lemma numeral_alnum: "2 \<le> base \<Longrightarrow> base \<le> 36 \<Longrightarrow> c \<in> set (numeral_text base n) \<Longrightarrow> alnum c"
  by (rule digit_val_alnum) (rule numeral_digits)

lemma alnum_not:
  "alnum c \<Longrightarrow> \<not> is_space c \<and> c \<noteq> CHR ''-'' \<and> c \<noteq> CHR ''+'' \<and> \<not> is_blank c \<and> c \<noteq> CHR ''#''
     \<and> c \<noteq> CHR '':'' \<and> c \<noteq> CHR 0x0A \<and> c \<noteq> CHR 0x0D"
  by (auto simp: alnum_def is_space_def Let_def)

lemma numeral_Cons:
  obtains c cs where "numeral_text base n = c # cs"
  by (cases "numeral_text base n") auto

lemma hd_numeral: "2 \<le> base \<Longrightarrow> base \<le> 36 \<Longrightarrow> digit_val base (hd (numeral_text base n)) \<noteq> None"
  by (rule numeral_digits [where n = n]) auto

lemma digit_val_x: "base \<le> 33 \<Longrightarrow> digit_val base (CHR ''x'') = None" "base \<le> 33 \<Longrightarrow> digit_val base (CHR ''X'') = None"
  by (simp_all add: digit_val_def)

lemma nth_numeral_not_x:
  assumes "2 \<le> base" and "base \<le> 16" and "i < length (numeral_text base n)"
  shows "numeral_text base n ! i \<noteq> CHR ''x'' \<and> numeral_text base n ! i \<noteq> CHR ''X''"
  using numeral_digits [of base "numeral_text base n ! i" n] assms digit_val_x [of base] by auto

lemma stoul_digits:
  assumes base: "2 \<le> base" "base \<le> 16" and cs: "cs = numeral_text base n @ rest"
    and stop: "rest = [] \<or> digit_val base (hd rest) = None"
    and no_x: "base = 16 \<longrightarrow> rest = []"
  shows "stoul base cs = (if n < 2 ^ 64 then Inr (of_nat n) else Inl (StdException ''std::out_of_range: stoul''))"
proof -
  have hd: "alnum (hd cs)" "is_digit base cs" "cs \<noteq> []"
    using base hd_numeral [of base n] by (simp_all add: cs is_digit_def digit_val_alnum)
  then have id: "dropWhile is_space cs = cs"
    by (cases cs) (auto dest: alnum_not)
  have "skip_0x base cs = cs"
    using no_x nth_numeral_not_x [OF base, of 1 n] by (auto simp: skip_0x_def cs)
  moreover have "digits_val base 0 cs = n"
    using base stop by (cases rest)
      (auto simp: cs digits_val_append numeral_digits digits_val_numeral)
  ultimately show ?thesis
    using hd alnum_not [OF hd(1)] by (simp add: stoul_def id Let_def)
qed

lemma stoul_0x:
  "stoul 16 (''0x'' @ numeral_text 16 n)
     = (if n < 2 ^ 64 then Inr (of_nat n) else Inl (StdException ''std::out_of_range: stoul''))"
proof -
  have "is_digit 16 (numeral_text 16 n)"
    using hd_numeral [of 16 n] by (simp add: is_digit_def)
  moreover have "\<not> is_space (CHR ''0'')" by (simp add: is_space_def)
  ultimately show ?thesis
    by (simp add: stoul_def skip_0x_def Let_def digits_val_numeral)
qed

lemma ucast_of_nat_u64 [simp]: "LENGTH('a::len) \<le> 64 \<Longrightarrow> (ucast (of_nat n :: u64) :: 'a word) = of_nat n"
  by (simp add: unsigned_of_nat word_of_nat_eq_iff)

lemma parse_uint32_decimal:
  "parse_uint32 (numeral_text 10 n)
     = (if n < 2 ^ 64 then Inr (of_nat n) else Inl (StdException ''std::out_of_range: stoul''))"
  using nth_numeral_not_x [of 10 1 n] stoul_digits [of 10 "numeral_text 10 n" n "[]"]
  by (auto simp: parse_uint32_def)

lemma parse_uint32_hex:
  "parse_uint32 (''0x'' @ numeral_text 16 n)
     = (if n < 2 ^ 64 then Inr (of_nat n) else Inl (StdException ''std::out_of_range: stoul''))"
  using stoul_0x [of n] by (simp add: parse_uint32_def)

section \<open>The file format\<close>

text \<open>A configuration written out in the layout of \<^verbatim>\<open>config_example.yml\<close>.\<close>

definition setting_line :: "string \<Rightarrow> string \<Rightarrow> string" where
  "setting_line key val = ''    '' @ key @ '': '' @ val"

definition section_line :: "string \<Rightarrow> string" where
  "section_line name = ''  '' @ name @ '':''"

abbreviation dec :: "u32 \<Rightarrow> string" where
  "dec n \<equiv> numeral_text 10 (unat n)"

abbreviation hex :: "u16 \<Rightarrow> string" where
  "hex n \<equiv> ''0x'' @ numeral_text 16 (unat n)"

abbreviation truth :: "bool \<Rightarrow> string" where
  "truth b \<equiv> if b then ''true'' else ''false''"

fun versions_text :: "version list \<Rightarrow> string" where
  "versions_text [] = ''[]''"
| "versions_text (v # vs) = ''['' @ hex v @ concat (map (\<lambda>w. '', '' @ hex w) vs) @ '']''"

definition config_lines :: "config \<Rightarrow> string list" where
  "config_lines cfg =
     [''server:'', section_line ''rate_limiting'',
      setting_line ''enabled'' (truth (rl_enabled (rate_limit cfg))),
      setting_line ''messages_per_second'' (dec (messages_per_second (rate_limit cfg))),
      setting_line ''burst_size'' (dec (burst_size (rate_limit cfg))),
      setting_line ''handshake_attempts_per_minute'' (dec (handshake_attempts_per_minute (rate_limit cfg))),
      setting_line ''connections_per_minute'' (dec (connections_per_minute (rate_limit cfg))),
      section_line ''connection_limits'',
      setting_line ''enabled'' (truth (cl_enabled (connection_limits cfg))),
      setting_line ''max_per_ip'' (dec (max_per_ip (connection_limits cfg))),
      setting_line ''max_total'' (dec (max_total (connection_limits cfg))),
      section_line ''message_limits'',
      setting_line ''enabled'' (truth (ml_enabled (message_limits cfg))),
      setting_line ''max_ws_frame_size'' (dec (max_ws_frame_size (message_limits cfg))),
      setting_line ''max_decrypted_payload'' (dec (max_decrypted_payload (message_limits cfg))),
      section_line ''timeouts'',
      setting_line ''enabled'' (truth (to_enabled (timeouts cfg))),
      setting_line ''handshake_ms'' (dec (handshake_ms (timeouts cfg))),
      setting_line ''idle_ms'' (dec (idle_ms (timeouts cfg))),
      setting_line ''check_interval_ms'' (dec (check_interval_ms (timeouts cfg))),
      setting_line ''request_ms'' (dec (request_ms (timeouts cfg))),
      setting_line ''supported_versions'' (versions_text (cfg_supported_versions cfg)),
      ''opcodes:'',
      setting_line ''RESPONSE'' (hex (RESPONSE (opcodes cfg))),
      setting_line ''STREAM_START'' (hex (STREAM_START (opcodes cfg))),
      setting_line ''STREAM_DATA'' (hex (STREAM_DATA (opcodes cfg))),
      setting_line ''STREAM_END'' (hex (STREAM_END (opcodes cfg))),
      setting_line ''STREAM_CANCEL'' (hex (STREAM_CANCEL (opcodes cfg)))]"

definition config_text :: "config \<Rightarrow> string" where
  "config_text cfg = concat (map (\<lambda>l. l @ [CHR 0x0A]) (config_lines cfg))"

lemma getlines_from_line:
  "CHR 0x0A \<notin> set l \<Longrightarrow> getlines_from acc (l @ CHR 0x0A # cs) = (rev acc @ l) # getlines_from [] cs"
  by (induction l arbitrary: acc) auto

lemma getlines_lines:
  "list_all (\<lambda>l. CHR 0x0A \<notin> set l) ls \<Longrightarrow> getlines (concat (map (\<lambda>l. l @ [CHR 0x0A]) ls)) = ls"
  by (induction ls) (auto simp: getlines_def getlines_from_line)

text \<open>Values and names the line parser leaves alone.\<close>

definition plain :: "string \<Rightarrow> bool" where
  "plain s \<longleftrightarrow> s \<noteq> [] \<and> \<not> is_blank (hd s) \<and> \<not> is_blank (last s) \<and> last s \<noteq> CHR 0x0D
     \<and> list_all (\<lambda>c. c \<noteq> CHR ''#'' \<and> c \<noteq> CHR 0x0A) s"

definition plain_key :: "string \<Rightarrow> bool" where
  "plain_key s \<longleftrightarrow> s \<noteq> [] \<and> list_all alnum s"

lemma plain_keyD: "plain_key s \<Longrightarrow> plain s \<and> list_all (\<lambda>c. c \<noteq> CHR '':'') s"
proof -
  assume key: "plain_key s"
  then have "alnum (hd s)" "alnum (last s)" and all: "\<And>c. c \<in> set s \<Longrightarrow> alnum c"
    by (simp_all add: plain_key_def list_all_iff)
  then show ?thesis
    using key alnum_not [of "hd s"] alnum_not [of "last s"] alnum_not [OF all]
    by (simp add: plain_def plain_key_def list_all_iff)
qed

lemma trim_blank [simp]: "trim (CHR 0x20 # s) = trim s"
  by (simp add: trim_def)

lemma trim_plain: "s \<noteq> [] \<Longrightarrow> \<not> is_blank (hd s) \<Longrightarrow> \<not> is_blank (last s) \<Longrightarrow> last s \<noteq> CHR 0x0D \<Longrightarrow> trim s = s"
  by (simp add: trim_def dropWhile_eq_self_iff [THEN iffD2] hd_rev)

lemma takeWhile_colon:
  "list_all (\<lambda>c. c \<noteq> CHR '':'') s \<Longrightarrow> takeWhile (\<lambda>c. c \<noteq> CHR '':'') (s @ CHR '':'' # r) = s"
  "list_all (\<lambda>c. c \<noteq> CHR '':'') s \<Longrightarrow> dropWhile (\<lambda>c. c \<noteq> CHR '':'') (s @ CHR '':'' # r) = CHR '':'' # r"
  by (induction s) auto

lemma parse_setting_line:
  assumes "plain_key key" and "plain val"
  shows "parse_yaml_line (setting_line key val) section k v = (True, section, key, val)"
proof -
  note key = plain_keyD [OF assms(1)]
  have no_comment: "takeWhile (\<lambda>c. c \<noteq> CHR ''#'') (setting_line key val) = setting_line key val"
    using key assms(2) by (auto simp: takeWhile_eq_all_conv setting_line_def plain_def list_all_iff)
  have content: "trim (setting_line key val) = key @ '': '' @ val"
    using key assms(2) by (simp add: setting_line_def trim_plain plain_def)
  show ?thesis
    using key assms(2)
    by (simp add: parse_yaml_line_def no_comment content takeWhile_colon trim_plain plain_def Let_def)
qed

lemma parse_section:
  assumes "plain_key name" and "takeWhile is_blank indent = indent" and "trim (indent @ name @ '':'') = name @ '':''"
    and "list_all (\<lambda>c. c \<noteq> CHR ''#'') indent"
  shows "parse_yaml_line (indent @ name @ '':'') section k v = (False, name, [], [])"
proof -
  note key = plain_keyD [OF assms(1)]
  have no_comment: "takeWhile (\<lambda>c. c \<noteq> CHR ''#'') (indent @ name @ '':'') = indent @ name @ '':''"
    unfolding takeWhile_eq_all_conv using key assms(4) by (simp add: plain_def list_all_iff ball_Un)
  have "trim [] = []" by (simp add: trim_def)
  with key show ?thesis unfolding parse_yaml_line_def no_comment assms(3)
    by (simp add: takeWhile_colon trim_plain plain_def Let_def)
qed

lemma trim_section: "plain_key name \<Longrightarrow> trim (name @ '':'') = name @ '':''"
  using plain_keyD [of name] by (simp add: trim_plain plain_def)

lemma parse_section_line:
  "plain_key name \<Longrightarrow> parse_yaml_line (section_line name) section k v = (False, name, [], [])"
  unfolding section_line_def by (rule parse_section) (simp_all add: trim_section)

lemma parse_top_section:
  "plain_key name \<Longrightarrow> parse_yaml_line (name @ '':'') section k v = (False, name, [], [])"
  using parse_section [of name "[]"] by (simp add: trim_section)

lemma plain_key_plain: "plain_key s \<Longrightarrow> plain s"
  by (simp add: plain_keyD)

lemma plain_dec: "plain (numeral_text 10 n)"
  using numeral_alnum [of 10 _ n] by (intro plain_key_plain) (simp add: plain_key_def list_all_iff)

lemma plain_hex: "plain (CHR ''0'' # CHR ''x'' # numeral_text 16 n)"
proof (rule plain_key_plain)
  have "alnum (CHR ''0'')" "alnum (CHR ''x'')" by (simp_all add: alnum_def)
  then show "plain_key (CHR ''0'' # CHR ''x'' # numeral_text 16 n)"
    using numeral_alnum [of 16 _ n] by (simp add: plain_key_def list_all_iff)
qed

lemma numeral_number_chars: "c \<in> set (numeral_text 16 n) \<Longrightarrow> is_number_char c"
proof -
  have "list_all (\<lambda>d. is_number_char (digit_char d)) [0..<16]"
    by code_simp
  then have "d < 16 \<Longrightarrow> is_number_char (digit_char d)" for d
    by (simp add: list_all_iff)
  then show "c \<in> set (numeral_text 16 n) \<Longrightarrow> is_number_char c"
    using set_numeral [of 16 n] by auto
qed

lemma span_numeral:
  assumes "rest = [] \<or> \<not> is_number_char (hd rest)"
  shows "takeWhile is_number_char (CHR ''0'' # CHR ''x'' # numeral_text 16 n @ rest) = ''0x'' @ numeral_text 16 n"
    and "dropWhile is_number_char (CHR ''0'' # CHR ''x'' # numeral_text 16 n @ rest) = rest"
proof -
  have x: "is_number_char (CHR ''0'')" "is_number_char (CHR ''x'')" by (simp_all add: is_number_char_def)
  then show "takeWhile is_number_char (CHR ''0'' # CHR ''x'' # numeral_text 16 n @ rest) = ''0x'' @ numeral_text 16 n"
    using assms by (cases rest) (simp_all add: takeWhile_append2 numeral_number_chars)
  show "dropWhile is_number_char (CHR ''0'' # CHR ''x'' # numeral_text 16 n @ rest) = rest"
    using x assms by (cases rest) (simp_all add: dropWhile_append2 numeral_number_chars)
qed

lemma ucast_ucast_up [simp]:
  "LENGTH('a) \<le> LENGTH('b) \<Longrightarrow> (ucast (ucast (v :: 'a::len word) :: 'b::len word) :: 'a word) = v"
  by (rule bit_word_eqI) (simp add: bit_ucast_iff)

lemma unat_u16_less: "unat (v :: u16) < 18446744073709551616"
  using unsigned_less [where 'a = nat, of v] by simp

lemma parse_versions_step:
  assumes "list_all (\<lambda>c. \<not> is_number_char c) pre" and "rest = [] \<or> \<not> is_number_char (hd rest)"
    and "parse_versions rest = Inr vs"
  shows "parse_versions (pre @ hex v @ rest) = Inr (v # vs)"
proof -
  have start: "dropWhile (\<lambda>c. \<not> is_number_char c) (pre @ hex v @ rest)
      = CHR ''0'' # CHR ''x'' # numeral_text 16 (unat v) @ rest"
    using assms(1) by (induction pre) (simp_all add: is_number_char_def)
  have num: "stoul 16 (''0x'' @ numeral_text 16 (unat v)) = Inr (of_nat (unat v))"
    unfolding stoul_0x using unat_u16_less [of v] by simp
  show ?thesis
    unfolding parse_versions.simps [of "pre @ hex v @ rest"] start
    using assms(2,3) num by (simp only: span_numeral Let_def if_False list.distinct sum.case) simp
qed

lemma parse_versions_text: "parse_versions (versions_text vs) = Inr vs"
proof -
  let ?tail = "\<lambda>vs. concat (map (\<lambda>w. '', '' @ hex w) vs) @ '']''"
  have nn: "\<not> is_number_char (CHR '','')" "\<not> is_number_char (CHR '' '')"
    "\<not> is_number_char (CHR ''['')" "\<not> is_number_char (CHR '']'')"
    by (simp_all add: is_number_char_def)
  have hd_tail: "\<not> is_number_char (hd (?tail vs))" for vs
    using nn by (cases vs) simp_all
  have tail: "parse_versions (?tail vs) = Inr vs" for vs
  proof (induction vs)
    case Nil
    then show ?case using nn by (simp add: parse_versions.simps [of "'']''"])
  next
    case (Cons v vs)
    have "parse_versions ('', '' @ hex v @ ?tail vs) = Inr (v # vs)"
      using nn hd_tail [of vs] Cons.IH by (intro parse_versions_step) simp_all
    then show ?case by simp
  qed
  show ?thesis
  proof (cases vs)
    case Nil
    then show ?thesis using nn by (simp add: parse_versions.simps [of "''[]''"])
  next
    case (Cons v ws)
    have "parse_versions (''['' @ hex v @ ?tail ws) = Inr (v # ws)"
      using nn hd_tail [of ws] tail [of ws] by (intro parse_versions_step) simp_all
    then show ?thesis using Cons by simp
  qed
qed

lemma plain_versions_text: "plain (versions_text vs)"
proof -
  have x: "c \<noteq> CHR ''#'' \<and> c \<noteq> CHR 0x0A" if "c \<in> set (numeral_text 16 n)" for c n
    using alnum_not [of c] numeral_alnum [of 16 c n] that by simp
  show ?thesis
    by (cases vs) (auto simp: plain_def list_all_iff dest: x)
qed

lemma set_u32_dec [simp]: "set_u32 f (dec n) cfg = Inr (f n cfg)"
proof -
  have "unat n < 18446744073709551616"
    using unsigned_less [where 'a = nat, of n] by simp
  then show ?thesis by (simp add: set_u32_def parse_uint32_decimal)
qed

lemma set_u16_hex [simp]: "set_u16 f (CHR ''0'' # CHR ''x'' # numeral_text 16 (unat n)) cfg = Inr (f n cfg)"
  using parse_uint32_hex [of "unat n"] unat_u16_less [of n] by (simp add: set_u16_def unsigned_of_nat take_bit_nat_eq_self)

lemma no_newline:
  "list_all (\<lambda>l. CHR 0x0A \<notin> set l) (config_lines cfg)"
proof -
  have n: "CHR 0x0A \<notin> set (numeral_text b n)" if "2 \<le> b" "b \<le> 36" for b n
    using alnum_not [of "CHR 0x0A"] numeral_alnum [OF that, of "CHR 0x0A" n] by blast
  have v: "CHR 0x0A \<notin> set (versions_text vs)" for vs
    using plain_versions_text [of vs] by (auto simp: plain_def list_all_iff)
  show ?thesis
    by (simp add: config_lines_def setting_line_def section_line_def n v)
qed

lemma plain_keys:
  "plain_key ''server''" "plain_key ''rate_limiting''" "plain_key ''connection_limits''"
  "plain_key ''message_limits''" "plain_key ''timeouts''" "plain_key ''opcodes''" "plain_key ''enabled''"
  "plain_key ''messages_per_second''" "plain_key ''burst_size''" "plain_key ''handshake_attempts_per_minute''"
  "plain_key ''connections_per_minute''" "plain_key ''max_per_ip''" "plain_key ''max_total''"
  "plain_key ''max_ws_frame_size''" "plain_key ''max_decrypted_payload''" "plain_key ''handshake_ms''"
  "plain_key ''idle_ms''" "plain_key ''check_interval_ms''" "plain_key ''request_ms''"
  "plain_key ''supported_versions''" "plain_key ''RESPONSE''" "plain_key ''STREAM_START''"
  "plain_key ''STREAM_DATA''" "plain_key ''STREAM_END''" "plain_key ''STREAM_CANCEL''"
  by code_simp+

lemma plain_truth: "plain (truth b)"
  by (simp add: plain_def)

lemma from_lines_section:
  "parse_yaml_line l sec [] [] = (False, sec', [], []) \<Longrightarrow>
     from_lines (l # rest) n sec cfg = from_lines rest (Suc n) sec' cfg"
  by simp

lemma from_lines_setting:
  "plain_key key \<Longrightarrow> plain val \<Longrightarrow> apply_setting sec key val cfg = Inr cfg' \<Longrightarrow>
     from_lines (setting_line key val # rest) n sec cfg = from_lines rest (Suc n) sec cfg'"
  by (simp add: parse_setting_line)

lemma apply_settings:
  "apply_setting sec ''messages_per_second'' (dec n) cfg = Inr (rate_limit_update (messages_per_second_update (\<lambda>_. n)) cfg)"
  "apply_setting sec ''burst_size'' (dec n) cfg = Inr (rate_limit_update (burst_size_update (\<lambda>_. n)) cfg)"
  "apply_setting sec ''handshake_attempts_per_minute'' (dec n) cfg = Inr (rate_limit_update (handshake_attempts_per_minute_update (\<lambda>_. n)) cfg)"
  "apply_setting sec ''connections_per_minute'' (dec n) cfg = Inr (rate_limit_update (connections_per_minute_update (\<lambda>_. n)) cfg)"
  "apply_setting sec ''max_per_ip'' (dec n) cfg = Inr (connection_limits_update (max_per_ip_update (\<lambda>_. n)) cfg)"
  "apply_setting sec ''max_total'' (dec n) cfg = Inr (connection_limits_update (max_total_update (\<lambda>_. n)) cfg)"
  "apply_setting sec ''max_ws_frame_size'' (dec n) cfg = Inr (message_limits_update (max_ws_frame_size_update (\<lambda>_. n)) cfg)"
  "apply_setting sec ''max_decrypted_payload'' (dec n) cfg = Inr (message_limits_update (max_decrypted_payload_update (\<lambda>_. n)) cfg)"
  "apply_setting sec ''handshake_ms'' (dec n) cfg = Inr (timeouts_update (handshake_ms_update (\<lambda>_. n)) cfg)"
  "apply_setting sec ''idle_ms'' (dec n) cfg = Inr (timeouts_update (idle_ms_update (\<lambda>_. n)) cfg)"
  "apply_setting sec ''check_interval_ms'' (dec n) cfg = Inr (timeouts_update (check_interval_ms_update (\<lambda>_. n)) cfg)"
  "apply_setting sec ''request_ms'' (dec n) cfg = Inr (timeouts_update (request_ms_update (\<lambda>_. n)) cfg)"
  "apply_setting sec ''RESPONSE'' (CHR ''0'' # CHR ''x'' # numeral_text 16 (unat m)) cfg = Inr (opcodes_update (RESPONSE_update (\<lambda>_. m)) cfg)"
  "apply_setting sec ''STREAM_START'' (CHR ''0'' # CHR ''x'' # numeral_text 16 (unat m)) cfg = Inr (opcodes_update (STREAM_START_update (\<lambda>_. m)) cfg)"
  "apply_setting sec ''STREAM_DATA'' (CHR ''0'' # CHR ''x'' # numeral_text 16 (unat m)) cfg = Inr (opcodes_update (STREAM_DATA_update (\<lambda>_. m)) cfg)"
  "apply_setting sec ''STREAM_END'' (CHR ''0'' # CHR ''x'' # numeral_text 16 (unat m)) cfg = Inr (opcodes_update (STREAM_END_update (\<lambda>_. m)) cfg)"
  "apply_setting sec ''STREAM_CANCEL'' (CHR ''0'' # CHR ''x'' # numeral_text 16 (unat m)) cfg = Inr (opcodes_update (STREAM_CANCEL_update (\<lambda>_. m)) cfg)"
  "apply_setting sec ''supported_versions'' (versions_text vs) cfg
     = Inr (if vs \<noteq> [] then cfg\<lparr>cfg_supported_versions := vs\<rparr> else cfg)"
  "apply_setting sec ''enabled'' v cfg = Inr (apply_enabled sec v cfg)"
  by (simp_all add: apply_setting_def parse_versions_text)

lemma apply_enabled_truth:
  "apply_enabled ''rate_limiting'' (truth b) cfg = rate_limit_update (rl_enabled_update (\<lambda>_. b)) cfg"
  "apply_enabled ''connection_limits'' (truth b) cfg = connection_limits_update (cl_enabled_update (\<lambda>_. b)) cfg"
  "apply_enabled ''message_limits'' (truth b) cfg = message_limits_update (ml_enabled_update (\<lambda>_. b)) cfg"
  "apply_enabled ''timeouts'' (truth b) cfg = timeouts_update (to_enabled_update (\<lambda>_. b)) cfg"
  by (simp_all add: apply_enabled_def)

lemma from_lines_config_lines:
  assumes "cfg_supported_versions cfg \<noteq> []"
  shows "from_lines (config_lines cfg) 0 [] Config = Inr (cfg, [])"
proof -
  note top = parse_top_section [OF plain_keys(1), simplified] parse_top_section [OF plain_keys(6), simplified]
  have "from_lines (config_lines cfg) 0 [] Config
     = Inr (Config\<lparr>rate_limit := rate_limit cfg, connection_limits := connection_limits cfg,
              message_limits := message_limits cfg, timeouts := timeouts cfg, opcodes := opcodes cfg,
              cfg_supported_versions := cfg_supported_versions cfg\<rparr>, [])"
    using assms
    unfolding config_lines_def
    by (simp add: from_lines_section top parse_section_line plain_keys from_lines_setting plain_truth
        plain_dec plain_hex plain_versions_text apply_settings apply_enabled_truth
        del: from_lines.simps(2) if_split)
  then show ?thesis by (simp add: Config_def)
qed

section \<open>Exceptions of the parser\<close>

lemma stoul_std: "stoul b s = Inl e \<Longrightarrow> is_std_exception e"
  by (auto simp: stoul_def Let_def split: if_splits)

lemma parse_uint32_std: "parse_uint32 s = Inl e \<Longrightarrow> is_std_exception e"
  by (cases "stoul 16 s"; cases "stoul 10 s")
    (auto simp: parse_uint32_def split: if_splits dest: stoul_std)

lemma parse_versions_std: "parse_versions s = Inl e \<Longrightarrow> is_std_exception e"
proof (induction s rule: parse_versions.induct)
  case (1 val)
  then show ?case
    by (subst (asm) parse_versions.simps) (auto simp: Let_def split: if_splits sum.splits dest: stoul_std)
qed

lemma set_std: "set_u32 f v cfg = Inl e \<Longrightarrow> is_std_exception e" "set_u16 g v cfg = Inl e \<Longrightarrow> is_std_exception e"
  by (auto simp: set_u32_def set_u16_def dest: parse_uint32_std split: sum.splits)

lemma apply_setting_std: "apply_setting sec key val cfg = Inl e \<Longrightarrow> is_std_exception e"
  unfolding apply_setting_def
  by (auto dest: set_std parse_versions_std split: if_splits sum.splits)

lemma from_lines_total:
  "\<exists>cfg' ws. from_lines ls n sec cfg = Inr (cfg', ws) \<and> set ws \<subseteq> {n<..n + length ls}"
proof (induction ls arbitrary: n sec cfg)
  case (Cons l ls)
  obtain b sec' key val where line: "parse_yaml_line l sec [] [] = (b, sec', key, val)"
    by (metis prod_cases4)
  have IH: "\<exists>cfg' ws. from_lines ls (Suc n) sec' c = Inr (cfg', ws) \<and> set ws \<subseteq> {n<..n + length (l # ls)}" for c
    using Cons.IH [of "Suc n" sec' c] by fastforce
  show ?case
  proof (cases "b \<and> (\<exists>e. apply_setting sec' key val cfg = Inl e)")
    case True
    then show ?thesis using IH [of cfg] apply_setting_std by (force simp: line)
  next
    case False
    then show ?thesis
      using IH [of cfg] IH [of "projr (apply_setting sec' key val cfg)"]
      by (cases b; cases "apply_setting sec' key val cfg") (simp_all add: line)
  qed
qed simp

section \<open>Properties\<close>

text \<open>C39: a configuration written in the layout of \<^verbatim>\<open>config_example.yml\<close> is read back exactly, with
  no warning, provided it lists at least one protocol version.\<close>

theorem from_yaml_round_trip:
  assumes "cfg_supported_versions cfg \<noteq> []"
  shows "from_yaml (Some (config_text cfg)) = Inr (cfg, [])"
  using assms by (simp add: from_yaml_def config_text_def getlines_lines no_newline from_lines_config_lines)

theorem from_yaml_round_trip_witness:
  "from_yaml (Some (config_text with_defaults)) = Inr (with_defaults, [])"
  by (rule from_yaml_round_trip) (simp add: with_defaults_def)

text \<open>Reading a number. The decimal and the \<^verbatim>\<open>0x\<close> notation of a number below \<open>2 ^ 64\<close> are
  read as that number truncated to 32 bits; a larger number is reported as out of range.\<close>

theorem parse_uint32_notations:
  "parse_uint32 (numeral_text 10 n) = parse_uint32 (''0x'' @ numeral_text 16 n)
   \<and> parse_uint32 (numeral_text 10 n)
       = (if n < 2 ^ 64 then Inr (of_nat n) else Inl (StdException ''std::out_of_range: stoul''))"
  by (simp only: parse_uint32_decimal parse_uint32_hex simp_thms)

text \<open>Reading a configuration file never throws, whatever the file contains: it returns a
  configuration and warns about at most the lines the file has.\<close>

theorem from_yaml_never_throws:
  "\<exists>cfg ws. from_yaml src = Inr (cfg, ws)
     \<and> set ws \<subseteq> {0<..(case src of None \<Rightarrow> 0 | Some contents \<Rightarrow> length (getlines contents))}"
proof (cases src)
  case (Some contents)
  then show ?thesis
    using from_lines_total [of "getlines contents" 0 "[]" Config] by (simp add: from_yaml_def)
qed (simp add: from_yaml_def)

end
