(* ===== verification/Stream.thy ===== *)
theory Stream
  imports Packet
begin

text \<open>
  \<^verbatim>\<open>Stream\<close> (\<^verbatim>\<open>stream.hpp\<close>, \<^verbatim>\<open>stream.cpp\<close>). Handlers are named by numbers (\<open>None\<close> is an empty
  \<^verbatim>\<open>std::function\<close>); what calling one does to the owner's state, of type \<open>'s\<close>, is an argument of
  the dispatch operations. The send callback is a value \<open>f\<close> that the owner interprets. The three
  outgoing operations return the error they log instead of an exception.
\<close>

record 'f stream =
  stream_id :: u32
  send_fn :: 'f
  stream_op_code :: "OpCode option"
  on_data :: "nat option"
  on_end :: "nat option"
  on_cancel :: "nat option"

definition Stream :: "u32 \<Rightarrow> 'f \<Rightarrow> OpCode option \<Rightarrow> 'f stream" where
  "Stream sid f op =
     \<lparr>stream_id = sid, send_fn = f, stream_op_code = op, on_data = None, on_end = None, on_cancel = None\<rparr>"

definition get_stream_id :: "'f stream \<Rightarrow> u32" where
  "get_stream_id st = stream_id st"

definition get_op_code :: "'f stream \<Rightarrow> OpCode option" where
  "get_op_code st = stream_op_code st"

text \<open>The lambda the owners install: nothing happens once the owner is gone.\<close>

definition weak_send ::
  "bool \<Rightarrow> ('f \<Rightarrow> payload \<Rightarrow> 's \<Rightarrow> unit result \<times> 's) \<Rightarrow> 'f \<Rightarrow> payload \<Rightarrow> 's \<Rightarrow> unit result \<times> 's" where
  "weak_send alive send f p s = (if alive then send f p s else (Inr (), s))"

definition swallow :: "unit result \<times> 's \<Rightarrow> exn option \<times> 's" where
  "swallow x = (case x of (Inl e, s) \<Rightarrow> (Some e, s) | (Inr _, s) \<Rightarrow> (None, s))"

definition stream_write ::
  "('f \<Rightarrow> payload \<Rightarrow> 's \<Rightarrow> unit result \<times> 's) \<Rightarrow> 'f stream \<Rightarrow> byte_vector \<Rightarrow> 's \<Rightarrow> exn option \<times> 's" where
  "stream_write send st data s =
     swallow
       (case add_param_uint32 (PayloadBuilder STREAM_DATA_op) (stream_id st) of
          Inl e \<Rightarrow> (Inl e, s)
        | Inr b \<Rightarrow>
            (case add_param_bytes b data of
               Inl e \<Rightarrow> (Inl e, s)
             | Inr b \<Rightarrow> send (send_fn st) (fst (build b)) s))"

definition stream_end ::
  "('f \<Rightarrow> payload \<Rightarrow> 's \<Rightarrow> unit result \<times> 's) \<Rightarrow> 'f stream \<Rightarrow> 's \<Rightarrow> exn option \<times> 's" where
  "stream_end send st s =
     swallow
       (case add_param_uint32 (PayloadBuilder STREAM_END_op) (stream_id st) of
          Inl e \<Rightarrow> (Inl e, s)
        | Inr b \<Rightarrow> send (send_fn st) (fst (build b)) s)"

definition stream_cancel ::
  "('f \<Rightarrow> payload \<Rightarrow> 's \<Rightarrow> unit result \<times> 's) \<Rightarrow> 'f stream \<Rightarrow> 's \<Rightarrow> exn option \<times> 's" where
  "stream_cancel send st s =
     swallow
       (case add_param_uint32 (PayloadBuilder STREAM_CANCEL_op) (stream_id st) of
          Inl e \<Rightarrow> (Inl e, s)
        | Inr b \<Rightarrow> send (send_fn st) (fst (build b)) s)"

definition set_data_handler :: "nat option \<Rightarrow> 'f stream \<Rightarrow> 'f stream" where
  "set_data_handler h st = st\<lparr>on_data := h\<rparr>"

definition set_end_handler :: "nat option \<Rightarrow> 'f stream \<Rightarrow> 'f stream" where
  "set_end_handler h st = st\<lparr>on_end := h\<rparr>"

definition set_cancel_handler :: "nat option \<Rightarrow> 'f stream \<Rightarrow> 'f stream" where
  "set_cancel_handler h st = st\<lparr>on_cancel := h\<rparr>"

definition dispatch_data ::
  "(nat \<Rightarrow> byte_vector \<Rightarrow> 's \<Rightarrow> unit result \<times> 's) \<Rightarrow> 'f stream \<Rightarrow> byte_vector \<Rightarrow> 's \<Rightarrow> unit result \<times> 's" where
  "dispatch_data call st data s = (case on_data st of Some h \<Rightarrow> call h data s | None \<Rightarrow> (Inr (), s))"

definition dispatch_end :: "(nat \<Rightarrow> 's \<Rightarrow> unit result \<times> 's) \<Rightarrow> 'f stream \<Rightarrow> 's \<Rightarrow> unit result \<times> 's" where
  "dispatch_end call st s = (case on_end st of Some h \<Rightarrow> call h s | None \<Rightarrow> (Inr (), s))"

definition dispatch_cancel :: "(nat \<Rightarrow> 's \<Rightarrow> unit result \<times> 's) \<Rightarrow> 'f stream \<Rightarrow> 's \<Rightarrow> unit result \<times> 's" where
  "dispatch_cancel call st s = (case on_cancel st of Some h \<Rightarrow> call h s | None \<Rightarrow> (Inr (), s))"

section \<open>The payloads of a stream\<close>

definition framed_params :: "OpCode \<Rightarrow> param list \<Rightarrow> payload" where
  "framed_params op xs = \<lparr>op_code = op, parameters = concat (map (\<lambda>x. framed (param_bytes x)) xs)\<rparr>"

lemma framed_params_read:
  "list_all fits xs \<Longrightarrow>
     \<exists>r. read_params (map type_of xs) (PayloadReader (framed_params op xs)) = (Inr xs, r) \<and> \<not> has_more r"
  using read_params_framed [of xs "[]" "[]"]
  by (simp add: framed_params_def PayloadReader_def has_more_def)

lemma add_uint32_framed: "add_param_uint32 b x = Inr (insert_end (framed (param_bytes (P_uint32 x))) b)"
  using uint32_param.add_framed [of x b] by simp

lemma fits_uint32 [simp]: "fits (P_uint32 x)" "fits (P_uint16 y)"
  by (simp_all add: fits_def)

lemma fits_bytes: "fits (P_bytes bs) \<longleftrightarrow> length bs \<le> 65535"
  by (simp add: fits_def)

lemma stream_write_sends:
  "stream_write send st data s =
     (if length data \<le> 65535
      then swallow (send (send_fn st) (framed_params STREAM_DATA_op [P_uint32 (stream_id st), P_bytes data]) s)
      else (Some (RuntimeError ''Parameter size exceeds maximum of 65535 bytes.''), s))"
  by (simp add: stream_write_def add_uint32_framed add_param_bytes_ok bytes_param.add_too_long
      insert_end_def build_def PayloadBuilder_def framed_params_def swallow_def)

lemma stream_end_sends:
  "stream_end send st s = swallow (send (send_fn st) (framed_params STREAM_END_op [P_uint32 (stream_id st)]) s)"
  "stream_cancel send st s
     = swallow (send (send_fn st) (framed_params STREAM_CANCEL_op [P_uint32 (stream_id st)]) s)"
  by (simp_all add: stream_end_def stream_cancel_def add_uint32_framed insert_end_def build_def
      PayloadBuilder_def framed_params_def)

section \<open>Properties\<close>

text \<open>Writing to a stream sends one payload, from which a receiver reads the stream's
  identifier and exactly the data written, unless the data is longer than a parameter can be: then
  nothing is sent at all and the error is only logged. \<^verbatim>\<open>end\<close> and \<^verbatim>\<open>cancel\<close> send the identifier
  alone. Once the owner is gone, a write changes nothing and logs nothing but the size error.\<close>

theorem stream_wire_format:
  "\<exists>r r'. stream_write send st data s =
      (if length data \<le> 65535
       then swallow (send (send_fn st) (framed_params STREAM_DATA_op [P_uint32 (stream_id st), P_bytes data]) s)
       else (Some (RuntimeError ''Parameter size exceeds maximum of 65535 bytes.''), s))
     \<and> (if length data \<le> 65535
        then read_params [T_uint32, T_bytes]
               (PayloadReader (framed_params STREAM_DATA_op [P_uint32 (stream_id st), P_bytes data]))
             = (Inr [P_uint32 (stream_id st), P_bytes data], r) \<and> \<not> has_more r
        else True)
     \<and> stream_end send st s = swallow (send (send_fn st) (framed_params STREAM_END_op [P_uint32 (stream_id st)]) s)
     \<and> stream_cancel send st s
         = swallow (send (send_fn st) (framed_params STREAM_CANCEL_op [P_uint32 (stream_id st)]) s)
     \<and> read_params [T_uint32] (PayloadReader (framed_params op [P_uint32 (stream_id st)]))
         = (Inr [P_uint32 (stream_id st)], r') \<and> \<not> has_more r'
     \<and> snd (stream_write (weak_send False send) st data s) = s
     \<and> stream_end (weak_send False send) st s = (None, s)
     \<and> stream_cancel (weak_send False send) st s = (None, s)"
proof -
  obtain r' where r': "read_params [T_uint32] (PayloadReader (framed_params op [P_uint32 (stream_id st)]))
      = (Inr [P_uint32 (stream_id st)], r')" "\<not> has_more r'"
    using framed_params_read [of "[P_uint32 (stream_id st)]" op] by auto
  obtain r where "length data \<le> 65535 \<Longrightarrow> read_params [T_uint32, T_bytes]
      (PayloadReader (framed_params STREAM_DATA_op [P_uint32 (stream_id st), P_bytes data]))
      = (Inr [P_uint32 (stream_id st), P_bytes data], r) \<and> \<not> has_more r"
    using framed_params_read [of "[P_uint32 (stream_id st), P_bytes data]" STREAM_DATA_op]
    by (auto simp: fits_bytes)
  with r' show ?thesis
    by (intro exI [of _ r] exI [of _ r']) (simp add: stream_write_sends stream_end_sends weak_send_def swallow_def)
qed

end
