(* ===== verification/Requests.thy ===== *)
theory Requests
  imports Packet
begin

text \<open>
  The request bookkeeping that \<^verbatim>\<open>WsClientWrapper\<close> and \<^verbatim>\<open>WsServerWrapper\<close> share in design: the
  pending promises and their deadlines. A request is keyed by \<open>'k\<close> (the request identifier in
  the client; the connection and the identifier in the server, whose two-level maps appear here
  flattened). A promise is named by its position in the list of all promises ever made, so that
  the outcome of a future stays visible after the promise object is gone. Completing a promise a
  second time throws \<^verbatim>\<open>std::future_error\<close>, and destroying a pending one breaks it, as in the
  standard library.
\<close>

section \<open>Promises\<close>

datatype promise_state = Pending | Value payload | Failed exn

record 'k request_table =
  promises :: "promise_state list"
  pending :: "('k, nat) amap"
  deadlines :: "('k, int) amap"

definition empty_table :: "'k request_table" where
  "empty_table = \<lparr>promises = [], pending = [], deadlines = []\<rparr>"

definition set_promise ::
  "nat \<Rightarrow> promise_state \<Rightarrow> 'k request_table \<Rightarrow> unit result \<times> 'k request_table" where
  "set_promise pid outcome t =
     (if pid < length (promises t) \<and> promises t ! pid = Pending
      then (Inr (), t\<lparr>promises := (promises t)[pid := outcome]\<rparr>)
      else (Inl (StdException ''std::future_error: Promise already satisfied''), t))"

definition destroy_promise :: "nat \<Rightarrow> 'k request_table \<Rightarrow> 'k request_table" where
  "destroy_promise pid t =
     snd (set_promise pid (Failed (StdException ''std::future_error: Broken promise'')) t)"

section \<open>Operations\<close>

text \<open>\<^verbatim>\<open>pending_requests_[id] = std::move(promise)\<close> and, with a deadline,
  \<^verbatim>\<open>request_deadlines_[id] = ...\<close>: one critical section of \<^verbatim>\<open>async_request\<close>.\<close>

definition register_request ::
  "'k \<Rightarrow> int option \<Rightarrow> 'k request_table \<Rightarrow> nat \<times> 'k request_table" where
  "register_request k deadline t =
     (let pid = length (promises t);
          t = t\<lparr>promises := promises t @ [Pending]\<rparr>;
          t = (case m_find (pending t) k of Some old \<Rightarrow> destroy_promise old t | None \<Rightarrow> t);
          t = t\<lparr>pending := m_put k pid (pending t)\<rparr>
      in (pid, case deadline of
                 Some d \<Rightarrow> t\<lparr>deadlines := m_put k d (deadlines t)\<rparr>
               | None \<Rightarrow> t))"

text \<open>The response handler's critical section: whether the request was known.\<close>

definition complete_request ::
  "'k \<Rightarrow> payload \<Rightarrow> 'k request_table \<Rightarrow> bool result \<times> 'k request_table" where
  "complete_request k response t =
     (case m_find (pending t) k of
        None \<Rightarrow> (Inr False, t)
      | Some pid \<Rightarrow>
          (case set_promise pid (Value response) t of
             (Inl e, t) \<Rightarrow> (Inl e, t)
           | (Inr _, t) \<Rightarrow> (Inr True, t\<lparr>pending := m_erase k (pending t)\<rparr>)))"

text \<open>The handler of a failed send in \<^verbatim>\<open>async_request\<close>.\<close>

definition abort_request ::
  "'k \<Rightarrow> exn \<Rightarrow> 'k request_table \<Rightarrow> unit result \<times> 'k request_table" where
  "abort_request k err t =
     (case (case m_find (pending t) k of
              None \<Rightarrow> (Inr (), t)
            | Some pid \<Rightarrow>
                (case set_promise pid (Failed err) t of
                   (Inl e, t) \<Rightarrow> (Inl e, t)
                 | (Inr _, t) \<Rightarrow> (Inr (), t\<lparr>pending := m_erase k (pending t)\<rparr>))) of
        (Inl e, t) \<Rightarrow> (Inl e, t)
      | (Inr _, t) \<Rightarrow> (Inr (), t\<lparr>deadlines := m_erase k (deadlines t)\<rparr>))"

fun set_promises :: "nat list \<Rightarrow> promise_state \<Rightarrow> 'k request_table \<Rightarrow> unit result \<times> 'k request_table" where
  "set_promises [] outcome t = (Inr (), t)"
| "set_promises (pid # pids) outcome t =
     (case set_promise pid outcome t of
        (Inl e, t) \<Rightarrow> (Inl e, t)
      | (Inr _, t) \<Rightarrow> set_promises pids outcome t)"

text \<open>All requests of a shutdown, or of one closed connection, fail.\<close>

definition fail_where ::
  "('k \<Rightarrow> bool) \<Rightarrow> exn \<Rightarrow> 'k request_table \<Rightarrow> unit result \<times> 'k request_table" where
  "fail_where P err t =
     (case set_promises (map snd (filter (\<lambda>(k, pid). P k) (pending t))) (Failed err) t of
        (Inl e, t) \<Rightarrow> (Inl e, t)
      | (Inr _, t) \<Rightarrow>
          (Inr (), t\<lparr>pending := filter (\<lambda>(k, pid). \<not> P k) (pending t),
                     deadlines := filter (\<lambda>(k, d). \<not> P k) (deadlines t)\<rparr>))"

text \<open>The loop that expires every request whose deadline has passed; it returns the deadlines
  that stay.\<close>

fun expire_from ::
  "int \<Rightarrow> ('k, int) amap \<Rightarrow> 'k request_table \<Rightarrow> ('k, int) amap result \<times> 'k request_table" where
  "expire_from now [] t = (Inr [], t)"
| "expire_from now ((k, d) # ds) t =
     (if d \<le> now
      then (case m_find (pending t) k of
              None \<Rightarrow> expire_from now ds t
            | Some pid \<Rightarrow>
                (case set_promise pid (Failed (TimeoutError ''Request timed out'')) t of
                   (Inl e, t) \<Rightarrow> (Inl e, t)
                 | (Inr _, t) \<Rightarrow> expire_from now ds (t\<lparr>pending := m_erase k (pending t)\<rparr>)))
      else map_prod (map_sum id ((#) (k, d))) id (expire_from now ds t))"

definition expire :: "int \<Rightarrow> 'k request_table \<Rightarrow> unit result \<times> 'k request_table" where
  "expire now t =
     (case expire_from now (deadlines t) t of
        (Inl e, t) \<Rightarrow> (Inl e, t)
      | (Inr ds, t) \<Rightarrow> (Inr (), t\<lparr>deadlines := ds\<rparr>))"

text \<open>\<^verbatim>\<open>resolve_request_timeout\<close>, the same in client and server, on the configured values.\<close>

definition resolve_request_timeout :: "bool \<Rightarrow> u32 \<Rightarrow> u32 \<Rightarrow> u32" where
  "resolve_request_timeout timeouts_enabled request_ms explicit_ms =
     (if explicit_ms > 0 then explicit_ms else if timeouts_enabled then request_ms else 0)"

text \<open>The deadline for an effective timeout: the clock counts nanoseconds.\<close>

definition deadline_at :: "int \<Rightarrow> u32 \<Rightarrow> int option" where
  "deadline_at now timeout_ms =
     (if timeout_ms > 0 then Some (now + int (unat timeout_ms) * 1000000) else None)"

text \<open>The request payload: the request identifier as first parameter, then the caller's.\<close>

definition with_request_id :: "u32 \<Rightarrow> payload \<Rightarrow> payload result" where
  "with_request_id request_id payload =
     (case add_param_uint32 (PayloadBuilder 0) request_id of
        Inl e \<Rightarrow> Inl e
      | Inr id_builder \<Rightarrow>
          let id_param = parameters (fst (build id_builder))
          in Inr \<lparr>op_code = op_code payload, parameters = id_param @ parameters payload\<rparr>)"

section \<open>The invariant\<close>

definition waiting :: "'k request_table \<Rightarrow> nat set" where
  "waiting t = {pid. pid < length (promises t) \<and> promises t ! pid = Pending}"

text \<open>The pending entries are exactly the promises nobody has completed, each under one key.\<close>

definition table_inv :: "'k request_table \<Rightarrow> bool" where
  "table_inv t \<longleftrightarrow> keys_ok (pending t) \<and> keys_ok (deadlines t) \<and> distinct (map snd (pending t))
     \<and> set (map snd (pending t)) = waiting t"

text \<open>Between two states every settled promise keeps its outcome.\<close>

definition settled_stays :: "'k request_table \<Rightarrow> 'k request_table \<Rightarrow> bool" where
  "settled_stays t t' \<longleftrightarrow> length (promises t) \<le> length (promises t')
     \<and> (\<forall>pid < length (promises t). promises t ! pid \<noteq> Pending \<longrightarrow> promises t' ! pid = promises t ! pid)"

lemma settled_stays_refl [simp, intro]: "settled_stays t t"
  by (simp add: settled_stays_def)

lemma settled_stays_trans: "settled_stays t u \<Longrightarrow> settled_stays u v \<Longrightarrow> settled_stays t v"
  by (auto simp: settled_stays_def)

lemma settled_stays_promises: "promises t' = promises t \<Longrightarrow> settled_stays t t'"
  by (simp add: settled_stays_def)

lemma table_inv_empty [simp]: "table_inv empty_table"
  by (simp add: table_inv_def empty_table_def waiting_def)

lemma pending_waiting: "table_inv t \<Longrightarrow> m_find (pending t) k = Some pid \<Longrightarrow> pid \<in> waiting t"
  by (force simp: table_inv_def dest: map_of_SomeD)

lemma set_promise_waiting:
  "pid \<in> waiting t \<Longrightarrow> set_promise pid out t = (Inr (), t\<lparr>promises := (promises t)[pid := out]\<rparr>)"
  by (simp add: set_promise_def waiting_def)

lemma set_promise_settled: "settled_stays t (snd (set_promise pid out t))"
  by (auto simp: set_promise_def settled_stays_def nth_list_update)

lemma set_promise_fields [simp]:
  "pending (snd (set_promise pid out t)) = pending t" "deadlines (snd (set_promise pid out t)) = deadlines t"
  "length (promises (snd (set_promise pid out t))) = length (promises t)"
  by (simp_all add: set_promise_def)

lemma waiting_update:
  "out \<noteq> Pending \<Longrightarrow> waiting (t\<lparr>promises := (promises t)[pid := out]\<rparr>) = waiting t - {pid}"
proof -
  assume "out \<noteq> Pending"
  then show "waiting (t\<lparr>promises := (promises t)[pid := out]\<rparr>) = waiting t - {pid}"
    by (cases "pid < length (promises t)") (auto simp: waiting_def nth_list_update split: if_splits)
qed

lemma waiting_fields [simp]:
  "waiting (t\<lparr>pending := p\<rparr>) = waiting t" "waiting (t\<lparr>deadlines := d\<rparr>) = waiting t"
  by (simp_all add: waiting_def)

lemma set_snd_erase:
  "keys_ok m \<Longrightarrow> distinct (map snd m) \<Longrightarrow> m_find m k = Some v \<Longrightarrow>
     set (map snd (m_erase k m)) = set (map snd m) - {v} \<and> distinct (map snd (m_erase k m))"
proof (induction m)
  case (Cons p m)
  show ?case
  proof (cases "fst p = k")
    case True
    then have "m_erase k m = m"
      using Cons.prems by (intro m_erase_absent) (simp add: keys_ok_def map_of_eq_None_iff)
    then show ?thesis using Cons.prems True by (cases p) auto
  next
    case False
    then have find: "m_find m k = Some v" and inv: "keys_ok m" "distinct (map snd m)" "snd p \<notin> set (map snd m)"
      using Cons.prems by (cases p; simp add: keys_ok_def)+
    then have "v \<in> set (map snd m)" by (force dest: map_of_SomeD)
    then have "snd p \<noteq> v" using inv by auto
    then show ?thesis
      using Cons.IH [OF inv(1,2) find] inv False by (cases p) auto
  qed
qed simp

text \<open>Completing the promise of a key and erasing the key: the step all operations take.\<close>

definition settle :: "'k \<Rightarrow> nat \<Rightarrow> promise_state \<Rightarrow> 'k request_table \<Rightarrow> 'k request_table" where
  "settle k pid out t =
     t\<lparr>promises := (promises t)[pid := out], pending := m_erase k (pending t)\<rparr>"

lemma settle_inv:
  assumes "table_inv t" and "m_find (pending t) k = Some pid" and "out \<noteq> Pending"
  shows "table_inv (settle k pid out t)"
proof -
  have "set (map snd (m_erase k (pending t))) = set (map snd (pending t)) - {pid}
      \<and> distinct (map snd (m_erase k (pending t)))"
    using assms by (intro set_snd_erase) (auto simp: table_inv_def)
  moreover have "waiting (settle k pid out t) = waiting t - {pid}"
    using waiting_update [OF assms(3), of t pid] by (simp add: settle_def waiting_def)
  ultimately show ?thesis
    using assms(1) by (simp add: table_inv_def settle_def)
qed

lemma settle_settled:
  "table_inv t \<Longrightarrow> m_find (pending t) k = Some pid \<Longrightarrow> settled_stays t (settle k pid out t)"
  using pending_waiting [of t k pid]
  by (auto simp: settled_stays_def settle_def waiting_def nth_list_update)

lemma table_inv_deadlines: "table_inv t \<Longrightarrow> keys_ok d \<Longrightarrow> table_inv (t\<lparr>deadlines := d\<rparr>)"
  by (simp add: table_inv_def)

lemma settle_eq:
  "table_inv t \<Longrightarrow> m_find (pending t) k = Some pid \<Longrightarrow>
     set_promise pid out t = (Inr (), t\<lparr>promises := (promises t)[pid := out]\<rparr>)
     \<and> t\<lparr>promises := (promises t)[pid := out], pending := m_erase k (pending t)\<rparr> = settle k pid out t"
  by (simp add: set_promise_waiting pending_waiting settle_def)

section \<open>What the operations do\<close>

lemma complete_request_eq:
  "table_inv t \<Longrightarrow> complete_request k p t =
     (case m_find (pending t) k of None \<Rightarrow> (Inr False, t) | Some pid \<Rightarrow> (Inr True, settle k pid (Value p) t))"
  using settle_eq [of t k] by (auto simp: complete_request_def settle_def split: option.splits)

lemma abort_request_eq:
  "table_inv t \<Longrightarrow> abort_request k e t =
     (Inr (), (case m_find (pending t) k of None \<Rightarrow> t | Some pid \<Rightarrow> settle k pid (Failed e) t)
                \<lparr>deadlines := m_erase k (deadlines t)\<rparr>)"
  using settle_eq [of t k] by (auto simp: abort_request_def settle_def split: option.splits)

lemma table_inv_put:
  assumes "table_inv t" and "m_find (pending t) k = None"
  shows "table_inv (t\<lparr>promises := promises t @ [Pending], pending := m_put k (length (promises t)) (pending t)\<rparr>)"
proof -
  have "waiting (t\<lparr>promises := promises t @ [Pending], pending := m_put k (length (promises t)) (pending t)\<rparr>)
      = insert (length (promises t)) (waiting t)"
    by (auto simp: waiting_def nth_append)
  moreover have "length (promises t) \<notin> waiting t" by (simp add: waiting_def)
  ultimately show ?thesis
    using assms by (auto simp: table_inv_def m_put_fresh keys_ok_snoc)
qed

text \<open>Registering under a key that is in use breaks the promise the key had.\<close>

lemma set_snd_put:
  "keys_ok m \<Longrightarrow> distinct (map snd m) \<Longrightarrow> m_find m k = Some v \<Longrightarrow> w \<notin> set (map snd m) \<Longrightarrow>
     set (map snd (m_put k w m)) = insert w (set (map snd m) - {v}) \<and> distinct (map snd (m_put k w m))"
proof (induction m)
  case (Cons p m)
  show ?case
  proof (cases "fst p = k")
    case True
    then show ?thesis using Cons.prems by (cases p) auto
  next
    case False
    then have find: "m_find m k = Some v" and inv: "keys_ok m" "distinct (map snd m)" "snd p \<notin> set (map snd m)"
        "w \<notin> set (map snd m)"
      using Cons.prems by (cases p; simp add: keys_ok_def)+
    then have "v \<in> set (map snd m)" by (force dest: map_of_SomeD)
    then have "snd p \<noteq> v" using inv by auto
    then show ?thesis
      using Cons.IH [OF inv(1,2) find inv(4)] inv False Cons.prems(4) by (cases p) auto
  qed
qed simp

lemma register_request_inv:
  assumes inv: "table_inv t"
  shows "table_inv (snd (register_request k dl t)) \<and> settled_stays t (snd (register_request k dl t))"
proof -
  have dl: "table_inv u \<Longrightarrow> table_inv (case dl of Some d \<Rightarrow> u\<lparr>deadlines := m_put k d (deadlines u)\<rparr> | None \<Rightarrow> u)"
    for u :: "'a request_table"
    by (auto simp: table_inv_def split: option.splits)
  have dls: "promises (case dl of Some d \<Rightarrow> u\<lparr>deadlines := m_put k d (deadlines u)\<rparr> | None \<Rightarrow> u) = promises u"
    for u :: "'a request_table"
    by (auto split: option.splits)
  show ?thesis
  proof (cases "m_find (pending t) k")
    case None
    then have "snd (register_request k dl t)
        = (let u = t\<lparr>promises := promises t @ [Pending], pending := m_put k (length (promises t)) (pending t)\<rparr>
           in case dl of Some d \<Rightarrow> u\<lparr>deadlines := m_put k d (deadlines u)\<rparr> | None \<Rightarrow> u)"
      by (simp add: register_request_def Let_def split: option.split)
    then show ?thesis
      using dl [OF table_inv_put [OF inv None]] by (auto simp: Let_def settled_stays_def dls nth_append)
  next
    case (Some old)
    let ?broken = "Failed (StdException ''std::future_error: Broken promise'')"
    let ?n = "length (promises t)"
    have old: "old < ?n" "promises t ! old = Pending"
      using pending_waiting [OF inv Some] by (auto simp: waiting_def)
    let ?u = "t\<lparr>promises := (promises t)[old := ?broken] @ [Pending], pending := m_put k ?n (pending t)\<rparr>"
    have eq: "snd (register_request k dl t)
        = (case dl of Some d \<Rightarrow> ?u\<lparr>deadlines := m_put k d (deadlines ?u)\<rparr> | None \<Rightarrow> ?u)"
      using Some old by (simp add: register_request_def destroy_promise_def set_promise_def Let_def nth_append
          list_update_append split: option.split)
    have w: "waiting ?u = insert ?n (waiting t - {old})"
      using old by (auto simp: waiting_def nth_append nth_list_update split: if_splits)
    have n: "?n \<notin> set (map snd (pending t))" "old \<in> waiting t"
      using inv pending_waiting [OF inv Some] by (auto simp: table_inv_def waiting_def)
    have "set (map snd (m_put k ?n (pending t))) = insert ?n (set (map snd (pending t)) - {old})
        \<and> distinct (map snd (m_put k ?n (pending t)))"
      using inv Some n by (intro set_snd_put) (auto simp: table_inv_def)
    then have "table_inv ?u"
      using inv unfolding table_inv_def w by simp
    then show ?thesis
      using dl old eq by (auto simp: settled_stays_def dls nth_append nth_list_update)
  qed
qed

lemma complete_request_inv:
  "table_inv t \<Longrightarrow> table_inv (snd (complete_request k p t)) \<and> settled_stays t (snd (complete_request k p t))"
  by (auto simp: complete_request_eq settle_inv settle_settled split: option.splits)

lemma abort_request_inv:
  "table_inv t \<Longrightarrow> table_inv (snd (abort_request k e t)) \<and> settled_stays t (snd (abort_request k e t))"
proof -
  assume inv: "table_inv t"
  have k: "keys_ok (m_erase k (deadlines t))" using inv by (simp add: table_inv_def)
  show ?thesis
  proof (cases "m_find (pending t) k")
    case None
    then show ?thesis
      using inv k by (auto simp: abort_request_eq table_inv_deadlines intro: settled_stays_promises)
  next
    case (Some pid)
    have "settled_stays t ((settle k pid (Failed e) t)\<lparr>deadlines := m_erase k (deadlines t)\<rparr>)"
      using settle_settled [OF inv Some, of "Failed e"] by (simp add: settled_stays_def)
    then show ?thesis
      using inv k Some by (simp add: abort_request_eq table_inv_deadlines settle_inv)
  qed
qed

lemma set_promises_waiting:
  "distinct pids \<Longrightarrow> set pids \<subseteq> waiting t \<Longrightarrow> out \<noteq> Pending \<Longrightarrow>
     \<exists>ps. set_promises pids out t = (Inr (), t\<lparr>promises := ps\<rparr>) \<and> length ps = length (promises t)
       \<and> (\<forall>i < length ps. ps ! i = (if i \<in> set pids then out else promises t ! i))"
proof (induction pids arbitrary: t)
  case Nil
  have "t = t\<lparr>promises := promises t\<rparr>" by simp
  then show ?case by (intro exI [of _ "promises t"]) simp
next
  case (Cons pid pids)
  let ?t = "t\<lparr>promises := (promises t)[pid := out]\<rparr>"
  have pid: "pid < length (promises t)" "pid \<in> waiting t"
    using Cons.prems by (auto simp: waiting_def)
  have "set pids \<subseteq> waiting ?t"
    using Cons.prems waiting_update [OF Cons.prems(3), of t pid] by auto
  then obtain ps where "set_promises pids out ?t = (Inr (), ?t\<lparr>promises := ps\<rparr>)"
      "length ps = length (promises t)"
      "\<forall>i < length ps. ps ! i = (if i \<in> set pids then out else promises ?t ! i)"
    using Cons.IH [of ?t] Cons.prems by auto
  then show ?case
    using Cons.prems pid by (intro exI [of _ ps]) (auto simp: set_promise_waiting nth_list_update)
qed

lemma waiting_in_pending:
  "table_inv t \<Longrightarrow> pid \<in> waiting t \<longleftrightarrow> (\<exists>k. m_find (pending t) k = Some pid)"
proof -
  assume inv: "table_inv t"
  have "pid \<in> waiting t \<longleftrightarrow> (\<exists>k. (k, pid) \<in> set (pending t))"
    using inv by (force simp: table_inv_def)
  then show ?thesis
    using inv by (simp add: table_inv_def keys_ok_def map_of_eq_Some_iff)
qed

lemma pending_injective:
  assumes "table_inv t" and "m_find (pending t) k = Some pid" and "m_find (pending t) k' = Some pid"
  shows "k = k'"
proof -
  have "(k, pid) \<in> set (pending t)" "(k', pid) \<in> set (pending t)"
    using assms by (auto dest: map_of_SomeD)
  moreover have "inj_on snd (set (pending t))"
    using assms(1) by (simp add: table_inv_def distinct_map)
  ultimately show ?thesis
    using inj_onD [of snd "set (pending t)" "(k, pid)" "(k', pid)"] by simp
qed

lemma fail_where_effect:
  assumes inv: "table_inv t"
  shows "\<exists>t'. fail_where P e t = (Inr (), t') \<and> table_inv t' \<and> settled_stays t t'
     \<and> (\<forall>k. m_find (pending t') k = (if P k then None else m_find (pending t) k))
     \<and> (\<forall>k. m_find (deadlines t') k = (if P k then None else m_find (deadlines t) k))
     \<and> length (promises t') = length (promises t)
     \<and> (\<forall>k pid. m_find (pending t) k = Some pid \<longrightarrow>
          promises t' ! pid = (if P k then Failed e else Pending))"
proof -
  let ?gone = "filter (\<lambda>(k, pid). P k) (pending t)" and ?left = "filter (\<lambda>(k, pid). \<not> P k) (pending t)"
  have keys: "keys_ok (pending t)" "keys_ok (deadlines t)" and dist: "distinct (map snd (pending t))"
    and sub: "set (map snd ?gone) \<subseteq> waiting t"
    using inv by (auto simp: table_inv_def)
  have "distinct (map snd ?gone)"
    using dist by (rule distinct_map_filter)
  then obtain ps where ps: "set_promises (map snd ?gone) (Failed e) t = (Inr (), t\<lparr>promises := ps\<rparr>)"
      "length ps = length (promises t)"
      "\<forall>i < length ps. ps ! i = (if i \<in> set (map snd ?gone) then Failed e else promises t ! i)"
    using set_promises_waiting [OF _ sub, of "Failed e"] by auto
  let ?t' = "t\<lparr>promises := ps, pending := ?left, deadlines := filter (\<lambda>(k, d). \<not> P k) (deadlines t)\<rparr>"
  have run: "fail_where P e t = (Inr (), ?t')"
    using ps by (simp add: fail_where_def)
  have snds: "set (map snd ?left) = set (map snd (pending t)) - set (map snd ?gone)"
    using dist by (auto simp: distinct_map inj_on_def)
  have "waiting ?t' = waiting t - set (map snd ?gone)"
    using ps(2,3) unfolding waiting_def by (auto simp del: set_map split: if_splits)
  then have inv': "table_inv ?t'"
    using inv snds by (simp add: table_inv_def distinct_map_filter)
  have settled: "settled_stays t ?t'"
    using ps(2,3) sub by (auto simp: settled_stays_def waiting_def)
  have find: "m_find (filter (\<lambda>(k, x). \<not> P k) m) k = (if P k then None else m_find m k)" if "keys_ok m"
    for m :: "('a \<times> 'b) list" and k
    using m_find_filter [OF that, of "\<lambda>(k, x). \<not> P k" k] by (auto split: option.splits)
  have out: "ps ! pid = (if P k then Failed e else Pending)" if "m_find (pending t) k = Some pid" for k pid
  proof -
    have "pid \<in> waiting t" using pending_waiting [OF inv that] .
    moreover have "pid \<in> set (map snd ?gone) \<longleftrightarrow> P k"
    proof
      assume "pid \<in> set (map snd ?gone)"
      then obtain k' where "(k', pid) \<in> set (pending t)" "P k'" by auto
      then have "m_find (pending t) k' = Some pid" "P k'"
        using keys(1) by (simp_all add: keys_ok_def)
      then show "P k" using pending_injective [OF inv that] by blast
    next
      assume "P k"
      then show "pid \<in> set (map snd ?gone)"
        using map_of_SomeD [OF that] by force
    qed
    ultimately show ?thesis using ps(2,3) by (simp add: waiting_def)
  qed
  show ?thesis
    using run inv' settled find [OF keys(1)] find [OF keys(2)] ps(2) out by auto
qed

definition expired :: "int \<Rightarrow> ('k, int) amap \<Rightarrow> 'k \<Rightarrow> bool" where
  "expired now ds k \<longleftrightarrow> (\<exists>d. (k, d) \<in> set ds \<and> d \<le> now)"

lemma expire_from_effect:
  "table_inv t \<Longrightarrow>
     \<exists>t'. expire_from now ds t = (Inr (filter (\<lambda>(k, d). now < d) ds), t') \<and> table_inv t' \<and> settled_stays t t'
     \<and> deadlines t' = deadlines t \<and> length (promises t') = length (promises t)
     \<and> (\<forall>k. m_find (pending t') k = (if expired now ds k then None else m_find (pending t) k))
     \<and> (\<forall>k pid. m_find (pending t) k = Some pid \<longrightarrow>
          promises t' ! pid = (if expired now ds k then Failed (TimeoutError ''Request timed out'') else Pending))"
proof (induction ds arbitrary: t)
  case Nil
  then show ?case using pending_waiting [OF Nil] by (auto simp: expired_def waiting_def)
next
  case (Cons kd ds)
  obtain k d where kd: "kd = (k, d)" by (cases kd)
  have exp: "expired now (kd # ds) i \<longleftrightarrow> (i = k \<and> d \<le> now) \<or> expired now ds i" for i
    by (auto simp: expired_def kd)
  show ?case
  proof (cases "d \<le> now \<and> (\<exists>pid. m_find (pending t) k = Some pid)")
    case False
    then show ?thesis
      using Cons.IH [OF Cons.prems] by (auto simp: kd exp [unfolded kd])
  next
    case True
    then obtain pid where pid: "m_find (pending t) k = Some pid" and le: "d \<le> now" by blast
    let ?u = "settle k pid (Failed (TimeoutError ''Request timed out'')) t"
    have inv: "table_inv ?u" and st: "settled_stays t ?u"
      using settle_inv [OF Cons.prems pid] settle_settled [OF Cons.prems pid] by simp_all
    obtain t' where t': "expire_from now ds ?u = (Inr (filter (\<lambda>(k, d). now < d) ds), t')" "table_inv t'"
        "settled_stays ?u t'" "deadlines t' = deadlines ?u" "length (promises t') = length (promises ?u)"
        "\<forall>i. m_find (pending t') i = (if expired now ds i then None else m_find (pending ?u) i)"
        "\<forall>i p. m_find (pending ?u) i = Some p \<longrightarrow>
           promises t' ! p = (if expired now ds i then Failed (TimeoutError ''Request timed out'') else Pending)"
      using Cons.IH [OF inv] by (elim exE conjE) (rule that)
    have run: "expire_from now (kd # ds) t = (Inr (filter (\<lambda>(k, d). now < d) (kd # ds)), t')"
      using t'(1) le pid conjunct1 [OF settle_eq [OF Cons.prems pid]] by (simp add: kd settle_def)
    have here: "promises t' ! pid = Failed (TimeoutError ''Request timed out'')"
      using t'(3) pending_waiting [OF Cons.prems pid] by (simp add: settled_stays_def settle_def waiting_def)
    have others: "m_find (pending t) i = Some p \<Longrightarrow> i \<noteq> k \<Longrightarrow> m_find (pending ?u) i = Some p" for i p
      by (simp add: settle_def)
    show ?thesis
    proof (intro exI [of _ t'] conjI allI impI)
      fix i
      show "m_find (pending t') i = (if expired now (kd # ds) i then None else m_find (pending t) i)"
        using t'(6) le by (simp add: exp settle_def)
    next
      fix i p
      assume "m_find (pending t) i = Some p"
      then show "promises t' ! p
          = (if expired now (kd # ds) i then Failed (TimeoutError ''Request timed out'') else Pending)"
        using t'(7) others [of i p] here pid le by (cases "i = k") (simp_all add: exp)
    qed (use run t'(2,4,5) settled_stays_trans [OF st t'(3)] in \<open>simp_all add: settle_def\<close>)
  qed
qed

lemma keys_ok_unique: "keys_ok m \<Longrightarrow> expired now m k \<longleftrightarrow> (\<exists>d. m_find m k = Some d \<and> d \<le> now)"
  by (simp add: expired_def keys_ok_def)

lemma expire_effect:
  assumes inv: "table_inv t"
  shows "\<exists>t'. expire now t = (Inr (), t') \<and> table_inv t' \<and> settled_stays t t'
     \<and> length (promises t') = length (promises t)
     \<and> (\<forall>k. m_find (deadlines t') k
           = (if expired now (deadlines t) k then None else m_find (deadlines t) k))
     \<and> (\<forall>k. m_find (pending t') k
           = (if expired now (deadlines t) k then None else m_find (pending t) k))
     \<and> (\<forall>k pid. m_find (pending t) k = Some pid \<longrightarrow> promises t' ! pid
           = (if expired now (deadlines t) k then Failed (TimeoutError ''Request timed out'') else Pending))"
proof -
  let ?ds = "filter (\<lambda>(k, d). now < d) (deadlines t)"
  have keys: "keys_ok (deadlines t)" using inv by (simp add: table_inv_def)
  obtain u where u: "expire_from now (deadlines t) t = (Inr ?ds, u)" "table_inv u" "settled_stays t u"
      "deadlines u = deadlines t" "length (promises u) = length (promises t)"
      "\<forall>k. m_find (pending u) k = (if expired now (deadlines t) k then None else m_find (pending t) k)"
      "\<forall>k pid. m_find (pending t) k = Some pid \<longrightarrow> promises u ! pid
         = (if expired now (deadlines t) k then Failed (TimeoutError ''Request timed out'') else Pending)"
    using expire_from_effect [OF inv, of now "deadlines t"] by (elim exE conjE) (rule that)
  have "m_find ?ds k = (if expired now (deadlines t) k then None else m_find (deadlines t) k)" for k
    using m_find_filter [OF keys, of "\<lambda>(k, d). now < d" k] keys_ok_unique [OF keys, of now k]
    by (auto split: option.splits)
  moreover have "expire now t = (Inr (), u\<lparr>deadlines := ?ds\<rparr>)"
    by (simp add: expire_def u(1))
  moreover have "table_inv (u\<lparr>deadlines := ?ds\<rparr>)"
    using u(2) keys by (simp add: table_inv_deadlines)
  moreover have "settled_stays t (u\<lparr>deadlines := ?ds\<rparr>)"
    using u(3) by (simp add: settled_stays_def)
  ultimately show ?thesis
    using u(5-7) by (intro exI [of _ "u\<lparr>deadlines := ?ds\<rparr>"]) simp
qed

section \<open>The table as a state machine\<close>

inductive table_step :: "'k request_table \<Rightarrow> 'k request_table \<Rightarrow> bool" where
  register: "table_step t (snd (register_request k dl t))"
| complete: "table_step t (snd (complete_request k p t))"
| abort: "table_step t (snd (abort_request k e t))"
| fail: "table_step t (snd (fail_where P e t))"
| expire: "table_step t (snd (expire now t))"

inductive_cases table_stepE: "table_step t u"

lemma table_step_inv: "table_inv t \<Longrightarrow> table_step t u \<Longrightarrow> table_inv u \<and> settled_stays t u"
proof (erule table_stepE)
  fix P e assume inv: "table_inv t"
  show "u = snd (fail_where P e t) \<Longrightarrow> table_inv u \<and> settled_stays t u"
    using fail_where_effect [OF inv, of P e] by auto
next
  fix now assume inv: "table_inv t"
  show "u = snd (Requests.expire now t) \<Longrightarrow> table_inv u \<and> settled_stays t u"
    using expire_effect [OF inv, of now] by auto
qed (simp_all add: register_request_inv complete_request_inv abort_request_inv)

lemma table_steps_inv: "table_step\<^sup>*\<^sup>* t u \<Longrightarrow> table_inv t \<Longrightarrow> table_inv u \<and> settled_stays t u"
proof (induction rule: rtranclp_induct)
  case (step u v)
  then show ?case using table_step_inv [of u v] settled_stays_trans [of t u v] by blast
qed simp

text \<open>
  A component that keeps its requests in a table: it starts with the empty table and every one of
  its steps acts on the table only through the operations above. What a caller can rely on is
  proved once here.
\<close>

locale request_tracker =
  fixes init :: "'s \<Rightarrow> bool"
    and step :: "'s \<Rightarrow> 's \<Rightarrow> bool"
    and table :: "'s \<Rightarrow> 'k request_table"
  assumes init_table: "init s \<Longrightarrow> table s = empty_table"
    and step_table: "step s t \<Longrightarrow> table_step\<^sup>*\<^sup>* (table s) (table t)"
begin

lemma steps_table: "step\<^sup>*\<^sup>* s t \<Longrightarrow> table_step\<^sup>*\<^sup>* (table s) (table t)"
  by (induction rule: rtranclp_induct) (auto dest: step_table intro: rtranclp_trans)

lemma reachable_table: "init s \<Longrightarrow> step\<^sup>*\<^sup>* s t \<Longrightarrow> table_inv (table t)"
  using steps_table [of s t] table_steps_inv [of "table s" "table t"] by (simp add: init_table)

lemma future_stable:
  "init s \<Longrightarrow> step\<^sup>*\<^sup>* s t \<Longrightarrow> step\<^sup>*\<^sup>* t u \<Longrightarrow> settled_stays (table t) (table u)"
  using reachable_table [of s t] steps_table [of t u] table_steps_inv [of "table t" "table u"] by blast

text \<open>No promise is ever completed twice, and none that is still open has been forgotten.\<close>

lemma never_twice:
  assumes "init s" and "step\<^sup>*\<^sup>* s t"
  shows "fst (complete_request k p (table t)) \<noteq> Inl e \<and> fst (abort_request k e' (table t)) \<noteq> Inl e
     \<and> fst (fail_where P e' (table t)) \<noteq> Inl e \<and> fst (expire now (table t)) \<noteq> Inl e"
proof -
  have inv: "table_inv (table t)" using reachable_table [OF assms] .
  show ?thesis
    using fail_where_effect [OF inv, of P e'] expire_effect [OF inv, of now]
    by (auto simp: complete_request_eq [OF inv] abort_request_eq [OF inv] split: option.splits)
qed

lemma open_futures_tracked:
  assumes "init s" and "step\<^sup>*\<^sup>* s t" and "pid < length (promises (table t))"
  shows "promises (table t) ! pid = Pending \<longleftrightarrow> (\<exists>k. m_find (pending (table t)) k = Some pid)"
  using waiting_in_pending [OF reachable_table [OF assms(1,2)], of pid] assms(3) by (simp add: waiting_def)

end

interpretation table_tracker: request_tracker "\<lambda>t. t = empty_table" table_step "\<lambda>t. t"
  by unfold_locales auto

section \<open>Request payloads\<close>

lemma with_request_id_eq [wire_simps]:
  "with_request_id rid p =
     Inr \<lparr>op_code = op_code p, parameters = framed (param_bytes (P_uint32 rid)) @ parameters p\<rparr>"
  using uint32_param.add_framed [of rid "PayloadBuilder 0"]
  by (simp add: with_request_id_def build_def insert_end_def PayloadBuilder_def)

text \<open>A handler that reads the identifier first gets the one that was sent, and then sees the
  caller's parameters.\<close>

lemma with_request_id_read:
  assumes "with_request_id rid p = Inr q"
  shows "op_code q = op_code p \<and> (\<exists>r. read_param_uint32 (PayloadReader q) = (Inr rid, r)
     \<and> drop (offset r) (params_data r) = parameters p \<and> params_data r = parameters q)"
proof -
  let ?f = "framed (rev (store_le 4 rid))"
  have q: "q = \<lparr>op_code = op_code p, parameters = ?f @ parameters p\<rparr>"
    using assms by (simp add: with_request_id_eq)
  have "read_param_uint32 \<lparr>params_data = ?f @ parameters p, offset = 0\<rparr>
      = (Inr rid, \<lparr>params_data = ?f @ parameters p, offset = 6\<rparr>)"
    using uint32_param.rd_framed [of rid "[]" "parameters p"] by simp
  moreover have "drop 6 (?f @ parameters p) = parameters p" by simp
  ultimately show ?thesis by (simp add: q PayloadReader_def)
qed

end
