(* ===== verification/Dispatch.thy ===== *)
theory Dispatch
  imports Config Stream Requests Version
begin

text \<open>
  What \<^verbatim>\<open>WsClientWrapper\<close> and \<^verbatim>\<open>WsServerWrapper\<close> do alike with payloads, by code that
  \<^verbatim>\<open>ws_client.cpp\<close> and \<^verbatim>\<open>ws_server.cpp\<close> both contain: the size limit, the payloads of responses and
  of new streams and how they are read, the choice of a handler, and what a synchronous request
  makes of its future.
\<close>

section \<open>The size limit\<close>

definition too_large :: "config \<Rightarrow> payload \<Rightarrow> bool" where
  "too_large cfg p \<longleftrightarrow>
     ml_enabled (message_limits cfg) \<and> max_decrypted_payload (message_limits cfg) > 0
     \<and> length (parameters p) > unat (max_decrypted_payload (message_limits cfg))"

section \<open>Futures\<close>

text \<open>What \<^verbatim>\<open>sync_request\<close> does with the future once it is ready or the timeout has passed: it
  returns or throws, or (\<open>None\<close>) blocks on.\<close>

fun future_get :: "promise_state \<Rightarrow> payload result option" where
  "future_get Pending = None"
| "future_get (Value p) = Some (Inr p)"
| "future_get (Failed e) = Some (Inl e)"

definition sync_result :: "u32 \<Rightarrow> promise_state \<Rightarrow> payload result option" where
  "sync_result effective_timeout st =
     (if effective_timeout = 0 then future_get st
      else if st = Pending then Some (Inl (TimeoutError ''Request timed out''))
      else future_get st)"

section \<open>Responses\<close>

definition response_payload :: "OpCode \<Rightarrow> u32 \<Rightarrow> payload \<Rightarrow> payload result" where
  "response_payload response_op request_id p =
     (case add_param_uint32 (PayloadBuilder response_op) request_id of
        Inl e \<Rightarrow> Inl e
      | Inr b \<Rightarrow>
          (case add_param_bytes b (payload_serialize p) of
             Inl e \<Rightarrow> Inl e
           | Inr b \<Rightarrow> Inr (fst (build b))))"

definition parse_response :: "payload \<Rightarrow> (u32 \<times> payload) result" where
  "parse_response p =
     (case read_param_uint32 (PayloadReader p) of
        (Inl e, _) \<Rightarrow> Inl e
      | (Inr request_id, reader) \<Rightarrow>
          (case read_param_bytes reader of
             (Inl e, _) \<Rightarrow> Inl e
           | (Inr response_bytes, _) \<Rightarrow>
               (case payload_deserialize response_bytes of
                  Inl e \<Rightarrow> Inl e
                | Inr response \<Rightarrow> Inr (request_id, response))))"

section \<open>Streams\<close>

definition stream_start_payload :: "OpCode \<Rightarrow> u32 \<Rightarrow> OpCode option \<Rightarrow> payload result" where
  "stream_start_payload start_op sid op =
     (case add_param_uint32 (PayloadBuilder start_op) sid of
        Inl e \<Rightarrow> Inl e
      | Inr b \<Rightarrow>
          (case op of
             None \<Rightarrow> Inr (fst (build b))
           | Some code \<Rightarrow>
               (case add_param_uint16 b code of
                  Inl e \<Rightarrow> Inl e
                | Inr b \<Rightarrow> Inr (fst (build b)))))"

definition supports_stream_op :: "version option \<Rightarrow> bool" where
  "supports_stream_op v = (case v of Some v \<Rightarrow> v \<ge> V1_1 | None \<Rightarrow> False)"

text \<open>The handler for an incoming stream: a registered (even if empty) handler of its opcode hides
  the general one.\<close>

definition select_stream_handler ::
  "(OpCode, nat option) amap \<Rightarrow> nat option \<Rightarrow> OpCode option \<Rightarrow> nat option" where
  "select_stream_handler handlers incoming op =
     (case op of
        None \<Rightarrow> incoming
      | Some code \<Rightarrow> (case m_find handlers code of Some h \<Rightarrow> h | None \<Rightarrow> incoming))"

definition is_stream_op :: "reserved_opcodes \<Rightarrow> OpCode \<Rightarrow> bool" where
  "is_stream_op oc op \<longleftrightarrow> op = STREAM_START oc \<or> op = STREAM_DATA oc \<or> op = STREAM_END oc \<or> op = STREAM_CANCEL oc"

section \<open>Handlers\<close>

definition call_if :: "nat option \<Rightarrow> (nat \<Rightarrow> 's \<Rightarrow> unit result \<times> 's) \<Rightarrow> 's \<Rightarrow> unit result \<times> 's" where
  "call_if h run s = (case h of Some n \<Rightarrow> run n s | None \<Rightarrow> (Inr (), s))"

text \<open>The handler of a payload: a request handler, else an opcode handler, else the default one. An
  entry with an empty function counts as registered and does nothing.\<close>

datatype handler = Request_handler nat | Op_handler nat | Nothing

definition select_handler ::
  "(OpCode, nat option) amap \<Rightarrow> (OpCode, nat option) amap \<Rightarrow> nat option \<Rightarrow> OpCode \<Rightarrow> handler" where
  "select_handler request_hs op_hs default_h op =
     (case m_find request_hs op of
        Some h \<Rightarrow> (case h of Some n \<Rightarrow> Request_handler n | None \<Rightarrow> Nothing)
      | None \<Rightarrow>
          (case m_find op_hs op of
             Some h \<Rightarrow> (case h of Some n \<Rightarrow> Op_handler n | None \<Rightarrow> Nothing)
           | None \<Rightarrow> (case default_h of Some n \<Rightarrow> Op_handler n | None \<Rightarrow> Nothing)))"

section \<open>What is written is read back\<close>

lemma response_payload_eq [wire_simps]:
  "response_payload op rid p =
     (if length (parameters p) \<le> 65533
      then Inr (framed_params op [P_uint32 rid, P_bytes (payload_serialize p)])
      else Inl (RuntimeError ''Parameter size exceeds maximum of 65535 bytes.''))"
  by (simp add: response_payload_def add_uint32_framed add_param_bytes_ok bytes_param.add_too_long
      insert_end_def build_def PayloadBuilder_def framed_params_def)

lemma parse_response_framed:
  assumes "length (parameters p) \<le> 65533"
  shows "parse_response (framed_params op [P_uint32 rid, P_bytes (payload_serialize p)]) = Inr (rid, p)"
proof -
  let ?xs = "[P_uint32 rid, P_bytes (payload_serialize p)]"
  obtain r where "read_params [T_uint32, T_bytes] (PayloadReader (framed_params op ?xs)) = (Inr ?xs, r)"
    using framed_params_read [of ?xs op] assms by (auto simp: fits_bytes)
  then show ?thesis
    by (auto simp: parse_response_def map_fst_def split: prod.splits sum.splits)
qed

lemma stream_start_payload_eq [wire_simps]:
  "stream_start_payload start_op sid op =
     Inr (framed_params start_op (P_uint32 sid # (case op of None \<Rightarrow> [] | Some code \<Rightarrow> [P_uint16 code])))"
  using uint16_param.add_framed
  by (simp add: stream_start_payload_def add_uint32_framed
      insert_end_def build_def PayloadBuilder_def framed_params_def split: option.split)

lemma read_params_uint32:
  assumes "read_params (T_uint32 # ts) r = (Inr (P_uint32 x # xs), r')"
  shows "\<exists>r1. read_param_uint32 r = (Inr x, r1) \<and> read_params ts r1 = (Inr xs, r')"
proof (cases "read_param_uint32 r")
  case (Pair y r1)
  then show ?thesis
    using assms by (cases y; cases "read_params ts r1"; cases "fst (read_params ts r1)") (auto simp: map_fst_def)
qed

text \<open>How a receiver reads the start of a stream: the identifier, then the opcode if there is one.\<close>

lemma stream_start_read:
  "\<exists>r. read_param_uint32 (PayloadReader (framed_params start_op (P_uint32 sid #
            (case op of None \<Rightarrow> [] | Some code \<Rightarrow> [P_uint16 code])))) = (Inr sid, r)
     \<and> (if has_more r then map_sum id Some (fst (read_param_uint16 r)) else Inr None) = Inr op"
proof (cases op)
  case None
  then obtain r where "read_params [T_uint32] (PayloadReader (framed_params start_op [P_uint32 sid]))
      = (Inr [P_uint32 sid], r)" "\<not> has_more r"
    using framed_params_read [of "[P_uint32 sid]" start_op] by auto
  then show ?thesis
    using None read_params_uint32 [of "[]" "PayloadReader (framed_params start_op [P_uint32 sid])" sid "[]" r]
    by auto
next
  case (Some code)
  let ?p = "framed_params start_op [P_uint32 sid, P_uint16 code]"
  obtain r' where "read_params [T_uint32, T_uint16] (PayloadReader ?p) = (Inr [P_uint32 sid, P_uint16 code], r')"
    using framed_params_read [of "[P_uint32 sid, P_uint16 code]" start_op] by auto
  then obtain r where r: "read_param_uint32 (PayloadReader ?p) = (Inr sid, r)"
      "read_params [T_uint16] r = (Inr [P_uint16 code], r')"
    using read_params_uint32 by blast
  then have "has_more r \<and> fst (read_param_uint16 r) = Inr code"
    by (auto simp: map_fst_def read_param_uint16_def read_param_def read_param_bytes_def has_more_def
        split: prod.splits sum.splits if_splits)
  with r Some show ?thesis by auto
qed

end
