(* ===== verification/WsClient.thy ===== *)
theory WsClient
  imports Session Dispatch
begin

text \<open>
  \<^verbatim>\<open>WsClientWrapper\<close> (\<^verbatim>\<open>ws_client.hpp\<close>, \<^verbatim>\<open>ws_client.cpp\<close>): the connection life cycle, requests with
  deadlines, streams and message dispatch on top of one session. A method is a function on the
  wrapper's members that returns its result or exception and the members as it leaves them.

  websocketpp and the user's callbacks are parameters, the record \<open>client_env\<close>: whether the
  \<open>n\<close>-th frame handed to the transport is taken or refused with an exception, and what each
  callback (named by a number) returns and does to the client. Callbacks act on the client through
  its public methods only (\<open>callbacks_ok\<close>). \<^verbatim>\<open>async_request\<close> and \<^verbatim>\<open>disconnect\<close> are split at the
  points where another thread can intervene, so that the step relation interleaves them.
\<close>

section \<open>State\<close>

record client =
  c_config :: config
  c_session :: session
  c_identity :: "key_pair option"
  client_thread :: bool
  is_connected :: bool
  io_stopped :: bool
  on_ready_callback :: "nat option"
  on_disconnect_callback :: "nat option"
  c_op_code_handlers :: "(OpCode, nat option) amap"
  c_request_handlers :: "(OpCode, nat option) amap"
  c_default_payload_handler :: "nat option"
  c_requests :: "u32 request_table"
  c_next_request_id :: u32
  watchdog_thread :: bool
  watchdog_started :: bool
  watchdog_stop :: bool
  c_streams :: "unit stream list"
  active_streams :: "(u32, nat) amap"
  c_incoming_stream_handler :: "nat option"
  c_stream_handlers :: "(OpCode, nat option) amap"
  c_next_outgoing_stream_id :: u32
  c_sent :: "byte_vector list"
  c_net_calls :: nat
  c_draws :: nat

record client_env =
  ce_sodium :: sodium
  ce_transport :: "nat \<Rightarrow> exn option"
  ce_ready :: "nat \<Rightarrow> client \<Rightarrow> unit result \<times> client"
  ce_disconnect :: "nat \<Rightarrow> client \<Rightarrow> unit result \<times> client"
  ce_payload :: "nat \<Rightarrow> payload \<Rightarrow> client \<Rightarrow> unit result \<times> client"
  ce_request :: "nat \<Rightarrow> payload_reader \<Rightarrow> client \<Rightarrow> payload result \<times> client"
  ce_stream :: "nat \<Rightarrow> nat \<Rightarrow> client \<Rightarrow> unit result \<times> client"
  ce_stream_data :: "nat \<Rightarrow> byte_vector \<Rightarrow> client \<Rightarrow> unit result \<times> client"
  ce_stream_end :: "nat \<Rightarrow> client \<Rightarrow> unit result \<times> client"
  ce_stream_cancel :: "nat \<Rightarrow> client \<Rightarrow> unit result \<times> client"

definition WsClientWrapper :: "key_pair \<Rightarrow> config \<Rightarrow> client" where
  "WsClientWrapper sign_key cfg =
     \<lparr>c_config = cfg, c_session = Session CLIENT sign_key (cfg_supported_versions cfg), c_identity = None,
      client_thread = False, is_connected = False, io_stopped = False, on_ready_callback = None,
      on_disconnect_callback = None, c_op_code_handlers = [], c_request_handlers = [],
      c_default_payload_handler = None, c_requests = empty_table, c_next_request_id = 0,
      watchdog_thread = False, watchdog_started = False, watchdog_stop = False, c_streams = [],
      active_streams = [], c_incoming_stream_handler = None, c_stream_handlers = [],
      c_next_outgoing_stream_id = 0, c_sent = [], c_net_calls = 0, c_draws = 0\<rparr>"

section \<open>Connection life cycle\<close>

text \<open>\<^verbatim>\<open>connect\<close>, given the exception (if any) of creating the connection. A previous connection
  thread is joined before the handle is replaced.\<close>

definition client_connect :: "exn option \<Rightarrow> client \<Rightarrow> unit result \<times> client" where
  "client_connect failure c =
     (case failure of
        Some e \<Rightarrow> if is_std_exception e then (Inr (), c) else (Inl e, c)
      | None \<Rightarrow> (Inr (), c\<lparr>client_thread := True\<rparr>))"

definition set_client_identity :: "key_pair \<Rightarrow> client \<Rightarrow> client" where
  "set_client_identity identity_kp c = c\<lparr>c_identity := Some identity_kp\<rparr>"

definition stop_watchdog :: "client \<Rightarrow> client" where
  "stop_watchdog c =
     (if \<not> watchdog_thread c then c\<lparr>watchdog_started := False\<rparr>
      else let c = c\<lparr>watchdog_stop := True\<rparr>
           in c\<lparr>watchdog_thread := False, watchdog_started := False\<rparr>)"

text \<open>\<^verbatim>\<open>disconnect\<close> up to the close of the connection, and from the join of the connection thread
  on; \<open>from_io\<close> tells whether it runs on that thread itself. The result of closing is ignored by
  the code.\<close>

definition disconnect_begin :: "client \<Rightarrow> unit result \<times> client" where
  "disconnect_begin c =
     (let c = c\<lparr>io_stopped := True\<rparr> in
      case fail_where (\<lambda>_. True) (RuntimeError ''Client disconnected'') (c_requests c) of
        (r, t) \<Rightarrow> (r, c\<lparr>c_requests := t\<rparr>))"

definition disconnect_finish :: "bool \<Rightarrow> client \<Rightarrow> client" where
  "disconnect_finish from_io c =
     (if from_io then c\<lparr>is_connected := False\<rparr>
      else stop_watchdog (c\<lparr>client_thread := False, is_connected := False\<rparr>))"

definition client_disconnect :: "bool \<Rightarrow> client \<Rightarrow> unit result \<times> client" where
  "client_disconnect from_io c =
     (if \<not> client_thread c then (Inr (), c)
      else and_then (disconnect_begin c) (\<lambda>_ c. (Inr (), disconnect_finish from_io c)))"

section \<open>The watchdog\<close>

definition ensure_watchdog :: "client \<Rightarrow> client" where
  "ensure_watchdog c =
     (if watchdog_started c then c
      else c\<lparr>watchdog_started := True, watchdog_stop := False, watchdog_thread := True\<rparr>)"

fun earliest_deadline :: "int option \<Rightarrow> (u32, int) amap \<Rightarrow> int option" where
  "earliest_deadline earliest [] = earliest"
| "earliest_deadline earliest ((rid, deadline) # ds) =
     earliest_deadline
       (case earliest of
          None \<Rightarrow> Some deadline
        | Some e \<Rightarrow> if deadline < e then Some deadline else Some e) ds"

text \<open>One round of \<^verbatim>\<open>watchdog_loop\<close> at the clock reading \<open>now\<close>, between two waits on the
  condition variable.\<close>

definition watchdog_iteration :: "int \<Rightarrow> client \<Rightarrow> unit result \<times> client" where
  "watchdog_iteration now c =
     (if \<not> watchdog_thread c \<or> watchdog_stop c then (Inr (), c)
      else case earliest_deadline None (deadlines (c_requests c)) of
             None \<Rightarrow> (Inr (), c)
           | Some earliest \<Rightarrow>
               if now \<ge> earliest
               then (case expire now (c_requests c) of (r, t) \<Rightarrow> (r, c\<lparr>c_requests := t\<rparr>))
               else (Inr (), c))"

section \<open>Sending\<close>

definition client_transport :: "client_env \<Rightarrow> byte_vector \<Rightarrow> client \<Rightarrow> unit result \<times> client" where
  "client_transport E frame c =
     (case ce_transport E (c_net_calls c) of
        Some e \<Rightarrow> (Inl e, c\<lparr>c_net_calls := c_net_calls c + 1\<rparr>)
      | None \<Rightarrow> (Inr (), c\<lparr>c_net_calls := c_net_calls c + 1, c_sent := c_sent c @ [frame]\<rparr>))"

definition client_encrypt :: "client_env \<Rightarrow> payload \<Rightarrow> client \<Rightarrow> byte_vector result \<times> client" where
  "client_encrypt E p c =
     (case encrypt_payload (ce_sodium E) (c_draws c) p (c_session c) of
        (r, s) \<Rightarrow> (r, c\<lparr>c_session := s, c_draws := c_draws c + 1\<rparr>))"

definition client_send :: "client_env \<Rightarrow> payload \<Rightarrow> client \<Rightarrow> unit result \<times> client" where
  "client_send E p c =
     (if \<not> is_connected c \<or> \<not> is_handshake_complete (c_session c)
      then (Inl (LogicError ''Session not ready for sending data.''), c)
      else if too_large (c_config c) p
      then (Inl (LogicError ''Payload exceeds max_decrypted_payload limit.''), c)
      else catch_std (and_then (client_encrypt E p c) (client_transport E)) (\<lambda>c. (Inr (), c)))"

text \<open>\<^verbatim>\<open>async_request\<close>: up to the registration of the promise, then the send. The future is the
  number of its promise.\<close>

definition async_request_begin ::
  "int \<Rightarrow> payload \<Rightarrow> u32 \<Rightarrow> client \<Rightarrow> (u32 \<times> nat \<times> payload) result \<times> client" where
  "async_request_begin now p timeout_ms c =
     (if \<not> is_connected c \<or> \<not> is_handshake_complete (c_session c)
      then (Inl (LogicError ''Session not ready for sending requests.''), c)
      else let request_id = c_next_request_id c;
               c = c\<lparr>c_next_request_id := request_id + 1\<rparr> in
      case with_request_id request_id p of
        Inl e \<Rightarrow> (Inl e, c)
      | Inr request_payload \<Rightarrow>
          let effective_timeout =
                resolve_request_timeout (to_enabled (timeouts (c_config c))) (request_ms (timeouts (c_config c)))
                  timeout_ms in
          case register_request request_id (deadline_at now effective_timeout) (c_requests c) of
            (pid, t) \<Rightarrow>
              let c = c\<lparr>c_requests := t\<rparr>;
                  c = (if effective_timeout > 0 then ensure_watchdog c else c)
              in (Inr (request_id, pid, request_payload), c))"

definition async_request_send ::
  "client_env \<Rightarrow> u32 \<Rightarrow> payload \<Rightarrow> client \<Rightarrow> unit result \<times> client" where
  "async_request_send E request_id request_payload c =
     (case client_send E request_payload c of
        (Inr _, c) \<Rightarrow> (Inr (), c)
      | (Inl e, c) \<Rightarrow>
          (case abort_request request_id e (c_requests c) of
             (Inl e', t) \<Rightarrow> (Inl e', c\<lparr>c_requests := t\<rparr>)
           | (Inr _, t) \<Rightarrow> (Inl e, c\<lparr>c_requests := t\<rparr>)))"

definition client_async_request ::
  "client_env \<Rightarrow> int \<Rightarrow> payload \<Rightarrow> u32 \<Rightarrow> client \<Rightarrow> nat result \<times> client" where
  "client_async_request E now p timeout_ms c =
     and_then (async_request_begin now p timeout_ms c)
       (\<lambda>(request_id, pid, request_payload) c.
          and_then (async_request_send E request_id request_payload c) (\<lambda>_ c. (Inr pid, c)))"

text \<open>\<^verbatim>\<open>sync_request\<close>, given what the other threads do to the client (\<open>wait\<close>) until the future is
  ready or the timeout has passed; \<open>None\<close> when it blocks on.\<close>

definition client_sync_request ::
  "client_env \<Rightarrow> (client \<Rightarrow> client) \<Rightarrow> int \<Rightarrow> payload \<Rightarrow> u32 \<Rightarrow> client \<Rightarrow> (payload result \<times> client) option" where
  "client_sync_request E wait now p timeout_ms c =
     (case client_async_request E now p timeout_ms c of
        (Inl e, c) \<Rightarrow> Some (Inl e, c)
      | (Inr pid, c) \<Rightarrow>
          let effective_timeout =
                resolve_request_timeout (to_enabled (timeouts (c_config c))) (request_ms (timeouts (c_config c)))
                  timeout_ms;
              c = wait c
          in map_option (\<lambda>r. (r, c)) (sync_result effective_timeout (promises (c_requests c) ! pid)))"

definition client_send_response :: "client_env \<Rightarrow> u32 \<Rightarrow> payload \<Rightarrow> client \<Rightarrow> unit result \<times> client" where
  "client_send_response E request_id p c =
     (case response_payload (RESPONSE (opcodes (c_config c))) request_id p of
        Inl e \<Rightarrow> (Inl e, c)
      | Inr q \<Rightarrow> client_send E q c)"

section \<open>Streams\<close>

text \<open>A new stream object, entered in the map of active streams; its reference.\<close>

definition client_add_stream :: "u32 \<Rightarrow> OpCode option \<Rightarrow> client \<Rightarrow> nat \<times> client" where
  "client_add_stream sid op c =
     (let ref = length (c_streams c)
      in (ref, c\<lparr>c_streams := c_streams c @ [Stream sid () op],
                 active_streams := m_put sid ref (active_streams c)\<rparr>))"

definition client_start_stream :: "client_env \<Rightarrow> client \<Rightarrow> nat result \<times> client" where
  "client_start_stream E c =
     (let sid = c_next_outgoing_stream_id c * 2;
          c = c\<lparr>c_next_outgoing_stream_id := c_next_outgoing_stream_id c + 1\<rparr> in
      case client_add_stream sid None c of
        (ref, c) \<Rightarrow>
          (case stream_start_payload (STREAM_START (opcodes (c_config c))) sid None of
             Inl e \<Rightarrow> (Inl e, c)
           | Inr p \<Rightarrow> and_then (client_send E p c) (\<lambda>_ c. (Inr ref, c))))"

definition client_start_stream_op :: "client_env \<Rightarrow> OpCode \<Rightarrow> client \<Rightarrow> nat result \<times> client" where
  "client_start_stream_op E stream_op c =
     (let sid = c_next_outgoing_stream_id c * 2;
          c = c\<lparr>c_next_outgoing_stream_id := c_next_outgoing_stream_id c + 1\<rparr> in
      case client_add_stream sid (Some stream_op) c of
        (ref, c) \<Rightarrow>
          (case stream_start_payload (STREAM_START (opcodes (c_config c))) sid
                  (if supports_stream_op (get_selected_version (c_session c)) then Some stream_op else None) of
             Inl e \<Rightarrow> (Inl e, c)
           | Inr p \<Rightarrow> and_then (client_send E p c) (\<lambda>_ c. (Inr ref, c))))"

section \<open>Registration of handlers\<close>

definition client_register_stream_handler :: "OpCode \<Rightarrow> nat option \<Rightarrow> client \<Rightarrow> client" where
  "client_register_stream_handler op h c = c\<lparr>c_stream_handlers := m_put op h (c_stream_handlers c)\<rparr>"

definition client_register_incoming_stream_handler :: "nat option \<Rightarrow> client \<Rightarrow> client" where
  "client_register_incoming_stream_handler h c = c\<lparr>c_incoming_stream_handler := h\<rparr>"

definition set_on_ready_callback :: "nat option \<Rightarrow> client \<Rightarrow> client" where
  "set_on_ready_callback h c = c\<lparr>on_ready_callback := h\<rparr>"

definition client_register_op_handler :: "OpCode \<Rightarrow> nat option \<Rightarrow> client \<Rightarrow> client" where
  "client_register_op_handler op h c = c\<lparr>c_op_code_handlers := m_put op h (c_op_code_handlers c)\<rparr>"

definition client_register_request_handler :: "OpCode \<Rightarrow> nat option \<Rightarrow> client \<Rightarrow> client" where
  "client_register_request_handler op h c = c\<lparr>c_request_handlers := m_put op h (c_request_handlers c)\<rparr>"

definition client_set_default_payload_handler :: "nat option \<Rightarrow> client \<Rightarrow> client" where
  "client_set_default_payload_handler h c = c\<lparr>c_default_payload_handler := h\<rparr>"

definition set_on_disconnect_callback :: "nat option \<Rightarrow> client \<Rightarrow> client" where
  "set_on_disconnect_callback h c = c\<lparr>on_disconnect_callback := h\<rparr>"

section \<open>Events\<close>

definition client_initiate :: "client_env \<Rightarrow> client \<Rightarrow> client_hello result \<times> client" where
  "client_initiate E c =
     (case client_initiate_handshake (ce_sodium E) (c_draws c) (c_session c) of
        (r, s) \<Rightarrow> (r, c\<lparr>c_session := s, c_draws := c_draws c + 1\<rparr>))"

definition client_on_open :: "client_env \<Rightarrow> client \<Rightarrow> unit result \<times> client" where
  "client_on_open E c =
     (let c = c\<lparr>is_connected := True\<rparr> in
      catch_std
        (and_then
           (case c_identity c of
              None \<Rightarrow> (Inr (), c)
            | Some kp \<Rightarrow>
                (case set_client_identity_key kp (c_session c) of (r, s) \<Rightarrow> (r, c\<lparr>c_session := s\<rparr>)))
           (\<lambda>_ c. and_then (client_initiate E c)
              (\<lambda>hello c. client_transport E (client_hello_serialize hello) c)))
        (client_disconnect True))"

definition client_on_close :: "client_env \<Rightarrow> client \<Rightarrow> unit result \<times> client" where
  "client_on_close E c =
     (let c = c\<lparr>is_connected := False\<rparr> in call_if (on_disconnect_callback c) (ce_disconnect E) c)"

definition client_on_fail :: "client_env \<Rightarrow> client \<Rightarrow> unit result \<times> client" where
  "client_on_fail E c =
     (let c = c\<lparr>is_connected := False\<rparr> in call_if (on_disconnect_callback c) (ce_disconnect E) c)"

text \<open>The branches of \<^verbatim>\<open>on_message\<close>: the ServerHello, a response, a stream message, any other
  payload. A read of a parameter hands on the reader.\<close>

definition client_on_server_hello :: "client_env \<Rightarrow> byte_vector \<Rightarrow> client \<Rightarrow> unit result \<times> client" where
  "client_on_server_hello E data c =
     (case server_hello_deserialize data of
        Inl e \<Rightarrow> (Inl e, c)
      | Inr hello \<Rightarrow>
          and_then
            (case client_finalize_handshake (ce_sodium E) hello (c_session c) of
               (r, s) \<Rightarrow> (r, c\<lparr>c_session := s\<rparr>))
            (\<lambda>_ c. if is_handshake_complete (c_session c)
                   then call_if (on_ready_callback c) (ce_ready E) c else (Inr (), c)))"

definition client_on_response :: "payload \<Rightarrow> client \<Rightarrow> unit result \<times> client" where
  "client_on_response p c =
     (case parse_response p of
        Inl e \<Rightarrow> (Inl e, c)
      | Inr (request_id, response) \<Rightarrow>
          (case complete_request request_id response (c_requests c) of
             (r, t) \<Rightarrow> (map_sum id (\<lambda>_. ()) r, c\<lparr>c_requests := t\<rparr>)))"

definition client_on_stream_start :: "client_env \<Rightarrow> u32 \<Rightarrow> payload_reader \<Rightarrow> client \<Rightarrow> unit result \<times> client" where
  "client_on_stream_start E sid reader c =
     (case (if has_more reader then map_sum id Some (fst (read_param_uint16 reader)) else Inr None) of
        Inl e \<Rightarrow> (Inl e, c)
      | Inr op \<Rightarrow>
          (case client_add_stream sid op c of
             (ref, c) \<Rightarrow>
               call_if (select_stream_handler (c_stream_handlers c) (c_incoming_stream_handler c) op)
                 (\<lambda>h. ce_stream E h ref) c))"

definition find_stream :: "u32 \<Rightarrow> client \<Rightarrow> unit stream option" where
  "find_stream sid c = map_option (\<lambda>ref. c_streams c ! ref) (m_find (active_streams c) sid)"

definition client_on_stream :: "client_env \<Rightarrow> payload \<Rightarrow> client \<Rightarrow> unit result \<times> client" where
  "client_on_stream E p c =
     (let oc = opcodes (c_config c) in
      case read_param_uint32 (PayloadReader p) of
        (Inl e, _) \<Rightarrow> (Inl e, c)
      | (Inr sid, reader) \<Rightarrow>
          if op_code p = STREAM_START oc then client_on_stream_start E sid reader c
          else if op_code p = STREAM_DATA oc
          then (case fst (read_param_bytes reader) of
                  Inl e \<Rightarrow> (Inl e, c)
                | Inr data \<Rightarrow>
                    (case find_stream sid c of
                       None \<Rightarrow> (Inr (), c)
                     | Some st \<Rightarrow> dispatch_data (ce_stream_data E) st data c))
          else if op_code p = STREAM_END oc
          then (case find_stream sid c of
                  None \<Rightarrow> (Inr (), c)
                | Some st \<Rightarrow> dispatch_end (ce_stream_end E) st c)
          else if op_code p = STREAM_CANCEL oc
          then (case find_stream sid c of
                  None \<Rightarrow> (Inr (), c)
                | Some st \<Rightarrow>
                    dispatch_cancel (ce_stream_cancel E) st
                      (c\<lparr>active_streams := m_erase sid (active_streams c)\<rparr>))
          else (Inr (), c))"

definition client_dispatch_payload :: "client_env \<Rightarrow> payload \<Rightarrow> client \<Rightarrow> unit result \<times> client" where
  "client_dispatch_payload E p c =
     (case select_handler (c_request_handlers c) (c_op_code_handlers c) (c_default_payload_handler c) (op_code p) of
        Request_handler h \<Rightarrow>
          (case read_param_uint32 (PayloadReader p) of
             (Inl e, _) \<Rightarrow> (Inl e, c)
           | (Inr request_id, reader) \<Rightarrow>
               and_then (ce_request E h reader c) (\<lambda>response c. client_send_response E request_id response c))
      | Op_handler h \<Rightarrow> ce_payload E h p c
      | Nothing \<Rightarrow> (Inr (), c))"

definition client_on_payload :: "client_env \<Rightarrow> payload \<Rightarrow> client \<Rightarrow> unit result \<times> client" where
  "client_on_payload E p c =
     (if too_large (c_config c) p then client_disconnect True c
      else if op_code p = RESPONSE (opcodes (c_config c)) then client_on_response p c
      else if is_stream_op (opcodes (c_config c)) (op_code p) then client_on_stream E p c
      else client_dispatch_payload E p c)"

definition client_on_message :: "client_env \<Rightarrow> bool \<Rightarrow> byte_vector \<Rightarrow> client \<Rightarrow> unit result \<times> client" where
  "client_on_message E binary data c =
     (if \<not> binary then (Inr (), c)
      else catch_std
        (if \<not> is_handshake_complete (c_session c) then client_on_server_hello E data c
         else and_then
           (case decrypt_packet (ce_sodium E) data (c_session c) of (r, s) \<Rightarrow> (r, c\<lparr>c_session := s\<rparr>))
           (client_on_payload E))
        (client_disconnect True))"

section \<open>The client as a state machine\<close>

text \<open>
  Calls of the public methods, by any thread and from callbacks. The two halves of a request and
  of a disconnect are steps of their own; a stream's outgoing methods act through \<open>client_send\<close>.
\<close>

inductive api_step :: "client_env \<Rightarrow> client \<Rightarrow> client \<Rightarrow> bool" for E :: client_env where
  send: "api_step E c (snd (client_send E p c))"
| request_begin: "api_step E c (snd (async_request_begin now p timeout_ms c))"
| request_send: "api_step E c (snd (async_request_send E rid q c))"
| respond: "api_step E c (snd (client_send_response E rid p c))"
| start_stream: "api_step E c (snd (client_start_stream E c))"
| start_stream_op: "api_step E c (snd (client_start_stream_op E op c))"
| stream_write: "api_step E c (snd (stream_write (\<lambda>_. client_send E) (st :: unit stream) data c))"
| stream_end: "api_step E c (snd (stream_end (\<lambda>_. client_send E) (st :: unit stream) c))"
| stream_cancel: "api_step E c (snd (stream_cancel (\<lambda>_. client_send E) (st :: unit stream) c))"
| stream_handlers:
    "ref < length (c_streams c) \<Longrightarrow> f \<in> {set_data_handler h, set_end_handler h, set_cancel_handler h} \<Longrightarrow>
       api_step E c (c\<lparr>c_streams := (c_streams c)[ref := f (c_streams c ! ref)]\<rparr>)"
| disconnect_begin: "client_thread c \<Longrightarrow> api_step E c (snd (disconnect_begin c))"
| disconnect_finish: "api_step E c (disconnect_finish from_io c)"
| connect: "api_step E c (snd (client_connect failure c))"
| identity: "api_step E c (set_client_identity kp c)"
| register: "f \<in> {client_register_stream_handler op h, client_register_incoming_stream_handler h,
      set_on_ready_callback h, client_register_op_handler op h, client_register_request_handler op h,
      client_set_default_payload_handler h, set_on_disconnect_callback h} \<Longrightarrow> api_step E c (f c)"

inductive_cases api_stepE: "api_step E c d"

text \<open>Callbacks act on the client by calling its public methods.\<close>

definition callbacks_ok :: "client_env \<Rightarrow> bool" where
  "callbacks_ok E \<longleftrightarrow> sodium_ok (ce_sodium E) \<and>
     (\<forall>n c. (api_step E)\<^sup>*\<^sup>* c (snd (ce_ready E n c)) \<and> (api_step E)\<^sup>*\<^sup>* c (snd (ce_disconnect E n c))
        \<and> (\<forall>p. (api_step E)\<^sup>*\<^sup>* c (snd (ce_payload E n p c)))
        \<and> (\<forall>r. (api_step E)\<^sup>*\<^sup>* c (snd (ce_request E n r c)))
        \<and> (\<forall>ref. (api_step E)\<^sup>*\<^sup>* c (snd (ce_stream E n ref c)))
        \<and> (\<forall>bs. (api_step E)\<^sup>*\<^sup>* c (snd (ce_stream_data E n bs c)))
        \<and> (api_step E)\<^sup>*\<^sup>* c (snd (ce_stream_end E n c)) \<and> (api_step E)\<^sup>*\<^sup>* c (snd (ce_stream_cancel E n c)))"

inductive client_step :: "client \<Rightarrow> client \<Rightarrow> bool" where
  api: "sodium_ok (ce_sodium E) \<Longrightarrow> api_step E c d \<Longrightarrow> client_step c d"
| watchdog: "client_step c (snd (watchdog_iteration now c))"
| on_open: "callbacks_ok E \<Longrightarrow> client_step c (snd (client_on_open E c))"
| on_close: "callbacks_ok E \<Longrightarrow> client_step c (snd (client_on_close E c))"
| on_fail: "callbacks_ok E \<Longrightarrow> client_step c (snd (client_on_fail E c))"
| on_message: "callbacks_ok E \<Longrightarrow> client_step c (snd (client_on_message E binary data c))"

inductive_cases client_stepE: "client_step c d"

definition fresh_client :: "client \<Rightarrow> bool" where
  "fresh_client c \<longleftrightarrow> (\<exists>k cfg. c = WsClientWrapper k cfg)"

subsection \<open>Frames\<close>

lemmas client_send_unfold =
  client_send_def client_encrypt_def client_transport_def and_then_def catch_std_def

lemma client_send_fields [simp]:
  "c_config (snd (client_send E p c)) = c_config c"
  "c_requests (snd (client_send E p c)) = c_requests c"
  "c_streams (snd (client_send E p c)) = c_streams c"
  "active_streams (snd (client_send E p c)) = active_streams c"
  "c_next_outgoing_stream_id (snd (client_send E p c)) = c_next_outgoing_stream_id c"
  "c_next_request_id (snd (client_send E p c)) = c_next_request_id c"
  "watchdog_thread (snd (client_send E p c)) = watchdog_thread c"
  "watchdog_stop (snd (client_send E p c)) = watchdog_stop c"
  "is_connected (snd (client_send E p c)) = is_connected c"
  by (simp_all add: client_send_unfold split: prod.splits sum.splits option.splits)

lemma client_send_session:
  "c_session (snd (client_send E p c)) = c_session c
   \<or> c_session (snd (client_send E p c)) = snd (encrypt_payload (ce_sodium E) (c_draws c) p (c_session c))"
  by (auto simp: client_send_unfold split: prod.splits sum.splits option.splits)

subsection \<open>How the parts of the client evolve\<close>

text \<open>Every active stream is filed under its own identifier.\<close>

definition refs_ok :: "client \<Rightarrow> bool" where
  "refs_ok c \<longleftrightarrow> (\<forall>sid ref. m_find (active_streams c) sid = Some ref \<longrightarrow>
     ref < length (c_streams c) \<and> stream_id (c_streams c ! ref) = sid)"

text \<open>The requests change only through the operations of the table and the session only through
  its methods; the configuration is constant; streams stay filed properly; the keys of a completed
  handshake stay.\<close>

definition evolves :: "client \<Rightarrow> client \<Rightarrow> bool" where
  "evolves c d \<longleftrightarrow> table_step\<^sup>*\<^sup>* (c_requests c) (c_requests d) \<and> session_step\<^sup>*\<^sup>* (c_session c) (c_session d)
     \<and> c_config d = c_config c \<and> (refs_ok c \<longrightarrow> refs_ok d)
     \<and> (handshake_complete (c_session c) \<longrightarrow>
          handshake_complete (c_session d) \<and> sess_keys (c_session d) = sess_keys (c_session c))"

lemma evolves_refl [simp, intro]: "evolves c c"
  by (simp add: evolves_def)

lemma evolves_trans: "evolves b c \<Longrightarrow> evolves c d \<Longrightarrow> evolves b d"
  by (auto simp: evolves_def intro: rtranclp_trans)

lemma transp_evolves: "transp evolves"
  by (auto intro!: transpI dest: evolves_trans)

lemma evolvesI:
  "c_requests d = c_requests c \<Longrightarrow> c_session d = c_session c \<Longrightarrow> c_config d = c_config c \<Longrightarrow>
     c_streams d = c_streams c \<Longrightarrow> active_streams d = active_streams c \<Longrightarrow> evolves c d"
  by (simp add: evolves_def refs_ok_def)

lemma evolves_table:
  "table_step\<^sup>*\<^sup>* (c_requests c) t \<Longrightarrow> evolves c (c\<lparr>c_requests := t\<rparr>)"
  by (simp add: evolves_def refs_ok_def)

lemma evolves_session:
  "session_step (c_session c) s \<Longrightarrow>
     (handshake_complete (c_session c) \<Longrightarrow> handshake_complete s \<and> sess_keys s = sess_keys (c_session c)) \<Longrightarrow>
     evolves c (c\<lparr>c_session := s\<rparr>)"
  by (auto simp: evolves_def refs_ok_def)

text \<open>Only the two methods that complete a handshake touch the session keys.\<close>

lemma session_keys_kept:
  "sess_keys (snd (encrypt_payload S rnd p s)) = sess_keys s"
  "handshake_complete (snd (encrypt_payload S rnd p s)) = handshake_complete s"
  "sess_keys (snd (decrypt_packet S pkt s)) = sess_keys s"
  "handshake_complete (snd (decrypt_packet S pkt s)) = handshake_complete s"
  "sess_keys (snd (client_initiate_handshake S rnd s)) = sess_keys s"
  "handshake_complete (snd (client_initiate_handshake S rnd s)) = handshake_complete s"
  "sess_keys (snd (set_client_identity_key kp s)) = sess_keys s"
  "handshake_complete (snd (set_client_identity_key kp s)) = handshake_complete s"
  by (simp_all add: encrypt_payload_def decrypt_packet_def client_initiate_handshake_def
      set_client_identity_key_def Let_def split: option.splits sum.splits)

lemma evolves_send: "sodium_ok (ce_sodium E) \<Longrightarrow> evolves c (snd (client_send E p c))"
  using client_send_session [of E p c] session_step.encrypt [of "ce_sodium E" "c_session c" "c_draws c" p]
  by (auto simp: evolves_def refs_ok_def session_keys_kept)

lemma evolves_ensure_watchdog: "evolves c (ensure_watchdog c)"
  by (simp add: ensure_watchdog_def evolvesI)

lemma evolves_request_begin: "evolves c (snd (async_request_begin now p timeout_ms c))"
proof -
  have "table_step (c_requests c) t" if "register_request k dl (c_requests c) = (pid, t)" for k dl pid t
    using table_step.register [of "c_requests c" k dl] that by simp
  then show ?thesis
    by (auto simp: async_request_begin_def with_request_id_eq Let_def ensure_watchdog_def evolves_def refs_ok_def
        split: prod.splits)
qed

lemma evolves_request_send:
  assumes "sodium_ok (ce_sodium E)"
  shows "evolves c (snd (async_request_send E rid q c))"
proof -
  obtain r d where send: "client_send E q c = (r, d)" by fastforce
  have d: "evolves c d" using evolves_send [OF assms, of c q] send by simp
  have "table_step (c_requests d) (snd (abort_request rid e (c_requests d)))" for e
    by (rule table_step.abort)
  then have "evolves d (d\<lparr>c_requests := snd (abort_request rid e (c_requests d))\<rparr>)" for e
    by (intro evolves_table r_into_rtranclp)
  then have "evolves c (d\<lparr>c_requests := snd (abort_request rid e (c_requests d))\<rparr>)" for e
    using evolves_trans [OF d] by blast
  then show ?thesis
    using d send by (auto simp: async_request_send_def split: sum.splits prod.splits)
      (metis snd_conv)+
qed

lemma evolves_respond: "sodium_ok (ce_sodium E) \<Longrightarrow> evolves c (snd (client_send_response E rid p c))"
  by (auto simp: client_send_response_def evolves_send split: sum.splits)

lemma evolves_add_stream: "evolves c (snd (client_add_stream sid op c))"
  by (auto simp: client_add_stream_def evolves_def refs_ok_def Let_def nth_append Stream_def less_SucI)

lemma evolves_start_stream:
  assumes "sodium_ok (ce_sodium E)"
  shows "evolves c (snd (client_start_stream E c))" and "evolves c (snd (client_start_stream_op E op c))"
proof -
  have add: "evolves c (snd (client_add_stream sid o' (c\<lparr>c_next_outgoing_stream_id := n\<rparr>)))" for sid o' n
    by (rule evolves_trans [OF _ evolves_add_stream]) (simp add: evolvesI)
  have send: "evolves c (snd (and_then (client_send E p d) (\<lambda>_ c. (Inr ref, c))))" if "evolves c d"
    for p d and ref :: nat
    using that evolves_send [OF assms, of d p]
    by (intro and_then_rel [OF transp_evolves]) (auto intro: evolves_trans)
  have steps: "evolves c (snd (case client_add_stream sid o' (c\<lparr>c_next_outgoing_stream_id := n\<rparr>) of
      (ref, c) \<Rightarrow> (case f c of Inl e \<Rightarrow> (Inl e, c) | Inr p \<Rightarrow> and_then (client_send E p c) (\<lambda>_ c. (Inr ref, c)))))"
    for sid o' n and f :: "client \<Rightarrow> payload result"
    using add [of sid o' n] send by (auto split: prod.splits sum.splits)
  show "evolves c (snd (client_start_stream E c))" "evolves c (snd (client_start_stream_op E op c))"
    unfolding client_start_stream_def client_start_stream_op_def Let_def by (rule steps)+
qed

lemma evolves_swallow: "evolves c (snd x) \<Longrightarrow> evolves c (snd (swallow x))"
  by (auto simp: swallow_def split: prod.splits sum.splits)

lemma evolves_stream_ops:
  assumes "sodium_ok (ce_sodium E)"
  shows "evolves c (snd (stream_write (\<lambda>_. client_send E) st data c))"
    and "evolves c (snd (stream_end (\<lambda>_. client_send E) st c))"
    and "evolves c (snd (stream_cancel (\<lambda>_. client_send E) st c))"
  by (auto simp: stream_write_sends stream_end_sends intro: evolves_swallow evolves_send [OF assms])

lemma evolves_disconnect_begin: "evolves c (snd (disconnect_begin c))"
proof -
  let ?c = "c\<lparr>io_stopped := True\<rparr>"
  have "evolves c ?c" by (simp add: evolvesI)
  moreover have "evolves ?c (?c\<lparr>c_requests :=
      snd (fail_where (\<lambda>_. True) (RuntimeError ''Client disconnected'') (c_requests ?c))\<rparr>)"
    by (intro evolves_table r_into_rtranclp table_step.fail)
  ultimately show ?thesis
    by (auto simp: disconnect_begin_def Let_def split: prod.splits dest: evolves_trans)
qed

lemma evolves_disconnect_finish: "evolves c (disconnect_finish b c)"
  by (auto simp: disconnect_finish_def stop_watchdog_def Let_def intro!: evolvesI)

lemma evolves_disconnect: "evolves c (snd (client_disconnect b c))"
  unfolding client_disconnect_def
  by (auto intro!: and_then_rel [OF transp_evolves, where s = c] evolves_disconnect_begin evolves_disconnect_finish)

lemma evolves_watchdog: "evolves c (snd (watchdog_iteration now c))"
proof -
  have "evolves c (c\<lparr>c_requests := snd (expire now (c_requests c))\<rparr>)"
    by (intro evolves_table r_into_rtranclp table_step.expire)
  then show ?thesis
    by (auto simp: watchdog_iteration_def split: option.splits prod.splits)
qed

lemma api_step_evolves:
  assumes ok: "sodium_ok (ce_sodium E)" and step: "api_step E c d"
  shows "evolves c d"
  using step
proof (cases rule: api_step.cases)
  case (stream_handlers ref f h)
  then show ?thesis
    by (auto simp: evolves_def refs_ok_def nth_list_update set_data_handler_def set_end_handler_def
        set_cancel_handler_def)
next
  case (connect failure)
  then show ?thesis by (auto simp: client_connect_def evolvesI split: option.splits)
next
  case (identity kp)
  then show ?thesis by (simp add: set_client_identity_def evolvesI)
next
  case (register f op h)
  then show ?thesis
    by (auto simp: client_register_stream_handler_def client_register_incoming_stream_handler_def
        set_on_ready_callback_def client_register_op_handler_def client_register_request_handler_def
        client_set_default_payload_handler_def set_on_disconnect_callback_def intro!: evolvesI)
qed (use ok in \<open>simp_all add: evolves_send evolves_request_begin evolves_request_send evolves_respond
    evolves_start_stream evolves_stream_ops evolves_disconnect_begin evolves_disconnect_finish\<close>)

lemma api_steps_evolve: "(api_step E)\<^sup>*\<^sup>* c d \<Longrightarrow> sodium_ok (ce_sodium E) \<Longrightarrow> evolves c d"
  by (induction rule: rtranclp_induct) (auto dest: api_step_evolves intro: evolves_trans)

lemma callbacks_evolve:
  assumes "callbacks_ok E"
  shows "evolves c (snd (ce_ready E n c))" "evolves c (snd (ce_disconnect E n c))"
    "evolves c (snd (ce_payload E n p c))" "evolves c (snd (ce_request E n r c))"
    "evolves c (snd (ce_stream E n ref c))" "evolves c (snd (ce_stream_data E n bs c))"
    "evolves c (snd (ce_stream_end E n c))" "evolves c (snd (ce_stream_cancel E n c))"
    "sodium_ok (ce_sodium E)"
  using assms api_steps_evolve unfolding callbacks_ok_def by blast+

lemma evolves_call_if: "(\<And>n. evolves c (snd (run n c))) \<Longrightarrow> evolves c (snd (call_if h run c))"
  by (simp add: call_if_def split: option.splits)

lemma evolves_transport: "evolves c (snd (client_transport E frame c))"
  by (auto simp: client_transport_def intro!: evolvesI split: option.splits)

lemma evolves_initiate: "sodium_ok (ce_sodium E) \<Longrightarrow> evolves c (snd (client_initiate E c))"
  using session_step.initiate [of "ce_sodium E" "c_session c" "c_draws c"]
    session_keys_kept(5,6) [of "ce_sodium E" "c_draws c" "c_session c"]
  by (auto simp: client_initiate_def evolves_def refs_ok_def split: prod.splits)

lemma evolves_set_identity:
  "evolves c (snd (case set_client_identity_key kp (c_session c) of (r, s) \<Rightarrow> (r, c\<lparr>c_session := s\<rparr>)))"
  using session_step.identity [of "c_session c" kp] session_keys_kept(7,8) [of kp "c_session c"]
  by (auto intro!: evolves_session split: prod.splits)

lemma evolves_on_open:
  assumes "callbacks_ok E"
  shows "evolves c (snd (client_on_open E c))"
proof -
  let ?c = "c\<lparr>is_connected := True\<rparr>"
  have "evolves c ?c" by (simp add: evolvesI)
  moreover have "evolves ?c (snd (client_on_open E c))"
    unfolding client_on_open_def Let_def
    by (intro catch_std_rel [OF transp_evolves] and_then_rel [OF transp_evolves] evolves_initiate
        evolves_transport evolves_disconnect callbacks_evolve(9) [OF assms])
      (use evolves_set_identity [of ?c] in \<open>auto split: option.splits\<close>)
  ultimately show ?thesis by (rule evolves_trans)
qed

lemma evolves_on_close:
  assumes "callbacks_ok E"
  shows "evolves c (snd (client_on_close E c))" "evolves c (snd (client_on_fail E c))"
proof -
  have "evolves c (c\<lparr>is_connected := False\<rparr>)" by (simp add: evolvesI)
  moreover have "evolves d (snd (call_if h (ce_disconnect E) d))" for h d
    by (rule evolves_call_if) (rule callbacks_evolve(2) [OF assms])
  ultimately show "evolves c (snd (client_on_close E c))" "evolves c (snd (client_on_fail E c))"
    unfolding client_on_close_def client_on_fail_def Let_def by (blast intro: evolves_trans)+
qed

lemma evolves_server_hello:
  assumes "callbacks_ok E" and fresh: "\<not> handshake_complete (c_session c)"
  shows "evolves c (snd (client_on_server_hello E data c))"
proof -
  note ok = callbacks_evolve(9) [OF assms(1)]
  have "evolves c (snd (case client_finalize_handshake (ce_sodium E) h (c_session c) of
      (r, s) \<Rightarrow> (r, c\<lparr>c_session := s\<rparr>)))" for h
    using session_step.finalize [OF ok, of "c_session c" h] fresh by (auto intro!: evolves_session split: prod.splits)
  then show ?thesis
    unfolding client_on_server_hello_def
    by (auto intro!: and_then_rel [OF transp_evolves, where s = c] evolves_call_if callbacks_evolve [OF assms(1)]
        split: sum.splits)
qed

lemma evolves_response: "evolves c (snd (client_on_response p c))"
proof -
  have "evolves c (c\<lparr>c_requests := snd (complete_request rid q (c_requests c))\<rparr>)" for rid q
    by (intro evolves_table r_into_rtranclp table_step.complete)
  then show ?thesis
    unfolding client_on_response_def by (auto split: sum.splits prod.splits) (metis snd_conv)
qed

lemma evolves_stream:
  assumes "callbacks_ok E"
  shows "evolves c (snd (client_on_stream E p c))"
proof -
  have call: "evolves d (snd (call_if h (\<lambda>h. ce_stream E h ref) d))" for h ref d
    by (rule evolves_call_if) (rule callbacks_evolve(5) [OF assms])
  have start: "evolves c (snd (client_on_stream_start E sid reader c))" for sid reader
    using evolves_trans [OF evolves_add_stream call]
    unfolding client_on_stream_start_def
    by (auto split: sum.splits prod.splits) (metis snd_conv)+
  have erase: "evolves c (c\<lparr>active_streams := m_erase sid (active_streams c)\<rparr>)" for sid
    by (auto simp: evolves_def refs_ok_def)
  have cancel: "evolves c (snd (dispatch_cancel (ce_stream_cancel E) st
      (c\<lparr>active_streams := m_erase sid (active_streams c)\<rparr>)))" for st :: "unit stream" and sid
    using evolves_trans [OF erase callbacks_evolve(8) [OF assms]] erase
    by (auto simp: dispatch_cancel_def split: option.splits)
  show ?thesis
    unfolding client_on_stream_def Let_def
    by (auto simp: start cancel dispatch_data_def dispatch_end_def callbacks_evolve [OF assms]
        split: prod.splits sum.splits option.splits)
qed

lemma evolves_dispatch:
  assumes "callbacks_ok E"
  shows "evolves c (snd (client_dispatch_payload E p c))"
proof -
  note ok = callbacks_evolve(9) [OF assms]
  have req: "evolves c (snd (and_then (ce_request E h r c) (\<lambda>q c. client_send_response E rid q c)))" for h r rid
    by (intro and_then_rel [OF transp_evolves] callbacks_evolve [OF assms] evolves_respond ok)
  show ?thesis
    unfolding client_dispatch_payload_def
    by (auto simp: req callbacks_evolve [OF assms] split: handler.splits prod.splits sum.splits)
qed

lemma evolves_message_body:
  assumes "callbacks_ok E"
  shows "evolves c (snd (if \<not> is_handshake_complete (c_session c) then client_on_server_hello E data c
      else and_then
        (case decrypt_packet (ce_sodium E) data (c_session c) of (r, s) \<Rightarrow> (r, c\<lparr>c_session := s\<rparr>))
        (client_on_payload E)))"
proof -
  note ok = callbacks_evolve(9) [OF assms]
  have payload: "evolves d (snd (client_on_payload E p d))" for d p
    unfolding client_on_payload_def
    by (simp add: evolves_disconnect evolves_response evolves_stream evolves_dispatch assms)
  have dec: "evolves c (snd (case decrypt_packet (ce_sodium E) data (c_session c) of
      (r, s) \<Rightarrow> (r, c\<lparr>c_session := s\<rparr>)))"
    using session_step.decrypt [OF ok, of "c_session c" data]
      session_keys_kept(3,4) [of "ce_sodium E" data "c_session c"] by (auto intro!: evolves_session split: prod.splits)
  show ?thesis
    by (auto intro!: and_then_rel [OF transp_evolves, where s = c] payload dec evolves_server_hello assms
        simp: is_handshake_complete_def)
qed

lemma evolves_on_message:
  assumes "callbacks_ok E"
  shows "evolves c (snd (client_on_message E binary data c))"
proof (cases binary)
  case True
  then have "client_on_message E binary data c = catch_std
      (if \<not> is_handshake_complete (c_session c) then client_on_server_hello E data c
       else and_then
         (case decrypt_packet (ce_sodium E) data (c_session c) of (r, s) \<Rightarrow> (r, c\<lparr>c_session := s\<rparr>))
         (client_on_payload E)) (client_disconnect True)"
    by (simp only: client_on_message_def simp_thms if_False)
  then show ?thesis
    by (simp only:) (rule catch_std_rel [OF transp_evolves evolves_message_body [OF assms]], rule evolves_disconnect)
qed (simp add: client_on_message_def)

lemma client_step_evolves: "client_step c d \<Longrightarrow> evolves c d"
  by (erule client_stepE)
    (auto intro: api_step_evolves evolves_watchdog evolves_on_open evolves_on_close evolves_on_message)

definition client_inv :: "client \<Rightarrow> bool" where
  "client_inv c \<longleftrightarrow> session_inv (c_session c) \<and> table_inv (c_requests c) \<and> refs_ok c"

lemma fresh_client_inv: "fresh_client c \<Longrightarrow> client_inv c"
proof -
  have "session_inv (Session CLIENT k vs)" for k vs
    by (rule fresh_session_inv) (auto simp: fresh_session_def)
  then show "fresh_client c \<Longrightarrow> client_inv c"
    by (auto simp: fresh_client_def client_inv_def WsClientWrapper_def refs_ok_def)
qed

lemma client_step_inv: "client_inv c \<Longrightarrow> client_step c d \<Longrightarrow> client_inv d"
  using client_step_evolves [of c d] session_machine.steps_inv [of "c_session c" "c_session d"]
    table_steps_inv [of "c_requests c" "c_requests d"]
  by (auto simp: client_inv_def evolves_def)

interpretation client_machine: machine fresh_client client_step client_inv
  by unfold_locales (auto intro: fresh_client_inv client_step_inv)

interpretation client_requests: request_tracker fresh_client client_step c_requests
  by unfold_locales
    (auto simp: fresh_client_def WsClientWrapper_def evolves_def dest: client_step_evolves)

section \<open>A sample run\<close>

text \<open>An environment with a transport that always works and callbacks that do nothing, and a client
  that completes the handshake with a server holding the sample key.\<close>

definition idle_env :: client_env where
  "idle_env =
     \<lparr>ce_sodium = model_sodium, ce_transport = (\<lambda>_. None), ce_ready = (\<lambda>_ c. (Inr (), c)),
      ce_disconnect = (\<lambda>_ c. (Inr (), c)), ce_payload = (\<lambda>_ _ c. (Inr (), c)),
      ce_request = (\<lambda>_ _ c. (Inr \<lparr>op_code = 0, parameters = []\<rparr>, c)), ce_stream = (\<lambda>_ _ c. (Inr (), c)),
      ce_stream_data = (\<lambda>_ _ c. (Inr (), c)), ce_stream_end = (\<lambda>_ c. (Inr (), c)),
      ce_stream_cancel = (\<lambda>_ c. (Inr (), c))\<rparr>"

definition sample_server_hello :: byte_vector where
  "sample_server_hello =
     server_hello_serialize \<lparr>selected_version = V1_1, sh_ephemeral_pk = PublicKey (replicate 32 2),
        sh_signature = Signature (replicate 64 7)\<rparr>"

definition sample_client0 :: client where
  "sample_client0 = snd (client_connect None (WsClientWrapper sample_server_key with_defaults))"

definition sample_client1 :: client where
  "sample_client1 = snd (client_on_message idle_env True sample_server_hello
                          (snd (client_on_open idle_env sample_client0)))"

lemma sample_client1_ready: "is_connected sample_client1 \<and> handshake_complete (c_session sample_client1)"
  by code_simp

section \<open>Lemmas for the properties\<close>

lemma callbacks_ok_idle: "callbacks_ok idle_env"
  by (simp add: callbacks_ok_def idle_env_def model_sodium_ok)

lemma earliest_deadline_Some:
  "earliest_deadline (Some e) ds = Some (Min (insert e (snd ` set ds)))"
proof (induction ds arbitrary: e)
  case (Cons kd ds)
  have "Min (insert e (insert (snd kd) (snd ` set ds)))
      = Min (insert (if snd kd < e then snd kd else e) (snd ` set ds))"
    by (cases "ds = []") (auto simp: min_def)
  with Cons.IH show ?case by (cases kd) auto
qed simp

lemma earliest_deadline_due:
  "(case earliest_deadline None ds of None \<Rightarrow> False | Some e \<Rightarrow> e \<le> now) \<longleftrightarrow> (\<exists>k d. (k, d) \<in> set ds \<and> d \<le> now)"
proof (cases ds)
  case (Cons kd ds')
  then have "earliest_deadline None ds = Some (Min (insert (snd kd) (snd ` set ds')))"
    by (cases kd) (simp add: earliest_deadline_Some)
  then show ?thesis
    using Cons Min_le_iff [of "insert (snd kd) (snd ` set ds')" now] by (cases kd) force
qed simp

text \<open>The comparison with the earliest deadline only saves work: a round is an expiry.\<close>

lemma expire_idle: "\<forall>(k, d) \<in> set ds. now < d \<Longrightarrow> expire_from now ds t = (Inr ds, t)"
  by (induction ds) auto

lemma watchdog_expires:
  "watchdog_thread c \<Longrightarrow> \<not> watchdog_stop c \<Longrightarrow>
     watchdog_iteration now c = (fst (expire now (c_requests c)), c\<lparr>c_requests := snd (expire now (c_requests c))\<rparr>)"
proof -
  assume run: "watchdog_thread c" "\<not> watchdog_stop c"
  let ?ds = "deadlines (c_requests c)"
  show ?thesis
  proof (cases "\<exists>k d. (k, d) \<in> set ?ds \<and> d \<le> now")
    case True
    then show ?thesis
      using run earliest_deadline_due [of now ?ds]
      by (auto simp: watchdog_iteration_def split: option.splits prod.splits)
  next
    case False
    then have "expire now (c_requests c) = (Inr (), c_requests c)"
      using expire_idle [of ?ds now "c_requests c"] by (force simp: expire_def)
    with False show ?thesis
      using run earliest_deadline_due [of now ?ds]
      by (auto simp: watchdog_iteration_def split: option.splits prod.splits)
  qed
qed

lemma disconnect_effect:
  assumes inv: "table_inv (c_requests c)" and up: "client_thread c"
  shows "\<exists>t. client_disconnect b c = (Inr (), disconnect_finish b (c\<lparr>io_stopped := True, c_requests := t\<rparr>))
     \<and> table_inv t \<and> settled_stays (c_requests c) t \<and> pending t = [] \<and> deadlines t = []
     \<and> length (promises t) = length (promises (c_requests c))
     \<and> (\<forall>k pid. m_find (pending (c_requests c)) k = Some pid \<longrightarrow>
          promises t ! pid = Failed (RuntimeError ''Client disconnected''))"
proof -
  obtain t where t: "fail_where (\<lambda>_. True) (RuntimeError ''Client disconnected'') (c_requests c) = (Inr (), t)"
      "table_inv t" "settled_stays (c_requests c) t" "\<And>k. m_find (pending t) k = None"
      "\<And>k. m_find (deadlines t) k = None" "length (promises t) = length (promises (c_requests c))"
      "\<And>k pid. m_find (pending (c_requests c)) k = Some pid \<Longrightarrow>
         promises t ! pid = Failed (RuntimeError ''Client disconnected'')"
    using fail_where_effect [OF inv, of "\<lambda>_. True" "RuntimeError ''Client disconnected''"] by auto
  have "m = []" if "\<And>k. m_find m k = None" for m :: "(u32, 'v) amap"
    using that [of "fst (hd m)"] by (cases m) auto
  then have "pending t = []" "deadlines t = []" using t(4,5) by blast+
  then show ?thesis
    using t up by (auto simp: client_disconnect_def disconnect_begin_def Let_def)
qed

lemma disconnect_never_throws:
  "table_inv (c_requests c) \<Longrightarrow> \<exists>d. client_disconnect b c = (Inr (), d)"
  using disconnect_effect [of c b] by (cases "client_thread c") (auto simp: client_disconnect_def)

lemma reachable_evolves: "client_step\<^sup>*\<^sup>* c d \<Longrightarrow> evolves c d"
  by (induction rule: rtranclp_induct) (auto dest: client_step_evolves intro: evolves_trans)

lemma client_ready_iff:
  "is_connected c \<and> handshake_complete (c_session c) \<longleftrightarrow> \<not> (\<not> is_connected c \<or> \<not> is_handshake_complete (c_session c))"
  by (simp add: is_handshake_complete_def)

lemma register_request_new:
  "fst (register_request k dl t) = length (promises t)
   \<and> m_find (pending (snd (register_request k dl t))) k = Some (length (promises t))
   \<and> length (promises (snd (register_request k dl t))) = Suc (length (promises t))
   \<and> (\<forall>d. dl = Some d \<longrightarrow> m_find (deadlines (snd (register_request k dl t))) k = Some d)"
  by (auto simp: register_request_def destroy_promise_def Let_def split: option.splits)

lemma request_begin_ready:
  assumes "is_connected c" and "handshake_complete (c_session c)"
  shows "\<exists>q d. async_request_begin now p tmo c = (Inr (c_next_request_id c, length (promises (c_requests c)), q), d)
     \<and> with_request_id (c_next_request_id c) p = Inr q
     \<and> c_requests d = snd (register_request (c_next_request_id c)
          (deadline_at now (resolve_request_timeout (to_enabled (timeouts (c_config c)))
             (request_ms (timeouts (c_config c))) tmo)) (c_requests c))
     \<and> is_connected d \<and> c_session d = c_session c \<and> c_config d = c_config c
     \<and> c_next_request_id d = c_next_request_id c + 1"
  using assms register_request_new [of "c_next_request_id c" _ "c_requests c"]
  by (auto simp: async_request_begin_def with_request_id_eq is_handshake_complete_def Let_def ensure_watchdog_def
      split: prod.splits) (metis fst_conv)+

lemma client_send_refused:
  assumes "session_inv (c_session c)" and "sodium_ok (ce_sodium E)" and "\<And>n e. ce_transport E n = Some e \<Longrightarrow> is_std_exception e"
  shows "fst (client_send E p c) =
     (if \<not> is_connected c \<or> \<not> handshake_complete (c_session c) then Inl (LogicError ''Session not ready for sending data.'')
      else if too_large (c_config c) p then Inl (LogicError ''Payload exceeds max_decrypted_payload limit.'')
      else Inr ())"
proof -
  have "encrypt_payload (ce_sodium E) (c_draws c) p (c_session c) = (Inl e, s) \<Longrightarrow> is_std_exception e" for e s
    using data_transfer_std(1) [OF assms(1)] .
  then show ?thesis
    using assms(3) by (auto simp: client_send_unfold is_handshake_complete_def split: prod.splits sum.splits option.splits)
qed

definition sample_client2 :: client where
  "sample_client2 = snd (async_request_begin 1000 sample_payload 5 sample_client1)"

lemma sample_client1_reachable: "client_step\<^sup>*\<^sup>* (WsClientWrapper sample_server_key with_defaults) sample_client1"
proof -
  have "client_step (WsClientWrapper sample_server_key with_defaults) sample_client0"
    unfolding sample_client0_def
    by (rule client_step.api [of idle_env]) (simp_all add: api_step.connect idle_env_def model_sodium_ok)
  also have "client_step\<^sup>*\<^sup>* sample_client0 sample_client1"
    unfolding sample_client1_def
    by (meson callbacks_ok_idle client_step.on_message client_step.on_open r_into_rtranclp rtranclp.rtrancl_into_rtrancl)
  finally (converse_rtranclp_into_rtranclp) show ?thesis .
qed

lemma sample_client2_reachable: "client_step\<^sup>*\<^sup>* (WsClientWrapper sample_server_key with_defaults) sample_client2"
proof -
  have "client_step sample_client1 sample_client2"
    unfolding sample_client2_def
    by (rule client_step.api [of idle_env]) (simp_all add: api_step.request_begin idle_env_def model_sodium_ok)
  with sample_client1_reachable show ?thesis by (rule rtranclp.rtrancl_into_rtrancl)
qed

lemma sample_client1_state:
  "c_requests sample_client1 = empty_table" "c_next_request_id sample_client1 = 0"
  "client_thread sample_client1" "\<not> watchdog_started sample_client1"
  "is_connected sample_client1" "is_handshake_complete (c_session sample_client1)"
  by code_simp+

lemma sample_client2_state:
  "promises (c_requests sample_client2) = [Pending]" "pending (c_requests sample_client2) = [(0, 0)]"
  "deadlines (c_requests sample_client2) = [(0, 5001000)]" "client_thread sample_client2"
  "watchdog_thread sample_client2" "\<not> watchdog_stop sample_client2"
  "is_connected sample_client2" "handshake_complete (c_session sample_client2)"
  using sample_client1_state
  by (simp_all add: sample_client2_def async_request_begin_def with_request_id_eq register_request_def
      empty_table_def resolve_request_timeout_def deadline_at_def ensure_watchdog_def Let_def
      is_handshake_complete_def)

lemma sample_fresh: "fresh_client (WsClientWrapper sample_server_key with_defaults)"
  by (auto simp: fresh_client_def)

section \<open>Properties\<close>

text \<open>C4: a future of the client is settled at most once and for good. Whatever the threads, the
  callbacks and the server do, an outcome that a future has is the one it keeps; the futures that
  are still open are exactly those filed under one pending request identifier; and no operation on
  the table ever finds a promise already satisfied.\<close>

theorem client_futures_settle_once:
  assumes "fresh_client c0" and "client_step\<^sup>*\<^sup>* c0 c" and "client_step\<^sup>*\<^sup>* c d"
  shows "(\<forall>pid < length (promises (c_requests c)). promises (c_requests c) ! pid \<noteq> Pending \<longrightarrow>
        promises (c_requests d) ! pid = promises (c_requests c) ! pid)
     \<and> (\<forall>pid < length (promises (c_requests c)). promises (c_requests c) ! pid = Pending \<longleftrightarrow>
          (\<exists>!rid. m_find (pending (c_requests c)) rid = Some pid))
     \<and> fst (complete_request rid p (c_requests c)) \<noteq> Inl e \<and> fst (abort_request rid e' (c_requests c)) \<noteq> Inl e
     \<and> fst (fail_where P e' (c_requests c)) \<noteq> Inl e \<and> fst (expire now (c_requests c)) \<noteq> Inl e"
proof -
  have inv: "table_inv (c_requests c)"
    using client_requests.reachable_table [OF assms(1,2)] .
  have "promises (c_requests c) ! pid = Pending \<longleftrightarrow> (\<exists>!rid. m_find (pending (c_requests c)) rid = Some pid)"
    if "pid < length (promises (c_requests c))" for pid
    using client_requests.open_futures_tracked [OF assms(1,2) that] pending_injective [OF inv] by blast
  then show ?thesis
    using client_requests.future_stable [OF assms] client_requests.never_twice [OF assms(1,2), of rid p e e' P now]
    by (simp add: settled_stays_def)
qed

theorem client_futures_settle_once_witness:
  "promises (c_requests sample_client2) ! 0 = Pending
   \<and> (\<exists>!rid. m_find (pending (c_requests sample_client2)) rid = Some 0)
   \<and> fst (complete_request 0 sample_payload (c_requests sample_client2)) \<noteq> Inl (Thrown 0)"
  using client_futures_settle_once [OF sample_fresh sample_client2_reachable rtranclp.rtrancl_refl,
      of 0 sample_payload "Thrown 0" "Thrown 0" "\<lambda>_. True" 0]
  by (simp add: sample_client2_state)

text \<open>A response reaches its request. The payload \<^verbatim>\<open>send_response\<close> builds for request \<open>rid\<close> and
  response \<open>q\<close> makes the client's response handler complete exactly the promise filed under \<open>rid\<close>,
  with \<open>q\<close>, and remove that entry; when no request is pending under \<open>rid\<close> (a late, repeated or
  forged response) the client is left as it was.\<close>

theorem client_response_delivered:
  assumes "fresh_client c0" and "client_step\<^sup>*\<^sup>* c0 c" and "length (parameters q) \<le> 65533"
  shows "\<exists>p. response_payload op rid q = Inr p \<and> op_code p = op \<and> client_on_response p c =
     (Inr (), case m_find (pending (c_requests c)) rid of
        None \<Rightarrow> c
      | Some pid \<Rightarrow> c\<lparr>c_requests := (c_requests c)
          \<lparr>promises := (promises (c_requests c))[pid := Value q], pending := m_erase rid (pending (c_requests c))\<rparr>\<rparr>)"
proof -
  have inv: "table_inv (c_requests c)"
    using client_requests.reachable_table [OF assms(1,2)] .
  have "client_on_response (framed_params op [P_uint32 rid, P_bytes (payload_serialize q)]) c =
     (Inr (), case m_find (pending (c_requests c)) rid of
        None \<Rightarrow> c | Some pid \<Rightarrow> c\<lparr>c_requests := settle rid pid (Value q) (c_requests c)\<rparr>)"
    using parse_response_framed [OF assms(3), of op rid]
    by (auto simp: client_on_response_def complete_request_eq [OF inv] split: option.splits)
  then show ?thesis
    using assms(3) by (auto simp: response_payload_eq settle_def framed_params_def split: option.splits)
qed

theorem client_response_delivered_witness:
  "\<exists>p. response_payload 0xFFFF 0 sample_payload = Inr p \<and>
     promises (c_requests (snd (client_on_response p sample_client2))) = [Value sample_payload]"
  using client_response_delivered [OF sample_fresh sample_client2_reachable, where q = sample_payload and op = "0xFFFF" and rid = 0]
  by (force simp: sample_client2_state sample_payload_def)



text \<open>C31: the watchdog expires exactly what is due. A round at time \<open>now\<close> throws nothing; an open
  request is failed with a timeout, and forgotten, if and only if it has a deadline that is not
  after \<open>now\<close>; all others stay open, settled futures stay as they are, and no due deadline remains.\<close>

theorem watchdog_expires_exactly:
  assumes "fresh_client c0" and "client_step\<^sup>*\<^sup>* c0 c" and "watchdog_thread c" and "\<not> watchdog_stop c"
  shows "\<exists>t. watchdog_iteration now c = (Inr (), c\<lparr>c_requests := t\<rparr>)
     \<and> length (promises t) = length (promises (c_requests c))
     \<and> (\<forall>rid pid. m_find (pending (c_requests c)) rid = Some pid \<longrightarrow>
          (if \<exists>d. m_find (deadlines (c_requests c)) rid = Some d \<and> d \<le> now
           then promises t ! pid = Failed (TimeoutError ''Request timed out'') \<and> m_find (pending t) rid = None
           else promises t ! pid = Pending \<and> m_find (pending t) rid = Some pid))
     \<and> (\<forall>pid < length (promises t). promises (c_requests c) ! pid \<noteq> Pending \<longrightarrow>
          promises t ! pid = promises (c_requests c) ! pid)
     \<and> (\<forall>rid d. m_find (deadlines t) rid = Some d \<longrightarrow> now < d)"
proof -
  have inv: "table_inv (c_requests c)"
    using client_requests.reachable_table [OF assms(1,2)] .
  have keys: "keys_ok (deadlines (c_requests c))"
    using inv by (simp add: table_inv_def)
  obtain t where t: "expire now (c_requests c) = (Inr (), t)" "settled_stays (c_requests c) t"
      "length (promises t) = length (promises (c_requests c))"
      "\<And>k. m_find (deadlines t) k
         = (if expired now (deadlines (c_requests c)) k then None else m_find (deadlines (c_requests c)) k)"
      "\<And>k. m_find (pending t) k
         = (if expired now (deadlines (c_requests c)) k then None else m_find (pending (c_requests c)) k)"
      "\<And>k pid. m_find (pending (c_requests c)) k = Some pid \<Longrightarrow> promises t ! pid
         = (if expired now (deadlines (c_requests c)) k then Failed (TimeoutError ''Request timed out'') else Pending)"
    using expire_effect [OF inv, of now] by auto
  show ?thesis
    using watchdog_expires [OF assms(3,4), of now] t
    by (intro exI [of _ t]) (auto simp: keys_ok_unique [OF keys] settled_stays_def split: if_splits)
qed

theorem watchdog_expires_exactly_witness:
  "promises (c_requests (snd (watchdog_iteration 5001000 sample_client2)))
     = [Failed (TimeoutError ''Request timed out'')]
   \<and> promises (c_requests (snd (watchdog_iteration 5000999 sample_client2))) = [Pending]"
proof -
  have one: "xs = [x]" if "length xs = 1" "xs ! 0 = x" for xs and x :: promise_state
    using that by (cases xs) auto
  have facts: "watchdog_thread sample_client2" "\<not> watchdog_stop sample_client2"
    by (simp_all add: sample_client2_state)
  show ?thesis
    using watchdog_expires_exactly [OF sample_fresh sample_client2_reachable facts, of 5001000]
      watchdog_expires_exactly [OF sample_fresh sample_client2_reachable facts, of 5000999]
    by (auto simp: sample_client2_state intro!: one)
qed



text \<open>The keys of a client are final. Once its handshake is complete, no later event (the loss of
  the connection, a new \<^verbatim>\<open>connect\<close>, any message) changes the session keys or reopens the handshake;
  every binary message is then taken for an encrypted packet, so one that does not decrypt, such as
  the ServerHello answering the ClientHello of a new connection, makes the client disconnect.\<close>

theorem client_never_rekeys:
  assumes "fresh_client c0" and "client_step\<^sup>*\<^sup>* c0 c" and "handshake_complete (c_session c)" and "client_step\<^sup>*\<^sup>* c d"
  shows "handshake_complete (c_session d) \<and> sess_keys (c_session d) = sess_keys (c_session c)
     \<and> (case decrypt_packet (ce_sodium E) data (c_session d) of
          (Inl e, s) \<Rightarrow> client_on_message E True data d = client_disconnect True d
        | (Inr p, s) \<Rightarrow> client_on_message E True data d
            = catch_std (client_on_payload E p (d\<lparr>c_session := s\<rparr>)) (client_disconnect True))"
proof -
  have kept: "handshake_complete (c_session d)" "sess_keys (c_session d) = sess_keys (c_session c)"
    using reachable_evolves [OF assms(4)] assms(3) by (simp_all add: evolves_def)
  have inv: "session_inv (c_session d)"
    using client_machine.reachable_inv [OF assms(1) rtranclp_trans [OF assms(2,4)]] by (simp add: client_inv_def)
  have "is_std_exception e \<and> s = c_session d"
    if "decrypt_packet (ce_sodium E) data (c_session d) = (Inl e, s)" for e s
    using data_transfer_std(2) [OF inv that] .
  then show ?thesis
    using kept by (auto simp: client_on_message_def is_handshake_complete_def split: prod.splits sum.splits)
qed

theorem client_never_rekeys_witness:
  "client_on_message idle_env True sample_server_hello sample_client1 = client_disconnect True sample_client1"
proof -
  have "case fst (decrypt_packet model_sodium sample_server_hello (c_session sample_client1)) of
      Inl e \<Rightarrow> True | Inr p \<Rightarrow> False"
    by code_simp
  then show ?thesis
    using client_never_rekeys [OF sample_fresh sample_client1_reachable _ rtranclp.rtrancl_refl,
        of idle_env sample_server_hello] sample_client1_ready
    by (auto simp: idle_env_def split: prod.splits sum.splits)
qed

text \<open>A request is answered under its own identifier. When a payload arrives that the other side
  built by putting \<open>rid\<close> in front of its parameters, and a request handler is registered for its
  opcode, the handler sees exactly the sender's parameters and its result is sent back as the
  response to \<open>rid\<close>; an exception of the handler is passed on and nothing is sent.\<close>

theorem client_answers_request:
  assumes "with_request_id rid p = Inr q" and "m_find (c_request_handlers c) (op_code p) = Some (Some h)"
  shows "\<exists>r. drop (offset r) (params_data r) = parameters p \<and> client_dispatch_payload E q c =
     (case ce_request E h r c of
        (Inl e, d) \<Rightarrow> (Inl e, d)
      | (Inr response, d) \<Rightarrow> client_send_response E rid response d)"
proof -
  obtain r where "op_code q = op_code p" "read_param_uint32 (PayloadReader q) = (Inr rid, r)"
      "drop (offset r) (params_data r) = parameters p"
    using with_request_id_read [OF assms(1)] by auto
  then show ?thesis
    using assms(2) by (intro exI [of _ r]) (simp add: client_dispatch_payload_def select_handler_def and_then_def)
qed

theorem client_answers_request_witness:
  "\<exists>q r. with_request_id 9 sample_payload = Inr q \<and> drop (offset r) (params_data r) = [0, 1, 42] \<and>
     client_dispatch_payload idle_env q (client_register_request_handler 0x1234 (Some 1) sample_client1) =
     (case ce_request idle_env 1 r (client_register_request_handler 0x1234 (Some 1) sample_client1) of
        (Inl e, d) \<Rightarrow> (Inl e, d)
      | (Inr response, d) \<Rightarrow> client_send_response idle_env 9 response d)"
  using client_answers_request [of 9 sample_payload _ "client_register_request_handler 0x1234 (Some 1) sample_client1"
      1 idle_env]
  by (force simp: with_request_id_eq client_register_request_handler_def sample_payload_def)

text \<open>No standard exception leaves the message handler. Whatever a message contains and
  whatever the callbacks do, an exception that escapes to the network thread is one that a user
  callback threw and that is not a \<^verbatim>\<open>std::exception\<close>.\<close>

theorem client_on_message_contained:
  assumes "fresh_client c0" and "client_step\<^sup>*\<^sup>* c0 c" and "callbacks_ok E"
    and "fst (client_on_message E binary data c) = Inl e"
  shows "\<not> is_std_exception e"
proof -
  let ?body = "if \<not> is_handshake_complete (c_session c) then client_on_server_hello E data c
      else and_then
        (case decrypt_packet (ce_sodium E) data (c_session c) of (r, s) \<Rightarrow> (r, c\<lparr>c_session := s\<rparr>))
        (client_on_payload E)"
  have "table_inv (c_requests (snd ?body))"
    using client_requests.reachable_table [OF assms(1,2)] evolves_message_body [OF assms(3), of c data]
      table_steps_inv [of "c_requests c" "c_requests (snd ?body)"] by (simp only: evolves_def)
  then obtain d where d: "client_disconnect True (snd ?body) = (Inr (), d)"
    using disconnect_never_throws [of "snd ?body" True] by blast
  show ?thesis
  proof (cases "binary")
    case True
    then have "fst (catch_std ?body (client_disconnect True)) = Inl e"
      using assms(4) by (simp add: client_on_message_def)
    then show ?thesis
      using d unfolding catch_std_def by (auto split: prod.splits sum.splits if_splits)
  qed (use assms(4) in \<open>simp add: client_on_message_def\<close>)
qed

definition throwing_env :: client_env where
  "throwing_env = idle_env\<lparr>ce_ready := \<lambda>_ c. (Inl (Thrown 3), c)\<rparr>"

theorem client_on_message_contained_witness:
  "fst (client_on_message throwing_env True sample_server_hello
      (set_on_ready_callback (Some 0) (snd (client_on_open throwing_env sample_client0)))) = Inl (Thrown 3)
   \<and> \<not> is_std_exception (Thrown 3)"
proof -
  have "callbacks_ok throwing_env"
    by (simp add: callbacks_ok_def throwing_env_def idle_env_def model_sodium_ok)
  moreover have "client_step\<^sup>*\<^sup>* (WsClientWrapper sample_server_key with_defaults)
      (set_on_ready_callback (Some 0) (snd (client_on_open throwing_env sample_client0)))"
  proof -
    have "client_step (WsClientWrapper sample_server_key with_defaults) sample_client0"
      unfolding sample_client0_def
      by (rule client_step.api [of idle_env]) (simp_all add: api_step.connect idle_env_def model_sodium_ok)
    moreover have "client_step sample_client0 (snd (client_on_open throwing_env sample_client0))"
      by (rule client_step.on_open) fact
    moreover have "client_step c (set_on_ready_callback (Some 0) c)" for c
      by (rule client_step.api [of idle_env], simp add: idle_env_def model_sodium_ok, rule api_step.register) blast
    ultimately show ?thesis
      by (meson converse_rtranclp_into_rtranclp rtranclp.rtrancl_refl)
  qed
  moreover have "fst (client_on_message throwing_env True sample_server_hello
      (set_on_ready_callback (Some 0) (snd (client_on_open throwing_env sample_client0)))) = Inl (Thrown 3)"
    by code_simp
  ultimately show ?thesis
    using client_on_message_contained [OF sample_fresh, of
        "set_on_ready_callback (Some 0) (snd (client_on_open throwing_env sample_client0))" throwing_env
        True sample_server_hello "Thrown 3"]
    by blast
qed

end
