(* ===== verification/RateLimiter.thy ===== *)
theory RateLimiter
  imports Complex_Main Config
begin

text \<open>
  \<^verbatim>\<open>RateLimiter\<close> (\<^verbatim>\<open>rate_limiter.hpp\<close>, \<^verbatim>\<open>rate_limiter.cpp\<close>): sliding windows of connections and
  handshakes per address, a token bucket of messages per connection, and the counts of active
  connections. The readings of the steady clock are arguments (milliseconds or microseconds,
  as integers: the \<^verbatim>\<open>int64_t\<close> differences of readings do not overflow). Every method body is one
  critical section under \<^verbatim>\<open>mutex_\<close>, so a run is a sequence of calls.

  The token bucket computes in \<^verbatim>\<open>double\<close>. A double is a real number here and every arithmetic
  operation applies \<open>fl\<close>, the rounding of the floating-point unit, to the exact result; what
  the lemmas use of it is the predicate \<open>rounding\<close>.
\<close>

section \<open>Sliding windows\<close>

type_synonym sliding_window = "int list"

definition window_add :: "int \<Rightarrow> sliding_window \<Rightarrow> sliding_window" where
  "window_add now_ms w = w @ [now_ms]"

text \<open>The loop from the newest entry backwards that stops at the first one before the cutoff.\<close>

fun count_from :: "int \<Rightarrow> sliding_window \<Rightarrow> nat" where
  "count_from cutoff [] = 0"
| "count_from cutoff (t # ts) = (if t \<ge> cutoff then Suc (count_from cutoff ts) else 0)"

definition count_last :: "int \<Rightarrow> int \<Rightarrow> sliding_window \<Rightarrow> nat" where
  "count_last now_ms window_ms w =
     (if window_ms = 0 then 0 else count_from (now_ms - window_ms) (rev w))"

fun drop_old :: "int \<Rightarrow> sliding_window \<Rightarrow> sliding_window" where
  "drop_old cutoff [] = []"
| "drop_old cutoff (t # ts) = (if t < cutoff then drop_old cutoff ts else t # ts)"

definition window_clean :: "int \<Rightarrow> int \<Rightarrow> sliding_window \<Rightarrow> sliding_window" where
  "window_clean now_ms window_ms w =
     (if window_ms = 0 then [] else drop_old (now_ms - window_ms) w)"

section \<open>State\<close>

record token_bucket =
  tokens :: real
  last_refill_us :: int

record per_ip_state =
  connections :: sliding_window
  handshakes :: sliding_window
  active_connections :: u32

type_synonym ip = string

record rate_limiter =
  rl_config :: rate_limit_config
  per_ip :: "(ip, per_ip_state) amap"
  message_buckets :: "(u64, token_bucket) amap"
  conn_to_ip :: "(u64, ip) amap"
  total_connections :: u32
  next_conn_id :: u64

definition RateLimiter :: "rate_limit_config \<Rightarrow> rate_limiter" where
  "RateLimiter cfg =
     \<lparr>rl_config = cfg, per_ip = [], message_buckets = [], conn_to_ip = [], total_connections = 0,
      next_conn_id = 0\<rparr>"

definition PerIPState :: per_ip_state where
  "PerIPState = \<lparr>connections = [], handshakes = [], active_connections = 0\<rparr>"

text \<open>\<^verbatim>\<open>per_ip_[ip]\<close>: the entry, created with default members when absent.\<close>

definition ip_state :: "rate_limiter \<Rightarrow> ip \<Rightarrow> per_ip_state" where
  "ip_state r ip = (case m_find (per_ip r) ip of Some st \<Rightarrow> st | None \<Rightarrow> PerIPState)"

definition put_ip :: "ip \<Rightarrow> per_ip_state \<Rightarrow> rate_limiter \<Rightarrow> rate_limiter" where
  "put_ip ip st r = r\<lparr>per_ip := m_put ip st (per_ip r)\<rparr>"

section \<open>Operations\<close>

definition check_connection_rate :: "int \<Rightarrow> ip \<Rightarrow> rate_limiter \<Rightarrow> bool \<times> rate_limiter" where
  "check_connection_rate now_ms ip r =
     (if \<not> rl_enabled (rl_config r) \<or> connections_per_minute (rl_config r) = 0 then (True, r)
      else let state = ip_state r ip;
               r = put_ip ip state r;
               recent = count_last now_ms 60000 (connections state)
           in (recent < unat (connections_per_minute (rl_config r)), r))"

definition record_connection :: "int \<Rightarrow> ip \<Rightarrow> rate_limiter \<Rightarrow> rate_limiter" where
  "record_connection now_ms ip r =
     (if \<not> rl_enabled (rl_config r) then r
      else let state = ip_state r ip
           in put_ip ip (state\<lparr>connections := window_add now_ms (connections state)\<rparr>) r)"

definition check_handshake_rate :: "int \<Rightarrow> ip \<Rightarrow> rate_limiter \<Rightarrow> bool \<times> rate_limiter" where
  "check_handshake_rate now_ms ip r =
     (if \<not> rl_enabled (rl_config r) \<or> handshake_attempts_per_minute (rl_config r) = 0 then (True, r)
      else let state = ip_state r ip;
               r = put_ip ip state r;
               recent = count_last now_ms 60000 (handshakes state)
           in (recent < unat (handshake_attempts_per_minute (rl_config r)), r))"

definition record_handshake :: "int \<Rightarrow> ip \<Rightarrow> rate_limiter \<Rightarrow> rate_limiter" where
  "record_handshake now_ms ip r =
     (if \<not> rl_enabled (rl_config r) then r
      else let state = ip_state r ip
           in put_ip ip (state\<lparr>handshakes := window_add now_ms (handshakes state)\<rparr>) r)"

text \<open>The capacity of a bucket and the refill both message methods perform.\<close>

definition bucket_cap :: "rate_limit_config \<Rightarrow> real" where
  "bucket_cap cfg =
     real (unat (if burst_size cfg > 0 then burst_size cfg else messages_per_second cfg))"

definition refill :: "(real \<Rightarrow> real) \<Rightarrow> rate_limit_config \<Rightarrow> int \<Rightarrow> token_bucket \<Rightarrow> token_bucket" where
  "refill fl cfg now bucket =
     (let elapsed_s = fl (fl (of_int (now - last_refill_us bucket)) / 1000000)
      in \<lparr>tokens = min (fl (tokens bucket + fl (elapsed_s * real (unat (messages_per_second cfg)))))
                     (bucket_cap cfg),
          last_refill_us = now\<rparr>)"

definition check_message_rate ::
  "(real \<Rightarrow> real) \<Rightarrow> int \<Rightarrow> u64 \<Rightarrow> rate_limiter \<Rightarrow> bool \<times> rate_limiter" where
  "check_message_rate fl now_us conn_id r =
     (if \<not> rl_enabled (rl_config r) \<or> messages_per_second (rl_config r) = 0 then (True, r)
      else case m_find (message_buckets r) conn_id of
             None \<Rightarrow> (True, r)
           | Some bucket \<Rightarrow>
               let bucket = refill fl (rl_config r) now_us bucket
               in (tokens bucket \<ge> 1, r\<lparr>message_buckets := m_put conn_id bucket (message_buckets r)\<rparr>))"

definition record_message :: "(real \<Rightarrow> real) \<Rightarrow> int \<Rightarrow> u64 \<Rightarrow> rate_limiter \<Rightarrow> rate_limiter" where
  "record_message fl now_us conn_id r =
     (if \<not> rl_enabled (rl_config r) then r
      else let bucket =
             (case m_find (message_buckets r) conn_id of
                None \<Rightarrow>
                  let cap = bucket_cap (rl_config r)
                  in \<lparr>tokens = (if cap > 0 then fl (cap - 1) else cap), last_refill_us = now_us\<rparr>
              | Some bucket \<Rightarrow>
                  let bucket = refill fl (rl_config r) now_us bucket
                  in if tokens bucket \<ge> 1 then bucket\<lparr>tokens := fl (tokens bucket - 1)\<rparr> else bucket)
           in r\<lparr>message_buckets := m_put conn_id bucket (message_buckets r)\<rparr>)"

definition check_active_connections :: "ip \<Rightarrow> rate_limiter \<Rightarrow> bool" where
  "check_active_connections ip r =
     (if \<not> rl_enabled (rl_config r) then True
      else let ip_ok = (if connections_per_minute (rl_config r) > 0
                        then (case m_find (per_ip r) ip of
                                Some st \<Rightarrow> active_connections st < connections_per_minute (rl_config r)
                              | None \<Rightarrow> True)
                        else True);
               total_ok = (if messages_per_second (rl_config r) > 0 then False else True)
           in ip_ok \<and> total_ok)"

definition register_connection :: "ip \<Rightarrow> rate_limiter \<Rightarrow> u64 \<times> rate_limiter" where
  "register_connection ip r =
     (let r = r\<lparr>total_connections := total_connections r + 1\<rparr>;
          conn_id = next_conn_id r;
          r = r\<lparr>next_conn_id := next_conn_id r + 1\<rparr>;
          state = ip_state r ip;
          r = put_ip ip (state\<lparr>active_connections := active_connections state + 1\<rparr>) r
      in (conn_id, r\<lparr>conn_to_ip := m_put conn_id ip (conn_to_ip r)\<rparr>))"

definition unregister_connection :: "u64 \<Rightarrow> ip \<Rightarrow> rate_limiter \<Rightarrow> rate_limiter" where
  "unregister_connection conn_id ip r =
     (let r = r\<lparr>total_connections := total_connections r - 1\<rparr>;
          r = (case m_find (per_ip r) ip of
                 None \<Rightarrow> r
               | Some state \<Rightarrow>
                   if active_connections state > 0
                   then put_ip ip (state\<lparr>active_connections := active_connections state - 1\<rparr>) r
                   else r)
      in r\<lparr>conn_to_ip := m_erase conn_id (conn_to_ip r),
           message_buckets := m_erase conn_id (message_buckets r)\<rparr>)"

definition active_total :: "rate_limiter \<Rightarrow> u32" where
  "active_total r = total_connections r"

definition clean_ip :: "int \<Rightarrow> per_ip_state \<Rightarrow> per_ip_state" where
  "clean_ip now st =
     st\<lparr>connections := window_clean now 60000 (connections st),
        handshakes := window_clean now 60000 (handshakes st)\<rparr>"

definition cleanup :: "int \<Rightarrow> rate_limiter \<Rightarrow> rate_limiter" where
  "cleanup now r =
     r\<lparr>per_ip := filter (\<lambda>(ip, st). \<not> (active_connections st = 0 \<and> connections st = [] \<and> handshakes st = []))
                  (map (\<lambda>(ip, st). (ip, clean_ip now st)) (per_ip r))\<rparr>"

section \<open>Windows with ascending entries\<close>

lemma count_from_length:
  "sorted_wrt (\<ge>) ts \<Longrightarrow> count_from c ts = length (filter (\<lambda>t. c \<le> t) ts)"
proof (induction ts)
  case (Cons t ts)
  then show ?case
    by (cases "c \<le> t") (auto simp: filter_empty_conv)
qed simp

lemma count_last_length:
  "sorted w \<Longrightarrow> win \<noteq> 0 \<Longrightarrow> count_last now win w = length (filter (\<lambda>t. now - win \<le> t) w)"
  by (simp add: count_last_def count_from_length sorted_wrt_rev flip: rev_filter)

lemma drop_old_filter: "sorted w \<Longrightarrow> drop_old c w = filter (\<lambda>t. c \<le> t) w"
proof (induction w)
  case (Cons t ts)
  then show ?case
    by (cases "c \<le> t") (auto intro!: filter_True [symmetric])
qed simp

lemma window_clean_filter:
  "sorted w \<Longrightarrow> win \<noteq> 0 \<Longrightarrow> window_clean now win w = filter (\<lambda>t. now - win \<le> t) w"
  by (simp add: window_clean_def drop_old_filter)

section \<open>Interface of a sliding-window limiter\<close>

text \<open>
  A client of a window admits an address when the check, at one reading of the clock, succeeds, and
  then records it at a later reading. In
  between, the windows are swept and other operations of the object run. The reference limiter
  remembers every admission for ever and decides on the whole history.
\<close>

datatype 'o window_op = Attempt int int ip | Sweep int | Other 'o

fun window_run ::
  "(int \<Rightarrow> ip \<Rightarrow> 's \<Rightarrow> bool \<times> 's) \<Rightarrow> (int \<Rightarrow> ip \<Rightarrow> 's \<Rightarrow> 's) \<Rightarrow> (int \<Rightarrow> 's \<Rightarrow> 's) \<Rightarrow> ('o \<Rightarrow> 's \<Rightarrow> 's)
     \<Rightarrow> 'o window_op list \<Rightarrow> 's \<Rightarrow> bool list" where
  "window_run check enter sweep other [] s = []"
| "window_run check enter sweep other (Attempt now1 now2 ip # ops) s =
     (case check now1 ip s of (b, s) \<Rightarrow>
        b # window_run check enter sweep other ops (if b then enter now2 ip s else s))"
| "window_run check enter sweep other (Sweep now # ops) s =
     window_run check enter sweep other ops (sweep now s)"
| "window_run check enter sweep other (Other x # ops) s =
     window_run check enter sweep other ops (other x s)"

definition recent_admissions :: "int \<Rightarrow> ip \<Rightarrow> (ip \<times> int) list \<Rightarrow> nat" where
  "recent_admissions now ip hist = length (filter (\<lambda>(i, t). i = ip \<and> now - 60000 \<le> t) hist)"

fun reference_run :: "nat \<Rightarrow> (ip \<times> int) list \<Rightarrow> 'o window_op list \<Rightarrow> bool list" where
  "reference_run n hist [] = []"
| "reference_run n hist (Attempt now1 now2 ip # ops) =
     (let b = recent_admissions now1 ip hist < n
      in b # reference_run n (if b then hist @ [(ip, now2)] else hist) ops)"
| "reference_run n hist (Sweep now # ops) = reference_run n hist ops"
| "reference_run n hist (Other x # ops) = reference_run n hist ops"

text \<open>The admissions in a run, and whether the clock readings of a run ascend.\<close>

fun admissions :: "'o window_op list \<Rightarrow> bool list \<Rightarrow> (ip \<times> int) list" where
  "admissions (Attempt now1 now2 ip # ops) (b # bs) = (if b then [(ip, now2)] else []) @ admissions ops bs"
| "admissions (Sweep now # ops) bs = admissions ops bs"
| "admissions (Other x # ops) bs = admissions ops bs"
| "admissions _ _ = []"

fun ascending_from :: "int \<Rightarrow> 'o window_op list \<Rightarrow> bool" where
  "ascending_from now [] = True"
| "ascending_from now (Attempt t1 t2 ip # ops) = (now \<le> t1 \<and> t1 \<le> t2 \<and> ascending_from t2 ops)"
| "ascending_from now (Sweep t # ops) = (now \<le> t \<and> ascending_from t ops)"
| "ascending_from now (Other x # ops) = ascending_from now ops"

definition times_of :: "ip \<Rightarrow> (ip \<times> int) list \<Rightarrow> int list" where
  "times_of ip hist = map snd (filter (\<lambda>p. fst p = ip) hist)"

lemma times_of_snoc [simp]: "times_of ip (hist @ [(i, t)]) = times_of ip hist @ (if i = ip then [t] else [])"
  by (simp add: times_of_def)

lemma recent_admissions_times:
  "recent_admissions now ip hist = length (filter (\<lambda>t. now - 60000 \<le> t) (times_of ip hist))"
  by (induction hist) (auto simp: recent_admissions_def times_of_def)

text \<open>No reference run admits more than \<open>n\<close> times within 60 seconds.\<close>

definition admitted_within :: "int \<Rightarrow> ip \<Rightarrow> (ip \<times> int) list \<Rightarrow> nat" where
  "admitted_within lo ip hist = length (filter (\<lambda>(i, t). i = ip \<and> lo \<le> t \<and> t \<le> lo + 60000) hist)"

lemma within_recent: "now \<le> lo + 60000 \<Longrightarrow> admitted_within lo ip hist \<le> recent_admissions now ip hist"
  by (induction hist) (auto simp: admitted_within_def recent_admissions_def)

lemma reference_run_bound:
  "admitted_within lo ip hist \<le> n \<Longrightarrow> ascending_from now ops \<Longrightarrow>
     admitted_within lo ip (hist @ admissions ops (reference_run n hist ops)) \<le> n"
proof (induction n hist ops arbitrary: now rule: reference_run.induct)
  case (2 n hist t1 t2 i ops)
  show ?case
  proof (cases "recent_admissions t1 i hist < n")
    case True
    have "admitted_within lo ip (hist @ [(i, t2)]) \<le> n"
    proof (cases "i = ip \<and> lo \<le> t2 \<and> t2 \<le> lo + 60000")
      case True
      then have "t1 \<le> lo + 60000" using 2(3) by simp
      then show ?thesis
        using True \<open>recent_admissions t1 i hist < n\<close> within_recent [of t1 lo ip hist]
        by (simp add: admitted_within_def)
    next
      case False
      then show ?thesis using 2(2) by (auto simp: admitted_within_def)
    qed
    with True 2(1) [OF refl, of t2] 2(3) show ?thesis by (simp add: Let_def)
  next
    case False
    with 2(1) [OF refl, of t2] 2(2,3) show ?thesis by (simp add: Let_def)
  qed
next
  case (3 n hist t ops)
  then show ?case using 3(1) [of t] by simp
qed simp_all

text \<open>A window follows the admission times \<open>ts\<close> of an address at time \<open>now\<close>: its entries ascend,
  lie in the past, and agree with \<open>ts\<close> on the last 60 seconds.\<close>

definition follows :: "int \<Rightarrow> int list \<Rightarrow> sliding_window \<Rightarrow> bool" where
  "follows now ts w \<longleftrightarrow> sorted w \<and> list_all (\<lambda>t. t \<le> now) w
     \<and> filter (\<lambda>t. now - 60000 \<le> t) w = filter (\<lambda>t. now - 60000 \<le> t) ts"

lemma follows_later: "follows now ts w \<Longrightarrow> now \<le> t \<Longrightarrow> follows t ts w"
proof -
  assume f: "follows now ts w" and le: "now \<le> t"
  have narrow: "filter (\<lambda>x. t - 60000 \<le> x) xs
      = filter (\<lambda>x. t - 60000 \<le> x) (filter (\<lambda>x. now - 60000 \<le> x) xs)" for xs :: "int list"
    using le by (auto intro: filter_cong)
  have "filter (\<lambda>x. t - 60000 \<le> x) w = filter (\<lambda>x. t - 60000 \<le> x) ts"
    using f unfolding follows_def narrow [of w] narrow [of ts] by simp
  then show "follows t ts w"
    using f le by (auto simp: follows_def list_all_iff)
qed

lemma follows_count:
  "follows now ts w \<Longrightarrow> count_last now 60000 w = length (filter (\<lambda>t. now - 60000 \<le> t) ts)"
  by (simp add: follows_def count_last_length)

lemma follows_snoc: "follows now ts w \<Longrightarrow> follows now (ts @ [now]) (w @ [now])"
  by (simp add: follows_def sorted_append list_all_iff)

lemma follows_clean: "follows now ts w \<Longrightarrow> follows now ts (window_clean now 60000 w)"
proof -
  assume f: "follows now ts w"
  then have c: "window_clean now 60000 w = filter (\<lambda>t. now - 60000 \<le> t) w"
    by (simp add: follows_def window_clean_filter)
  have "sorted (filter (\<lambda>t. now - 60000 \<le> t) w)"
    using f unfolding follows_def by (metis sorted_wrt_filter)
  moreover have "list_all (\<lambda>t. t \<le> now) w"
    using f by (simp add: follows_def)
  then have "list_all (\<lambda>t. t \<le> now) (filter (\<lambda>t. now - 60000 \<le> t) w)"
    by (simp add: list_all_iff)
  moreover have "filter (\<lambda>t. now - 60000 \<le> t) w = filter (\<lambda>t. now - 60000 \<le> t) ts"
    using f by (simp add: follows_def)
  ultimately show "follows now ts (window_clean now 60000 w)"
    by (simp add: c follows_def)
qed

text \<open>What a sliding-window limiter promises its client: the check compares the window with the
  limit, recording appends to the window of that address, sweeping drops what has left the
  window, and every other operation leaves the windows alone.\<close>

locale window_limiter =
  fixes ok :: "'s \<Rightarrow> bool"
    and window :: "'s \<Rightarrow> ip \<Rightarrow> sliding_window"
    and limit :: "'s \<Rightarrow> nat"
    and check :: "int \<Rightarrow> ip \<Rightarrow> 's \<Rightarrow> bool \<times> 's"
    and enter :: "int \<Rightarrow> ip \<Rightarrow> 's \<Rightarrow> 's"
    and sweep :: "int \<Rightarrow> 's \<Rightarrow> 's"
    and other :: "'o \<Rightarrow> 's \<Rightarrow> 's"
  assumes check_law: "ok s \<Longrightarrow> check now ip s = (b, s') \<Longrightarrow>
        (b \<longleftrightarrow> count_last now 60000 (window s ip) < limit s)
        \<and> ok s' \<and> limit s' = limit s \<and> window s' = window s"
    and enter_law: "ok s \<Longrightarrow> ok (enter now ip s) \<and> limit (enter now ip s) = limit s
        \<and> window (enter now ip s) = (window s)(ip := window_add now (window s ip))"
    and sweep_law: "ok s \<Longrightarrow> ok (sweep now s) \<and> limit (sweep now s) = limit s
        \<and> window (sweep now s) = (\<lambda>ip. window_clean now 60000 (window s ip))"
    and other_law: "ok s \<Longrightarrow> ok (other x s) \<and> limit (other x s) = limit s \<and> window (other x s) = window s"
begin

definition tracks :: "int \<Rightarrow> (ip \<times> int) list \<Rightarrow> 's \<Rightarrow> bool" where
  "tracks now hist s \<longleftrightarrow> ok s \<and> (\<forall>ip. follows now (times_of ip hist) (window s ip))"

lemma tracks_fresh: "ok s \<Longrightarrow> (\<And>ip. window s ip = []) \<Longrightarrow> tracks now [] s"
  by (simp add: tracks_def follows_def times_of_def)

lemma tracks_later: "tracks now hist s \<Longrightarrow> now \<le> t \<Longrightarrow> tracks t hist s"
  unfolding tracks_def using follows_later by blast

lemma check_decides:
  "tracks now hist s \<Longrightarrow> check now ip s = (b, s') \<Longrightarrow>
     (b \<longleftrightarrow> recent_admissions now ip hist < limit s) \<and> tracks now hist s' \<and> limit s' = limit s"
  using check_law [of s now ip b s'] unfolding tracks_def recent_admissions_times
  by (metis follows_count)

lemma enter_tracks:
  "tracks now hist s \<Longrightarrow> tracks now (hist @ [(ip, now)]) (enter now ip s) \<and> limit (enter now ip s) = limit s"
  using enter_law [of s now ip] by (simp add: tracks_def window_add_def follows_snoc)

lemma sweep_tracks:
  "tracks now hist s \<Longrightarrow> tracks now hist (sweep now s) \<and> limit (sweep now s) = limit s"
  using sweep_law [of s now] by (simp add: tracks_def follows_clean)

lemma other_tracks: "tracks now hist s \<Longrightarrow> tracks now hist (other x s) \<and> limit (other x s) = limit s"
  using other_law [of s x] by (auto simp: tracks_def)

lemma run_refines_reference:
  "tracks now hist s \<Longrightarrow> ascending_from now ops \<Longrightarrow>
     window_run check enter sweep other ops s = reference_run (limit s) hist ops"
proof (induction ops arbitrary: now hist s)
  case (Cons op ops)
  show ?case
  proof (cases op)
    case (Attempt t1 t2 ip)
    obtain b s' where c: "check t1 ip s = (b, s')" by (cases "check t1 ip s")
    have t: "now \<le> t1" "t1 \<le> t2" using Cons.prems Attempt by auto
    note d = check_decides [OF tracks_later [OF Cons.prems(1) t(1)] c]
    have "tracks t2 (if b then hist @ [(ip, t2)] else hist) (if b then enter t2 ip s' else s')
        \<and> limit (if b then enter t2 ip s' else s') = limit s"
      using d enter_tracks [of t2 hist s' ip] tracks_later [of t1 hist s', OF _ t(2)] by simp
    then show ?thesis
      using Cons.IH [of t2 "if b then hist @ [(ip, t2)] else hist" "if b then enter t2 ip s' else s'"]
        Cons.prems Attempt c d by (auto simp: Let_def)
  next
    case (Sweep t)
    then show ?thesis
      using Cons.IH [of t hist "sweep t s"] Cons.prems sweep_tracks [OF tracks_later [of now hist s t]]
      by simp
  next
    case (Other x)
    then show ?thesis
      using Cons.IH [of now hist "other x s"] Cons.prems other_tracks [of now hist s x] by simp
  qed
qed simp

end

section \<open>The two windows of the rate limiter\<close>

text \<open>Server-side use of the limiter: what runs between the attempts of one kind.\<close>

datatype rl_other = Window_attempt int int ip | Message int int u64 | Register ip | Unregister u64 ip

definition try_connection :: "int \<Rightarrow> int \<Rightarrow> ip \<Rightarrow> rate_limiter \<Rightarrow> rate_limiter" where
  "try_connection now1 now2 ip r =
     (case check_connection_rate now1 ip r of (b, r) \<Rightarrow> if b then record_connection now2 ip r else r)"

definition try_handshake :: "int \<Rightarrow> int \<Rightarrow> ip \<Rightarrow> rate_limiter \<Rightarrow> rate_limiter" where
  "try_handshake now1 now2 ip r =
     (case check_handshake_rate now1 ip r of (b, r) \<Rightarrow> if b then record_handshake now2 ip r else r)"

definition try_message :: "(real \<Rightarrow> real) \<Rightarrow> int \<Rightarrow> int \<Rightarrow> u64 \<Rightarrow> rate_limiter \<Rightarrow> bool \<times> rate_limiter" where
  "try_message fl now1 now2 conn_id r =
     (case check_message_rate fl now1 conn_id r of
        (b, r) \<Rightarrow> (b, if b then record_message fl now2 conn_id r else r))"

fun conn_other :: "(real \<Rightarrow> real) \<Rightarrow> rl_other \<Rightarrow> rate_limiter \<Rightarrow> rate_limiter" where
  "conn_other fl (Window_attempt now1 now2 ip) r = try_handshake now1 now2 ip r"
| "conn_other fl (Message now1 now2 conn_id) r = snd (try_message fl now1 now2 conn_id r)"
| "conn_other fl (Register ip) r = snd (register_connection ip r)"
| "conn_other fl (Unregister conn_id ip) r = unregister_connection conn_id ip r"

fun hs_other :: "(real \<Rightarrow> real) \<Rightarrow> rl_other \<Rightarrow> rate_limiter \<Rightarrow> rate_limiter" where
  "hs_other fl (Window_attempt now1 now2 ip) r = try_connection now1 now2 ip r"
| "hs_other fl x r = conn_other fl x r"

definition conn_ok :: "rate_limiter \<Rightarrow> bool" where
  "conn_ok r \<longleftrightarrow> keys_ok (per_ip r) \<and> rl_enabled (rl_config r) \<and> connections_per_minute (rl_config r) \<noteq> 0"

definition hs_ok :: "rate_limiter \<Rightarrow> bool" where
  "hs_ok r \<longleftrightarrow> keys_ok (per_ip r) \<and> rl_enabled (rl_config r)
     \<and> handshake_attempts_per_minute (rl_config r) \<noteq> 0"

lemma ip_state_put [simp]: "ip_state (put_ip ip st r) ip' = (if ip' = ip then st else ip_state r ip')"
  by (simp add: ip_state_def put_ip_def)

lemma put_ip_fields [simp]:
  "rl_config (put_ip ip st r) = rl_config r" "message_buckets (put_ip ip st r) = message_buckets r"
  "conn_to_ip (put_ip ip st r) = conn_to_ip r" "total_connections (put_ip ip st r) = total_connections r"
  "next_conn_id (put_ip ip st r) = next_conn_id r"
  by (simp_all add: put_ip_def)

lemma keys_ok_put_ip [simp]: "keys_ok (per_ip r) \<Longrightarrow> keys_ok (per_ip (put_ip ip st r))"
  by (simp add: put_ip_def)

lemma ip_state_same_map:
  "ip_state (r\<lparr>message_buckets := a\<rparr>) ip = ip_state r ip" "ip_state (r\<lparr>conn_to_ip := b\<rparr>) ip = ip_state r ip"
  "ip_state (r\<lparr>total_connections := c\<rparr>) ip = ip_state r ip" "ip_state (r\<lparr>next_conn_id := d\<rparr>) ip = ip_state r ip"
  by (simp_all add: ip_state_def)

lemma keys_ok_map_values [simp]: "keys_ok (map (\<lambda>(k, v). (k, f v)) m) = keys_ok m"
  by (simp add: keys_ok_def o_def case_prod_unfold)

lemma cleanup_ip_state:
  assumes "keys_ok (per_ip r)"
  shows "ip_state (cleanup now r) ip = clean_ip now (ip_state r ip)"
proof -
  have "m_find (map (\<lambda>(i, st). (i, clean_ip now st)) (per_ip r)) ip = map_option (clean_ip now) (m_find (per_ip r) ip)"
    by (simp add: map_of_map)
  then show ?thesis
    using assms m_find_filter [of "map (\<lambda>(i, st). (i, clean_ip now st)) (per_ip r)"]
    by (auto simp: ip_state_def cleanup_def clean_ip_def PerIPState_def window_clean_def split: option.splits)
qed

lemma cleanup_fields [simp]:
  "rl_config (cleanup now r) = rl_config r" "message_buckets (cleanup now r) = message_buckets r"
  "conn_to_ip (cleanup now r) = conn_to_ip r" "total_connections (cleanup now r) = total_connections r"
  "next_conn_id (cleanup now r) = next_conn_id r"
  by (simp_all add: cleanup_def)

lemma keys_ok_cleanup [simp]: "keys_ok (per_ip r) \<Longrightarrow> keys_ok (per_ip (cleanup now r))"
  by (simp add: cleanup_def)

text \<open>What the operations do to the windows and the counts of an address.\<close>

lemmas rl_op_defs =
  check_connection_rate_def record_connection_def check_handshake_rate_def record_handshake_def
  check_message_rate_def record_message_def register_connection_def unregister_connection_def
  try_connection_def try_handshake_def try_message_def

lemma ip_state_in_map: "m_find (per_ip r) ip = Some st \<Longrightarrow> st = ip_state r ip"
  by (simp add: ip_state_def)

lemma conn_other_keeps:
  "rl_config (conn_other fl x r) = rl_config r"
  "connections (ip_state (conn_other fl x r) ip) = connections (ip_state r ip)"
  "keys_ok (per_ip r) \<Longrightarrow> keys_ok (per_ip (conn_other fl x r))"
  by (cases x; auto simp: rl_op_defs Let_def ip_state_same_map dest: ip_state_in_map split: option.splits)+

lemma hs_other_keeps:
  "rl_config (hs_other fl x r) = rl_config r"
  "handshakes (ip_state (hs_other fl x r) ip) = handshakes (ip_state r ip)"
  "keys_ok (per_ip r) \<Longrightarrow> keys_ok (per_ip (hs_other fl x r))"
  by (cases x; auto simp: rl_op_defs Let_def ip_state_same_map dest: ip_state_in_map split: option.splits)+

interpretation conn_limiter:
  window_limiter conn_ok "\<lambda>r ip. connections (ip_state r ip)"
    "\<lambda>r. unat (connections_per_minute (rl_config r))"
    check_connection_rate record_connection cleanup "conn_other fl" for fl
proof unfold_locales
  fix s now ip b s' x
  assume ok: "conn_ok s"
  then show "check_connection_rate now ip s = (b, s') \<Longrightarrow>
      b = (count_last now 60000 (connections (ip_state s ip)) < unat (connections_per_minute (rl_config s)))
      \<and> conn_ok s' \<and> unat (connections_per_minute (rl_config s')) = unat (connections_per_minute (rl_config s))
      \<and> (\<lambda>ip. connections (ip_state s' ip)) = (\<lambda>ip. connections (ip_state s ip))"
    by (auto simp: conn_ok_def check_connection_rate_def Let_def fun_eq_iff)
  show "conn_ok (record_connection now ip s)
      \<and> unat (connections_per_minute (rl_config (record_connection now ip s))) = unat (connections_per_minute (rl_config s))
      \<and> (\<lambda>i. connections (ip_state (record_connection now ip s) i))
        = (\<lambda>i. connections (ip_state s i))(ip := window_add now (connections (ip_state s ip)))"
    using ok by (auto simp: conn_ok_def record_connection_def Let_def fun_eq_iff)
  show "conn_ok (cleanup now s)
      \<and> unat (connections_per_minute (rl_config (cleanup now s))) = unat (connections_per_minute (rl_config s))
      \<and> (\<lambda>ip. connections (ip_state (cleanup now s) ip))
        = (\<lambda>ip. window_clean now 60000 (connections (ip_state s ip)))"
    using ok by (auto simp: conn_ok_def cleanup_ip_state clean_ip_def)
  show "conn_ok (conn_other fl x s)
      \<and> unat (connections_per_minute (rl_config (conn_other fl x s))) = unat (connections_per_minute (rl_config s))
      \<and> (\<lambda>ip. connections (ip_state (conn_other fl x s) ip)) = (\<lambda>ip. connections (ip_state s ip))"
    using ok by (auto simp: conn_ok_def conn_other_keeps)
qed

interpretation hs_limiter:
  window_limiter hs_ok "\<lambda>r ip. handshakes (ip_state r ip)"
    "\<lambda>r. unat (handshake_attempts_per_minute (rl_config r))"
    check_handshake_rate record_handshake cleanup "hs_other fl" for fl
proof unfold_locales
  fix s now ip b s' x
  assume ok: "hs_ok s"
  then show "check_handshake_rate now ip s = (b, s') \<Longrightarrow>
      b = (count_last now 60000 (handshakes (ip_state s ip)) < unat (handshake_attempts_per_minute (rl_config s)))
      \<and> hs_ok s'
      \<and> unat (handshake_attempts_per_minute (rl_config s')) = unat (handshake_attempts_per_minute (rl_config s))
      \<and> (\<lambda>ip. handshakes (ip_state s' ip)) = (\<lambda>ip. handshakes (ip_state s ip))"
    by (auto simp: hs_ok_def check_handshake_rate_def Let_def fun_eq_iff)
  show "hs_ok (record_handshake now ip s)
      \<and> unat (handshake_attempts_per_minute (rl_config (record_handshake now ip s)))
        = unat (handshake_attempts_per_minute (rl_config s))
      \<and> (\<lambda>i. handshakes (ip_state (record_handshake now ip s) i))
        = (\<lambda>i. handshakes (ip_state s i))(ip := window_add now (handshakes (ip_state s ip)))"
    using ok by (auto simp: hs_ok_def record_handshake_def Let_def fun_eq_iff)
  show "hs_ok (cleanup now s)
      \<and> unat (handshake_attempts_per_minute (rl_config (cleanup now s)))
        = unat (handshake_attempts_per_minute (rl_config s))
      \<and> (\<lambda>ip. handshakes (ip_state (cleanup now s) ip))
        = (\<lambda>ip. window_clean now 60000 (handshakes (ip_state s ip)))"
    using ok by (auto simp: hs_ok_def cleanup_ip_state clean_ip_def)
  show "hs_ok (hs_other fl x s)
      \<and> unat (handshake_attempts_per_minute (rl_config (hs_other fl x s)))
        = unat (handshake_attempts_per_minute (rl_config s))
      \<and> (\<lambda>ip. handshakes (ip_state (hs_other fl x s) ip)) = (\<lambda>ip. handshakes (ip_state s ip))"
    using ok by (auto simp: hs_ok_def hs_other_keeps)
qed

section \<open>The registry of active connections as a state machine\<close>

text \<open>One step is one call. A connection is unregistered with the identifier and the address it
  was registered with; the 32-bit counters and the 64-bit identifiers are not exhausted.\<close>

inductive rl_step :: "rate_limiter \<Rightarrow> rate_limiter \<Rightarrow> bool" where
  check_conn: "rl_step r (snd (check_connection_rate now ip r))"
| record_conn: "rl_step r (record_connection now ip r)"
| check_hs: "rl_step r (snd (check_handshake_rate now ip r))"
| record_hs: "rl_step r (record_handshake now ip r)"
| check_msg: "rl_step r (snd (check_message_rate fl now conn_id r))"
| record_msg: "rl_step r (record_message fl now conn_id r)"
| sweep: "rl_step r (cleanup now r)"
| register: "length (conn_to_ip r) < 2 ^ 32 - 1 \<Longrightarrow> unat (next_conn_id r) < 2 ^ 64 - 1 \<Longrightarrow>
     rl_step r (snd (register_connection ip r))"
| unregister: "m_find (conn_to_ip r) conn_id = Some ip \<Longrightarrow> rl_step r (unregister_connection conn_id ip r)"

inductive_cases rl_stepE: "rl_step r t"

definition registered_from :: "ip \<Rightarrow> rate_limiter \<Rightarrow> nat" where
  "registered_from ip r = length (filter (\<lambda>p. snd p = ip) (conn_to_ip r))"

definition registry_inv :: "rate_limiter \<Rightarrow> bool" where
  "registry_inv r \<longleftrightarrow>
     keys_ok (per_ip r) \<and> keys_ok (conn_to_ip r)
     \<and> unat (total_connections r) = length (conn_to_ip r)
     \<and> (\<forall>ip. unat (active_connections (ip_state r ip)) = registered_from ip r)
     \<and> (\<forall>(conn_id, ip) \<in> set (conn_to_ip r). conn_id < next_conn_id r)"

lemma registry_fields:
  assumes "registry_inv r" and "keys_ok (per_ip t)" and "conn_to_ip t = conn_to_ip r"
    and "total_connections t = total_connections r" and "next_conn_id t = next_conn_id r"
    and "\<And>ip. active_connections (ip_state t ip) = active_connections (ip_state r ip)"
  shows "registry_inv t"
  using assms by (simp add: registry_inv_def registered_from_def)

lemma unat_add_1: "unat (w :: 'a::len word) + 1 < 2 ^ LENGTH('a) \<Longrightarrow> unat (w + 1) = unat w + 1"
  by (simp add: unat_word_ariths)

lemma unat_diff_1: "0 < (w :: 'a::len word) \<Longrightarrow> unat (w - 1) = unat w - 1"
  by (rule unat_minus_one) auto

lemma register_inv:
  assumes inv: "registry_inv r" and few: "length (conn_to_ip r) < 2 ^ 32 - 1"
    and ids: "unat (next_conn_id r) < 2 ^ 64 - 1"
  shows "registry_inv (snd (register_connection ip r))"
proof -
  have fresh: "m_find (conn_to_ip r) (next_conn_id r) = None"
    using inv by (force simp: registry_inv_def map_of_eq_None_iff)
  have le: "registered_from i r \<le> length (conn_to_ip r)" for i
    by (simp add: registered_from_def)
  have total: "unat (total_connections r + 1) = length (conn_to_ip r) + 1"
    using inv few unat_add_1 [of "total_connections r"] by (simp add: registry_inv_def)
  have act: "unat (active_connections (ip_state r ip) + 1) = registered_from ip r + 1"
    using inv few le [of ip] unat_add_1 [of "active_connections (ip_state r ip)"]
    by (simp add: registry_inv_def)
  have next_id: "next_conn_id r < next_conn_id r + 1"
    using unat_add_1 [of "next_conn_id r"] ids by (simp add: word_less_nat_alt)
  show ?thesis
    using inv fresh total act next_id
    by (auto simp: registry_inv_def register_connection_def Let_def m_put_fresh registered_from_def
        ip_state_same_map keys_ok_snoc intro: order_less_trans)
qed

lemma unregister_inv:
  assumes inv: "registry_inv r" and reg: "m_find (conn_to_ip r) conn_id = Some ip"
  shows "registry_inv (unregister_connection conn_id ip r)"
proof -
  note len = length_erase [OF _ reg] and cnt = length_filter_erase [OF _ reg]
  have keys: "keys_ok (conn_to_ip r)" using inv by (simp add: registry_inv_def)
  have here: "registered_from ip r = Suc (length (filter (\<lambda>p. snd p = ip) (m_erase conn_id (conn_to_ip r))))"
    using cnt [OF keys, of "\<lambda>p. snd p = ip"] by (simp add: registered_from_def)
  have elsewhere: "i \<noteq> ip \<Longrightarrow>
      registered_from i r = length (filter (\<lambda>p. snd p = i) (m_erase conn_id (conn_to_ip r)))" for i
    using cnt [OF keys, of "\<lambda>p. snd p = i"] by (simp add: registered_from_def)
  have act: "unat (active_connections (ip_state r ip)) = registered_from ip r"
    using inv by (simp add: registry_inv_def)
  then have pos: "0 < active_connections (ip_state r ip)"
    using here by (metis unat_gt_0 word_gt_0 zero_less_Suc neq0_conv)
  then have dec: "unat (active_connections (ip_state r ip) - 1) = registered_from ip r - 1"
    using unat_diff_1 [OF pos] act by simp
  have total: "unat (total_connections r - 1) = length (m_erase conn_id (conn_to_ip r))"
    using inv len [OF keys] unat_diff_1 [of "total_connections r"] by (simp add: registry_inv_def word_gt_0_no unat_gt_0 word_less_nat_alt)
  have "m_find (per_ip r) ip = Some (ip_state r ip)"
    using pos by (auto simp: ip_state_def PerIPState_def split: option.splits)
  then show ?thesis
    using inv pos dec total here elsewhere set_m_erase [of conn_id "conn_to_ip r"]
    by (auto simp: registry_inv_def unregister_connection_def Let_def registered_from_def ip_state_same_map)
qed

lemma rl_step_inv: "registry_inv r \<Longrightarrow> rl_step r t \<Longrightarrow> registry_inv t"
proof (erule rl_stepE)
  fix now ip
  assume inv: "registry_inv r"
  then have k: "keys_ok (per_ip r)" by (simp add: registry_inv_def)
  show "t = snd (check_connection_rate now ip r) \<Longrightarrow> registry_inv t"
    using k by (intro registry_fields [OF inv]) (auto simp: check_connection_rate_def Let_def)
  show "t = record_connection now ip r \<Longrightarrow> registry_inv t"
    using k by (intro registry_fields [OF inv]) (auto simp: record_connection_def Let_def)
  show "t = snd (check_handshake_rate now ip r) \<Longrightarrow> registry_inv t"
    using k by (intro registry_fields [OF inv]) (auto simp: check_handshake_rate_def Let_def)
  show "t = record_handshake now ip r \<Longrightarrow> registry_inv t"
    using k by (intro registry_fields [OF inv]) (auto simp: record_handshake_def Let_def)
  show "t = cleanup now r \<Longrightarrow> registry_inv t"
    using k by (intro registry_fields [OF inv]) (auto simp: cleanup_ip_state clean_ip_def)
next
  fix fl :: "real \<Rightarrow> real" and now conn_id
  assume inv: "registry_inv r"
  then have k: "keys_ok (per_ip r)" by (simp add: registry_inv_def)
  show "t = snd (check_message_rate fl now conn_id r) \<Longrightarrow> registry_inv t"
    using k by (intro registry_fields [OF inv])
      (auto simp: check_message_rate_def Let_def ip_state_same_map split: option.splits)
  show "t = record_message fl now conn_id r \<Longrightarrow> registry_inv t"
    using k by (intro registry_fields [OF inv])
      (auto simp: record_message_def Let_def ip_state_same_map split: option.splits)
qed (auto intro: register_inv unregister_inv)

lemma fresh_registry_inv: "registry_inv (RateLimiter cfg)"
  by (simp add: registry_inv_def RateLimiter_def registered_from_def ip_state_def PerIPState_def)

interpretation registry_machine: machine "\<lambda>r. \<exists>cfg. r = RateLimiter cfg" rl_step registry_inv
  by unfold_locales (auto intro: fresh_registry_inv rl_step_inv)

section \<open>The token bucket\<close>

text \<open>
  What is used of floating-point rounding with unit roundoff \<open>u\<close>: it is monotone, exact on the
  integers below \<open>2 ^ 53\<close>, and relatively precise on non-negative numbers. IEEE doubles have
  this with \<open>u = 2 ^ (- 53)\<close>, exact arithmetic with \<open>u = 0\<close>; \<open>fixed_point\<close> is another instance.
\<close>

definition rounding :: "(real \<Rightarrow> real) \<Rightarrow> real \<Rightarrow> bool" where
  "rounding fl u \<longleftrightarrow> mono fl \<and> 0 \<le> u \<and> (\<forall>n :: nat. n < 2 ^ 53 \<longrightarrow> fl (real n) = real n)
     \<and> (\<forall>x \<ge> 0. fl x \<le> x * (1 + u))"

definition fixed_point :: "real \<Rightarrow> real" where
  "fixed_point x = of_int \<lfloor>x * 1024\<rfloor> / 1024"

lemma fixed_point_rounding: "rounding fixed_point 0"
proof -
  have "fixed_point (real n) = real n" for n
    by (simp add: fixed_point_def flip: of_nat_mult of_int_mult)
  moreover have "mono fixed_point"
    by (auto intro!: monoI simp: fixed_point_def divide_right_mono floor_mono)
  moreover have "fixed_point x \<le> x" for x
    using of_int_floor_le [of "x * 1024"] by (simp add: fixed_point_def)
  ultimately show ?thesis by (simp add: rounding_def)
qed

lemma rounding_zero: "rounding fl u \<Longrightarrow> fl 0 = 0"
proof -
  assume "rounding fl u"
  then have "fl (real 0) = real 0" unfolding rounding_def by (elim conjE allE [of _ 0]) simp
  then show "fl 0 = 0" by simp
qed

lemma rounding_mono: "rounding fl u \<Longrightarrow> x \<le> y \<Longrightarrow> fl x \<le> fl y"
  by (simp add: rounding_def mono_def)

lemma rounding_nonneg: "rounding fl u \<Longrightarrow> 0 \<le> x \<Longrightarrow> 0 \<le> fl x"
  using rounding_mono [of fl u 0 x] rounding_zero [of fl u] by simp

lemma rounding_upper: "rounding fl u \<Longrightarrow> 0 \<le> x \<Longrightarrow> fl x \<le> x * (1 + u)"
  by (simp add: rounding_def)

lemma bucket_cap_exact: "rounding fl u \<Longrightarrow> fl (bucket_cap cfg) = bucket_cap cfg"
proof -
  have "unat (w :: u32) < 2 ^ 53" for w
    using unsigned_less [where 'a = nat, of w] by simp
  then show "rounding fl u \<Longrightarrow> fl (bucket_cap cfg) = bucket_cap cfg"
    unfolding rounding_def bucket_cap_def by blast
qed

lemma real_of_word_nonneg [simp]: "0 \<le> (unsigned w :: real)"
  by (metis of_nat_0_le_iff of_nat_unat)

lemma bucket_cap_nonneg [simp]: "0 \<le> bucket_cap cfg"
  by (simp add: bucket_cap_def)

lemma bucket_cap_pos: "messages_per_second cfg \<noteq> 0 \<Longrightarrow> 1 \<le> bucket_cap cfg"
proof -
  assume "messages_per_second cfg \<noteq> 0"
  then have "unat (if burst_size cfg > 0 then burst_size cfg else messages_per_second cfg) \<noteq> 0"
    by (auto simp: unat_eq_0)
  then show "1 \<le> bucket_cap cfg" unfolding bucket_cap_def by linarith
qed

text \<open>A bucket holds between 0 tokens and its capacity, and was refilled in the past.\<close>

definition bucket_ok :: "rate_limit_config \<Rightarrow> int \<Rightarrow> token_bucket \<Rightarrow> bool" where
  "bucket_ok cfg now b \<longleftrightarrow> 0 \<le> tokens b \<and> tokens b \<le> bucket_cap cfg \<and> last_refill_us b \<le> now"

text \<open>Tokens gained per microsecond, with the rounding of the four operations of a refill.\<close>

definition refill_rate :: "rate_limit_config \<Rightarrow> real \<Rightarrow> real" where
  "refill_rate cfg u = real (unat (messages_per_second cfg)) / 1000000 * (1 + u) ^ 4"

lemma refill_rate_nonneg: "0 \<le> u \<Longrightarrow> 0 \<le> refill_rate cfg u"
  by (simp add: refill_rate_def)

lemma refill_ok:
  assumes "rounding fl u" and "bucket_ok cfg now' b" and "last_refill_us b \<le> now"
  shows "bucket_ok cfg now (refill fl cfg now b)"
  using assms by (auto simp: bucket_ok_def refill_def Let_def intro!: rounding_nonneg [OF assms(1)] add_nonneg_nonneg mult_nonneg_nonneg)

lemma refill_gain:
  assumes fl: "rounding fl u" and ok: "bucket_ok cfg now' b" and le: "last_refill_us b \<le> now"
  shows "tokens (refill fl cfg now b)
     \<le> tokens b + u * bucket_cap cfg + refill_rate cfg u * of_int (now - last_refill_us b)"
proof -
  define dt :: real where "dt = of_int (now - last_refill_us b)"
  define m where "m = real (unat (messages_per_second cfg))"
  define z where "z = fl (fl (fl dt / 1000000) * m)"
  have u: "0 \<le> u" using fl by (simp add: rounding_def)
  have dt: "0 \<le> dt" using le by (simp add: dt_def)
  have m: "0 \<le> m" by (simp add: m_def)
  note nn = rounding_nonneg [OF fl] and up = rounding_upper [OF fl]
  have x: "0 \<le> fl dt" "fl dt \<le> dt * (1 + u)"
    using dt nn up by auto
  have y: "0 \<le> fl (fl dt / 1000000)" using x nn by simp
  have "fl (fl dt / 1000000) \<le> fl dt / 1000000 * (1 + u)" using x by (intro up) simp
  also have "\<dots> \<le> dt * (1 + u) / 1000000 * (1 + u)"
    using x u by (intro mult_right_mono divide_right_mono) auto
  finally have y': "fl (fl dt / 1000000) \<le> dt * (1 + u) / 1000000 * (1 + u)" .
  have z0: "0 \<le> z" unfolding z_def using y m nn by simp
  have "z \<le> fl (fl dt / 1000000) * m * (1 + u)" unfolding z_def using y m up by simp
  also have "\<dots> \<le> dt * (1 + u) / 1000000 * (1 + u) * m * (1 + u)"
    using y' m u by (intro mult_right_mono) auto
  finally have z1: "z \<le> dt * (1 + u) / 1000000 * (1 + u) * m * (1 + u)" .
  have tok: "0 \<le> tokens b" "tokens b \<le> bucket_cap cfg" using ok by (auto simp: bucket_ok_def)
  have "tokens (refill fl cfg now b) \<le> fl (tokens b + z)"
    by (simp add: refill_def Let_def z_def dt_def m_def)
  also have "\<dots> \<le> (tokens b + z) * (1 + u)" using tok z0 up by simp
  also have "\<dots> = tokens b + u * tokens b + z * (1 + u)" by (simp add: algebra_simps)
  also have "\<dots> \<le> tokens b + u * bucket_cap cfg + (dt * (1 + u) / 1000000 * (1 + u) * m * (1 + u)) * (1 + u)"
    using tok u z1 by (intro add_mono mult_left_mono mult_right_mono) auto
  also have "\<dots> = tokens b + u * bucket_cap cfg + refill_rate cfg u * dt"
    by (simp add: refill_rate_def m_def power4_eq_xxxx)
  finally show ?thesis by (simp add: dt_def)
qed

lemma take_token:
  assumes "rounding fl u" and "bucket_ok cfg now b" and "1 \<le> tokens b"
  shows "bucket_ok cfg now (b\<lparr>tokens := fl (tokens b - 1)\<rparr>)
     \<and> fl (tokens b - 1) + 1 \<le> tokens b + u * bucket_cap cfg"
proof -
  have u: "0 \<le> u" using assms(1) by (simp add: rounding_def)
  have "fl (tokens b - 1) \<le> fl (bucket_cap cfg)"
    using assms by (intro rounding_mono [OF assms(1)]) (simp add: bucket_ok_def)
  moreover have "fl (tokens b - 1) \<le> (tokens b - 1) * (1 + u)"
    using assms(3) by (intro rounding_upper [OF assms(1)]) simp
  moreover have "u * (tokens b - 1) \<le> u * bucket_cap cfg"
    using assms(2) u by (intro mult_left_mono) (auto simp: bucket_ok_def)
  ultimately show ?thesis
    using assms rounding_nonneg [OF assms(1), of "tokens b - 1"] bucket_cap_exact [OF assms(1), of cfg]
    by (simp add: bucket_ok_def algebra_simps)
qed

text \<open>A sequence of messages on one connection, each checked and, when the check succeeds,
  recorded at a later reading of the clock: how many are accepted.\<close>

fun accepted_messages ::
  "(real \<Rightarrow> real) \<Rightarrow> u64 \<Rightarrow> (int \<times> int) list \<Rightarrow> rate_limiter \<Rightarrow> nat" where
  "accepted_messages fl conn_id [] r = 0"
| "accepted_messages fl conn_id ((now1, now2) # ts) r =
     (case try_message fl now1 now2 conn_id r of
        (b, r) \<Rightarrow> (if b then 1 else 0) + accepted_messages fl conn_id ts r)"

fun ascending_pairs :: "int \<Rightarrow> (int \<times> int) list \<Rightarrow> bool" where
  "ascending_pairs now [] = True"
| "ascending_pairs now ((t1, t2) # ts) = (now \<le> t1 \<and> t1 \<le> t2 \<and> ascending_pairs t2 ts)"

definition limiting :: "rate_limiter \<Rightarrow> bool" where
  "limiting r \<longleftrightarrow> rl_enabled (rl_config r) \<and> messages_per_second (rl_config r) \<noteq> 0"

text \<open>One message on a connection that has a bucket: the tokens that remain account for the
  accepted message, the time that passed and the rounding.\<close>

lemma try_message_spends:
  assumes fl: "rounding fl u" and lim: "limiting r"
    and b: "m_find (message_buckets r) conn_id = Some b" and ok: "bucket_ok (rl_config r) now b"
    and t: "last_refill_us b \<le> t1" "t1 \<le> t2" and run: "try_message fl t1 t2 conn_id r = (acc, r')"
  shows "\<exists>b'. m_find (message_buckets r') conn_id = Some b' \<and> rl_config r' = rl_config r
     \<and> bucket_ok (rl_config r) t2 b' \<and> last_refill_us b' \<le> t2 \<and> last_refill_us b \<le> last_refill_us b'
     \<and> tokens b' + (if acc then 1 else 0)
        \<le> tokens b + 3 * (u * bucket_cap (rl_config r))
           + refill_rate (rl_config r) u * of_int (last_refill_us b' - last_refill_us b)"
proof -
  let ?c = "rl_config r"
  define b1 where "b1 = refill fl ?c t1 b"
  have u: "0 \<le> u * bucket_cap ?c" using fl by (simp add: rounding_def)
  have last1: "last_refill_us b1 = t1" by (simp add: b1_def refill_def Let_def)
  have ok1: "bucket_ok ?c t1 b1" unfolding b1_def by (rule refill_ok [OF fl ok t(1)])
  have gain1: "tokens b1 \<le> tokens b + u * bucket_cap ?c + refill_rate ?c u * of_int (t1 - last_refill_us b)"
    unfolding b1_def by (rule refill_gain [OF fl ok t(1)])
  show ?thesis
  proof (cases "tokens b1 \<ge> 1")
    case False
    then have "\<not> acc" "r' = r\<lparr>message_buckets := m_put conn_id b1 (message_buckets r)\<rparr>"
      using run lim b by (auto simp: try_message_def check_message_rate_def limiting_def b1_def Let_def)
    then show ?thesis
      using ok1 gain1 t u last1 by (auto simp: bucket_ok_def)
  next
    case True
    define b2 where "b2 = refill fl ?c t2 b1"
    have last2: "last_refill_us b2 = t2" by (simp add: b2_def refill_def Let_def)
    have ok2: "bucket_ok ?c t2 b2" unfolding b2_def using ok1 t last1 by (intro refill_ok [OF fl]) auto
    have gain2: "tokens b2 \<le> tokens b1 + u * bucket_cap ?c + refill_rate ?c u * of_int (t2 - t1)"
      unfolding b2_def using refill_gain [OF fl ok1, of t2] t last1 by simp
    let ?b3 = "if tokens b2 \<ge> 1 then b2\<lparr>tokens := fl (tokens b2 - 1)\<rparr> else b2"
    have acc: "acc" "m_find (message_buckets r') conn_id = Some ?b3" "rl_config r' = ?c"
      using run lim b True
      by (auto simp: try_message_def check_message_rate_def record_message_def limiting_def b1_def b2_def Let_def)
    have grow: "1 \<le> tokens b2"
    proof -
      have "1 \<le> fl 1" using fl unfolding rounding_def by (elim conjE allE [of _ 1]) simp
      also have "fl 1 \<le> fl (tokens b1 + fl (fl (fl (of_int (t2 - t1)) / 1000000)
          * real (unat (messages_per_second ?c))))"
        using True t by (intro rounding_mono [OF fl] add_increasing2 rounding_nonneg [OF fl]
            mult_nonneg_nonneg divide_nonneg_nonneg) auto
      finally show ?thesis
        using bucket_cap_pos [of ?c] lim last1 by (simp add: b2_def refill_def Let_def limiting_def)
    qed
    have "refill_rate ?c u * of_int (t1 - last_refill_us b) + refill_rate ?c u * of_int (t2 - t1)
        = refill_rate ?c u * of_int (t2 - last_refill_us b)"
      by (simp add: algebra_simps)
    then show ?thesis
      using acc grow take_token [OF fl ok2 grow] gain1 gain2 last2 t by (auto simp: bucket_ok_def)
  qed
qed

lemma accepted_messages_potential:
  assumes "rounding fl u" and "limiting r"
    and "m_find (message_buckets r) conn_id = Some b" and "bucket_ok (rl_config r) now b"
    and "ascending_pairs now ts" and "list_all (\<lambda>(t1, t2). t2 \<le> end_us) ts" and "now \<le> end_us"
  shows "real (accepted_messages fl conn_id ts r)
     \<le> tokens b + 3 * (u * bucket_cap (rl_config r)) * real (length ts)
        + refill_rate (rl_config r) u * of_int (end_us - last_refill_us b)"
  using assms
proof (induction ts arbitrary: r b now)
  case Nil
  then show ?case
    using refill_rate_nonneg [of u "rl_config r"] by (simp add: bucket_ok_def rounding_def)
next
  case (Cons t ts)
  obtain t1 t2 where t: "t = (t1, t2)" by (cases t)
  let ?c = "rl_config r"
  have asc: "now \<le> t1" "t1 \<le> t2" "ascending_pairs t2 ts" using Cons.prems t by auto
  obtain acc r' where run: "try_message fl t1 t2 conn_id r = (acc, r')" by fastforce
  have "last_refill_us b \<le> t1" using Cons.prems(4) asc by (simp add: bucket_ok_def)
  then obtain b' where b': "m_find (message_buckets r') conn_id = Some b'" "rl_config r' = ?c"
      "bucket_ok ?c t2 b'" "last_refill_us b \<le> last_refill_us b'"
      "tokens b' + (if acc then 1 else 0) \<le> tokens b + 3 * (u * bucket_cap ?c)
         + refill_rate ?c u * of_int (last_refill_us b' - last_refill_us b)"
    using try_message_spends [OF Cons.prems(1-4) _ asc(2) run] by blast
  have IH: "real (accepted_messages fl conn_id ts r')
     \<le> tokens b' + 3 * (u * bucket_cap ?c) * real (length ts)
        + refill_rate ?c u * of_int (end_us - last_refill_us b')"
    using Cons.IH [OF Cons.prems(1), of r' b' t2] b' asc Cons.prems t by (simp add: limiting_def)
  have "refill_rate ?c u * of_int (end_us - last_refill_us b')
      + refill_rate ?c u * of_int (last_refill_us b' - last_refill_us b)
      = refill_rate ?c u * of_int (end_us - last_refill_us b)"
    by (simp add: algebra_simps)
  moreover have "3 * (u * bucket_cap ?c) * real (length (t # ts))
      = 3 * (u * bucket_cap ?c) * real (length ts) + 3 * (u * bucket_cap ?c)"
    by (simp add: algebra_simps)
  moreover have "real (accepted_messages fl conn_id (t # ts) r)
      = (if acc then 1 else 0) + real (accepted_messages fl conn_id ts r')"
    by (simp add: t run)
  ultimately show ?case
    using IH b'(5) by linarith
qed

lemma first_message_bucket:
  assumes "rounding fl u" and "limiting r" and "m_find (message_buckets r) conn_id = None"
    and "try_message fl t1 t2 conn_id r = (acc, r')"
  shows "acc \<and> (\<exists>b. m_find (message_buckets r') conn_id = Some b \<and> rl_config r' = rl_config r
     \<and> bucket_ok (rl_config r) t2 b \<and> last_refill_us b = t2
     \<and> tokens b + 1 \<le> bucket_cap (rl_config r) + u * bucket_cap (rl_config r))"
proof -
  let ?full = "\<lparr>tokens = bucket_cap (rl_config r), last_refill_us = t2\<rparr>"
  have cap: "1 \<le> bucket_cap (rl_config r)"
    using assms(2) bucket_cap_pos by (simp add: limiting_def)
  then have "0 < bucket_cap (rl_config r)" by linarith
  then have "acc \<and> r' = r\<lparr>message_buckets := m_put conn_id (?full\<lparr>tokens := fl (tokens ?full - 1)\<rparr>) (message_buckets r)\<rparr>"
    using assms(2-4)
    by (auto simp: try_message_def check_message_rate_def record_message_def limiting_def Let_def)
  moreover have "bucket_ok (rl_config r) t2 (?full\<lparr>tokens := fl (tokens ?full - 1)\<rparr>)
      \<and> fl (tokens ?full - 1) + 1 \<le> tokens ?full + u * bucket_cap (rl_config r)"
    using cap by (intro take_token [OF assms(1)]) (auto simp: bucket_ok_def)
  ultimately show ?thesis by auto
qed

section \<open>Properties\<close>

text \<open>C6: the connection limiter refines the reference limiter that remembers every admission
  for ever: with ascending clock readings, whatever handshakes, messages, registrations and
  cleanups happen in between, each connection attempt is admitted exactly when fewer than
  \<^verbatim>\<open>connections_per_minute\<close> admissions of that address lie in the last 60 seconds; so no
  stretch of 60 seconds sees more admissions of an address than the limit.\<close>

theorem connection_limit_exact:
  assumes "rl_enabled cfg" and "connections_per_minute cfg \<noteq> 0" and "ascending_from now ops"
  shows "window_run check_connection_rate record_connection cleanup (conn_other fl) ops (RateLimiter cfg)
       = reference_run (unat (connections_per_minute cfg)) [] ops
     \<and> admitted_within lo ip
         (admissions ops
           (window_run check_connection_rate record_connection cleanup (conn_other fl) ops (RateLimiter cfg)))
       \<le> unat (connections_per_minute cfg)"
proof -
  have "conn_limiter.tracks now [] (RateLimiter cfg)"
    using assms(1,2) by (intro conn_limiter.tracks_fresh)
      (simp_all add: conn_ok_def RateLimiter_def ip_state_def PerIPState_def)
  then have run: "window_run check_connection_rate record_connection cleanup (conn_other fl) ops (RateLimiter cfg)
       = reference_run (unat (connections_per_minute cfg)) [] ops"
    using conn_limiter.run_refines_reference [of now "[]" "RateLimiter cfg" ops fl] assms(3)
    by (simp add: RateLimiter_def)
  then show ?thesis
    using reference_run_bound [of lo ip "[]" _ now ops] assms(3) by (simp add: admitted_within_def)
qed

theorem connection_limit_exact_witness:
  "window_run check_connection_rate record_connection cleanup (conn_other fixed_point)
      [Attempt 0 0 ''a'', Other (Register ''a''), Attempt 1 2 ''a'', Attempt 3 3 ''b'', Sweep 60000, Attempt 60001 60001 ''a'']
      (RateLimiter (RateLimitConfig_defaults\<lparr>connections_per_minute := 1\<rparr>))
    = [True, False, True, True]"
proof -
  let ?ops = "[Attempt 0 0 ''a'', Other (Register ''a''), Attempt 1 2 ''a'', Attempt 3 3 ''b'', Sweep 60000, Attempt 60001 60001 ''a'']"
  have "reference_run 1 [] ?ops = [True, False, True, True]"
    by (simp add: recent_admissions_def)
  then show ?thesis
    using connection_limit_exact [of "RateLimitConfig_defaults\<lparr>connections_per_minute := 1\<rparr>" 0 ?ops]
    by (simp add: RateLimitConfig_defaults_def)
qed

text \<open>The same for handshakes and \<^verbatim>\<open>handshake_attempts_per_minute\<close>.\<close>

theorem handshake_limit_exact:
  assumes "rl_enabled cfg" and "handshake_attempts_per_minute cfg \<noteq> 0" and "ascending_from now ops"
  shows "window_run check_handshake_rate record_handshake cleanup (hs_other fl) ops (RateLimiter cfg)
       = reference_run (unat (handshake_attempts_per_minute cfg)) [] ops
     \<and> admitted_within lo ip
         (admissions ops
           (window_run check_handshake_rate record_handshake cleanup (hs_other fl) ops (RateLimiter cfg)))
       \<le> unat (handshake_attempts_per_minute cfg)"
proof -
  have "hs_limiter.tracks now [] (RateLimiter cfg)"
    using assms(1,2) by (intro hs_limiter.tracks_fresh)
      (simp_all add: hs_ok_def RateLimiter_def ip_state_def PerIPState_def)
  then have run: "window_run check_handshake_rate record_handshake cleanup (hs_other fl) ops (RateLimiter cfg)
       = reference_run (unat (handshake_attempts_per_minute cfg)) [] ops"
    using hs_limiter.run_refines_reference [of now "[]" "RateLimiter cfg" ops fl] assms(3)
    by (simp add: RateLimiter_def)
  then show ?thesis
    using reference_run_bound [of lo ip "[]" _ now ops] assms(3) by (simp add: admitted_within_def)
qed

theorem handshake_limit_exact_witness:
  "window_run check_handshake_rate record_handshake cleanup (hs_other fixed_point)
      [Attempt 5 6 ''a'', Attempt 7 7 ''a'', Attempt 8 8 ''a'']
      (RateLimiter (RateLimitConfig_defaults\<lparr>handshake_attempts_per_minute := 2\<rparr>))
    = [True, True, False]"
proof -
  let ?ops = "[Attempt 5 6 ''a'', Attempt 7 7 ''a'', Attempt 8 8 ''a'']"
  have "reference_run 2 [] ?ops = [True, True, False]"
    by (simp add: recent_admissions_def)
  then show ?thesis
    using handshake_limit_exact [of "RateLimitConfig_defaults\<lparr>handshake_attempts_per_minute := 2\<rparr>" 0 ?ops]
    by (simp add: RateLimitConfig_defaults_def)
qed

text \<open>C36: the token bucket bounds the message rate. Of any sequence of messages on a connection
  up to time \<open>t\<close>, counted from its first message at time \<open>t\<^sub>0\<close>, at most the bucket capacity plus
  \<^verbatim>\<open>messages_per_second\<close> times the elapsed time are accepted, up to the relative rounding error
  of the floating-point unit (none in exact arithmetic).\<close>

theorem message_rate_bound:
  assumes "rounding fl u" and "limiting r" and "m_find (message_buckets r) conn_id = None"
    and "t1 \<le> t\<^sub>0" and "ascending_pairs t\<^sub>0 ts" and "list_all (\<lambda>(t1, t2). t2 \<le> t) ts" and "t\<^sub>0 \<le> t"
  shows "real (accepted_messages fl conn_id ((t1, t\<^sub>0) # ts) r)
     \<le> bucket_cap (rl_config r) * (1 + u * (1 + 3 * real (length ts)))
        + real (unat (messages_per_second (rl_config r))) * (1 + u) ^ 4 * (of_int (t - t\<^sub>0) / 1000000)"
proof -
  obtain acc r' where run: "try_message fl t1 t\<^sub>0 conn_id r = (acc, r')" by fastforce
  obtain b where b: "acc" "m_find (message_buckets r') conn_id = Some b" "rl_config r' = rl_config r"
      "bucket_ok (rl_config r) t\<^sub>0 b" "last_refill_us b = t\<^sub>0"
      "tokens b + 1 \<le> bucket_cap (rl_config r) + u * bucket_cap (rl_config r)"
    using first_message_bucket [OF assms(1-3) run] by blast
  have "real (accepted_messages fl conn_id ts r')
     \<le> tokens b + 3 * (u * bucket_cap (rl_config r)) * real (length ts)
        + refill_rate (rl_config r) u * of_int (t - t\<^sub>0)"
    using accepted_messages_potential [OF assms(1) _ b(2), of t\<^sub>0 ts t] b assms by (simp add: limiting_def)
  moreover have "real (accepted_messages fl conn_id ((t1, t\<^sub>0) # ts) r) = 1 + real (accepted_messages fl conn_id ts r')"
    using b(1) by (simp add: run)
  moreover have "refill_rate (rl_config r) u * of_int (t - t\<^sub>0)
      = real (unat (messages_per_second (rl_config r))) * (1 + u) ^ 4 * (of_int (t - t\<^sub>0) / 1000000)"
    by (simp add: refill_rate_def)
  moreover have "bucket_cap (rl_config r) * (1 + u * (1 + 3 * real (length ts)))
      = bucket_cap (rl_config r) + u * bucket_cap (rl_config r)
         + 3 * (u * bucket_cap (rl_config r)) * real (length ts)"
    by (simp add: algebra_simps)
  ultimately show ?thesis
    using b(6) by linarith
qed

theorem message_rate_bound_witness:
  "accepted_messages fixed_point 0 ((0, 0) # replicate 5 (0, 0))
      (RateLimiter (RateLimitConfig_defaults\<lparr>burst_size := 3\<rparr>)) \<le> 3"
proof -
  let ?r = "RateLimiter (RateLimitConfig_defaults\<lparr>burst_size := 3\<rparr>)"
  have "ascending_pairs 0 (replicate n (0, 0))" for n by (induction n) auto
  moreover have "list_all (\<lambda>(t1, t2). t2 \<le> (0 :: int)) (replicate n (0, 0))" for n by (induction n) auto
  ultimately have "real (accepted_messages fixed_point 0 ((0, 0) # replicate 5 (0, 0)) ?r)
      \<le> bucket_cap (rl_config ?r) * (1 + 0 * (1 + 3 * real (length (replicate 5 (0 :: int, 0 :: int)))))
        + real (unat (messages_per_second (rl_config ?r))) * (1 + 0) ^ 4 * (of_int (0 - 0) / 1000000)"
    by (intro message_rate_bound [OF fixed_point_rounding])
      (simp_all add: limiting_def RateLimiter_def RateLimitConfig_defaults_def)
  then show ?thesis
    by (simp add: bucket_cap_def RateLimiter_def RateLimitConfig_defaults_def)
qed

text \<open>C35: in every reachable state \<^verbatim>\<open>active_total\<close> is the number of registered connections, the
  per-address count is the number of those from that address, the next identifier is unused,
  and a cleanup loses none of these counts.\<close>

theorem active_counts_exact:
  assumes "rl_step\<^sup>*\<^sup>* (RateLimiter cfg) r"
  shows "unat (active_total r) = length (conn_to_ip r)
     \<and> unat (active_connections (ip_state r ip)) = registered_from ip r
     \<and> m_find (conn_to_ip r) (next_conn_id r) = None
     \<and> active_connections (ip_state (cleanup now r) ip) = active_connections (ip_state r ip)"
proof -
  have inv: "registry_inv r"
    using registry_machine.reachable_inv [OF exI assms] by blast
  then have "next_conn_id r \<notin> fst ` set (conn_to_ip r)"
    by (force simp: registry_inv_def)
  then show ?thesis
    using inv by (simp add: registry_inv_def active_total_def map_of_eq_None_iff cleanup_ip_state clean_ip_def)
qed

theorem active_counts_exact_witness:
  "unat (active_total (snd (register_connection ''a'' (RateLimiter RateLimitConfig_defaults)))) = 1"
proof -
  let ?r = "RateLimiter RateLimitConfig_defaults"
  have "rl_step\<^sup>*\<^sup>* ?r (snd (register_connection ''a'' ?r))"
    by (rule r_into_rtranclp, rule rl_step.register) (simp_all add: RateLimiter_def)
  from active_counts_exact [OF this] show ?thesis
    by (simp add: register_connection_def Let_def RateLimiter_def)
qed

text \<open>\<^verbatim>\<open>check_active_connections\<close> compares the active connections of an address with the
  connection rate, and refuses every connection whenever a message rate is configured, as in the
  defaults: it cannot serve as a check of the connection limits.\<close>

theorem check_active_connections_refuses:
  "check_active_connections ip r =
     (if \<not> rl_enabled (rl_config r) then True
      else if messages_per_second (rl_config r) \<noteq> 0 then False
      else if connections_per_minute (rl_config r) = 0 then True
      else case m_find (per_ip r) ip of
             None \<Rightarrow> True
           | Some st \<Rightarrow> active_connections st < connections_per_minute (rl_config r))"
  by (auto simp: check_active_connections_def Let_def word_gt_0 split: option.splits)

end
