(* ===== verification/WsServer.thy ===== *)
theory WsServer
  imports Session RateLimiter Dispatch
begin

text \<open>
  \<^verbatim>\<open>WsServerWrapper\<close> (\<^verbatim>\<open>ws_server.hpp\<close>, \<^verbatim>\<open>ws_server.cpp\<close>): the sessions of identified and of anonymous
  clients, requests to clients, streams, message dispatch and timeouts. Connection handles are
  natural numbers; the two-level maps of the code, by handle and then by identifier, are maps by
  the pair.

  websocketpp and the user's callbacks are parameters, the record \<open>server_env\<close>: the outcome of the
  \<open>n\<close>-th call that sends a frame or closes a connection, the remote endpoint of a connection, the
  rounding \<open>se_fl\<close> of the floating-point unit, and what each callback returns and does to the
  server. \<open>clk k\<close> is the \<open>k\<close>-th reading of the steady clock in an operation, in nanoseconds.
  Callbacks act on the server through its public methods only.
\<close>

section \<open>State\<close>

type_synonym hdl = nat

record connection_state =
  cs_session :: session
  rate_limiter_id :: u64
  remote_ip :: ip
  last_activity_ms :: int

record server =
  s_config :: config
  s_rate_limiter :: rate_limiter
  s_sign_key :: key_pair
  sessions :: "(hdl, connection_state) amap"
  anon_sessions :: "(hdl, connection_state) amap"
  handshake_open_time :: "(hdl, int) amap"
  s_op_code_handlers :: "(OpCode, nat option) amap"
  s_request_handlers :: "(OpCode, nat option) amap"
  s_default_payload_handler :: "nat option"
  anon_op_code_handlers :: "(OpCode, nat option) amap"
  anon_request_handlers :: "(OpCode, nat option) amap"
  anon_default_payload_handler :: "nat option"
  server_thread :: bool
  s_requests :: "(hdl \<times> u32) request_table"
  s_next_request_id :: u32
  s_streams :: "(hdl \<times> bool) stream list"
  per_connection_streams :: "(hdl \<times> u32, nat) amap"
  s_incoming_stream_handler :: "nat option"
  s_next_outgoing_stream_id :: u32
  s_stream_handlers :: "(OpCode, nat option) amap"
  anon_stream_handlers :: "(OpCode, nat option) amap"
  client_identity_handler :: "nat option"
  identity_to_hdl :: "(public_key, hdl) amap"
  hdl_to_identity :: "(hdl, public_key) amap"
  on_open_callback :: "nat option"
  on_close_callback :: "nat option"
  timeout_timer :: "u32 option"
  stopping :: bool
  s_sent :: "(hdl \<times> byte_vector) list"
  s_closed :: "(hdl \<times> string) list"
  s_net_calls :: nat
  s_draws :: nat

record server_env =
  se_sodium :: sodium
  se_fl :: "real \<Rightarrow> real"
  se_transport :: "nat \<Rightarrow> exn option"
  se_close :: "nat \<Rightarrow> exn option"
  se_endpoint :: "hdl \<Rightarrow> string result"
  se_open :: "nat \<Rightarrow> hdl \<Rightarrow> server \<Rightarrow> unit result \<times> server"
  se_closed :: "nat \<Rightarrow> hdl \<Rightarrow> server \<Rightarrow> unit result \<times> server"
  se_payload :: "nat \<Rightarrow> hdl \<Rightarrow> payload \<Rightarrow> server \<Rightarrow> unit result \<times> server"
  se_request :: "nat \<Rightarrow> hdl \<Rightarrow> payload_reader \<Rightarrow> server \<Rightarrow> payload result \<times> server"
  se_identity :: "nat \<Rightarrow> hdl \<Rightarrow> public_key \<Rightarrow> server \<Rightarrow> bool result \<times> server"
  se_stream :: "nat \<Rightarrow> nat \<Rightarrow> server \<Rightarrow> unit result \<times> server"
  se_stream_data :: "nat \<Rightarrow> byte_vector \<Rightarrow> server \<Rightarrow> unit result \<times> server"
  se_stream_end :: "nat \<Rightarrow> server \<Rightarrow> unit result \<times> server"
  se_stream_cancel :: "nat \<Rightarrow> server \<Rightarrow> unit result \<times> server"

definition WsServerWrapper :: "key_pair \<Rightarrow> config \<Rightarrow> server" where
  "WsServerWrapper sign_key cfg =
     \<lparr>s_config = cfg, s_rate_limiter = RateLimiter (rate_limit cfg), s_sign_key = sign_key, sessions = [],
      anon_sessions = [], handshake_open_time = [], s_op_code_handlers = [], s_request_handlers = [],
      s_default_payload_handler = None, anon_op_code_handlers = [], anon_request_handlers = [],
      anon_default_payload_handler = None, server_thread = False, s_requests = empty_table,
      s_next_request_id = 0, s_streams = [], per_connection_streams = [], s_incoming_stream_handler = None,
      s_next_outgoing_stream_id = 0, s_stream_handlers = [], anon_stream_handlers = [],
      client_identity_handler = None, identity_to_hdl = [], hdl_to_identity = [], on_open_callback = None,
      on_close_callback = None, timeout_timer = None, stopping = False, s_sent = [], s_closed = [],
      s_net_calls = 0, s_draws = 0\<rparr>"

text \<open>\<^verbatim>\<open>now_ms()\<close> and the microseconds of the rate limiter, from a clock reading.\<close>

definition ms :: "int \<Rightarrow> int" where "ms t = t div 1000000"
definition us :: "int \<Rightarrow> int" where "us t = t div 1000"

text \<open>The sessions of one kind: identified (\<open>True\<close>) or anonymous.\<close>

definition lookup_session :: "bool \<Rightarrow> hdl \<Rightarrow> server \<Rightarrow> connection_state option" where
  "lookup_session auth h s = m_find (if auth then sessions s else anon_sessions s) h"

definition put_session :: "bool \<Rightarrow> hdl \<Rightarrow> connection_state \<Rightarrow> server \<Rightarrow> server" where
  "put_session auth h st s =
     (if auth then s\<lparr>sessions := m_put h st (sessions s)\<rparr>
      else s\<lparr>anon_sessions := m_put h st (anon_sessions s)\<rparr>)"

section \<open>Transport\<close>

definition server_transport :: "server_env \<Rightarrow> hdl \<Rightarrow> byte_vector \<Rightarrow> server \<Rightarrow> unit result \<times> server" where
  "server_transport E h frame s =
     (case se_transport E (s_net_calls s) of
        Some e \<Rightarrow> (Inl e, s\<lparr>s_net_calls := s_net_calls s + 1\<rparr>)
      | None \<Rightarrow> (Inr (), s\<lparr>s_net_calls := s_net_calls s + 1, s_sent := s_sent s @ [(h, frame)]\<rparr>))"

definition server_close :: "server_env \<Rightarrow> hdl \<Rightarrow> string \<Rightarrow> server \<Rightarrow> unit result \<times> server" where
  "server_close E h reason s =
     (case se_close E (s_net_calls s) of
        Some e \<Rightarrow> (Inl e, s\<lparr>s_net_calls := s_net_calls s + 1\<rparr>)
      | None \<Rightarrow> (Inr (), s\<lparr>s_net_calls := s_net_calls s + 1, s_closed := s_closed s @ [(h, reason)]\<rparr>))"

text \<open>Closing several connections, every exception ignored.\<close>

fun close_all :: "server_env \<Rightarrow> string \<Rightarrow> hdl list \<Rightarrow> server \<Rightarrow> server" where
  "close_all E reason [] s = s"
| "close_all E reason (h # hs) s = close_all E reason hs (snd (server_close E h reason s))"

definition get_remote_ip :: "server_env \<Rightarrow> hdl \<Rightarrow> ip" where
  "get_remote_ip E h = (case se_endpoint E h of Inr endpoint \<Rightarrow> endpoint | Inl e \<Rightarrow> ''unknown'')"

section \<open>Life cycle\<close>

definition schedule_timeout_check :: "server \<Rightarrow> server" where
  "schedule_timeout_check s =
     (if stopping s then s
      else let interval = check_interval_ms (timeouts (s_config s));
               interval = (if interval = 0 then 5000 else interval)
           in s\<lparr>timeout_timer := Some interval\<rparr>)"

text \<open>\<^verbatim>\<open>run\<close>, given whether listening fails (the exception is logged by the server thread).\<close>

definition server_run :: "bool \<Rightarrow> server \<Rightarrow> server" where
  "server_run listen_fails s =
     (let s = s\<lparr>server_thread := True\<rparr> in if listen_fails then s else schedule_timeout_check s)"

definition server_stop :: "server_env \<Rightarrow> bool \<Rightarrow> server \<Rightarrow> unit result \<times> server" where
  "server_stop E from_io s =
     (let s = s\<lparr>stopping := True, timeout_timer := None\<rparr> in
      case fail_where (\<lambda>_. True) (RuntimeError ''Server is stopping'') (s_requests s) of
        (Inl e, t) \<Rightarrow> (Inl e, s\<lparr>s_requests := t\<rparr>)
      | (Inr _, t) \<Rightarrow>
          let s = s\<lparr>s_requests := t\<rparr>;
              s = close_all E ''Server shutdown'' (map fst (sessions s)) s;
              s = s\<lparr>sessions := []\<rparr>;
              s = close_all E ''Server shutdown'' (map fst (anon_sessions s)) s;
              s = s\<lparr>anon_sessions := []\<rparr>;
              s = s\<lparr>identity_to_hdl := [], hdl_to_identity := []\<rparr>
          in (Inr (), if from_io then s else s\<lparr>server_thread := False\<rparr>))"

section \<open>Sending\<close>

text \<open>The session \<^verbatim>\<open>send\<close> and \<^verbatim>\<open>async_request\<close> use: the identified one if its handshake is complete,
  else the anonymous one if that is.\<close>

definition ready_anon :: "hdl \<Rightarrow> server \<Rightarrow> connection_state option" where
  "ready_anon h s =
     (case m_find (anon_sessions s) h of
        Some st \<Rightarrow> if is_handshake_complete (cs_session st) then Some st else None
      | None \<Rightarrow> None)"

definition ready_session :: "hdl \<Rightarrow> server \<Rightarrow> (bool \<times> connection_state) option" where
  "ready_session h s =
     (case m_find (sessions s) h of
        Some st \<Rightarrow>
          if is_handshake_complete (cs_session st) then Some (True, st)
          else map_option (Pair False) (ready_anon h s)
      | None \<Rightarrow> map_option (Pair False) (ready_anon h s))"

definition server_encrypt ::
  "server_env \<Rightarrow> bool \<Rightarrow> hdl \<Rightarrow> connection_state \<Rightarrow> payload \<Rightarrow> server \<Rightarrow> byte_vector result \<times> server" where
  "server_encrypt E auth h st p s =
     (case encrypt_payload (se_sodium E) (s_draws s) p (cs_session st) of
        (r, sess) \<Rightarrow>
          (r, (put_session auth h (st\<lparr>cs_session := sess\<rparr>) s)\<lparr>s_draws := s_draws s + 1\<rparr>))"

definition server_send :: "server_env \<Rightarrow> hdl \<Rightarrow> payload \<Rightarrow> server \<Rightarrow> unit result \<times> server" where
  "server_send E h p s =
     (case ready_session h s of
        None \<Rightarrow> (Inl (LogicError ''Session not ready for sending data.''), s)
      | Some (auth, st) \<Rightarrow>
          catch_std (and_then (server_encrypt E auth h st p s) (server_transport E h)) (\<lambda>s. (Inr (), s)))"

definition send_anonymous :: "server_env \<Rightarrow> hdl \<Rightarrow> payload \<Rightarrow> server \<Rightarrow> unit result \<times> server" where
  "send_anonymous E h p s =
     (case ready_anon h s of
        None \<Rightarrow> (Inl (LogicError ''Anonymous session not ready for sending data.''), s)
      | Some st \<Rightarrow>
          catch_std (and_then (server_encrypt E False h st p s) (server_transport E h)) (\<lambda>s. (Inr (), s)))"

text \<open>A response goes out by \<^verbatim>\<open>send_response\<close> or, for an anonymous session, by \<^verbatim>\<open>send_anonymous\<close>.\<close>

definition server_send_response ::
  "server_env \<Rightarrow> bool \<Rightarrow> hdl \<Rightarrow> u32 \<Rightarrow> payload \<Rightarrow> server \<Rightarrow> unit result \<times> server" where
  "server_send_response E auth h request_id p s =
     (case response_payload (RESPONSE (opcodes (s_config s))) request_id p of
        Inl e \<Rightarrow> (Inl e, s)
      | Inr q \<Rightarrow> if auth then server_send E h q s else send_anonymous E h q s)"

text \<open>\<^verbatim>\<open>async_request\<close>: the readiness check, the registration of the promise, the send. Other threads
  can run in between.\<close>

definition server_request_register ::
  "int \<Rightarrow> hdl \<Rightarrow> payload \<Rightarrow> u32 \<Rightarrow> server \<Rightarrow> (u32 \<times> nat \<times> payload) result \<times> server" where
  "server_request_register now h p timeout_ms s =
     (let request_id = s_next_request_id s;
          s = s\<lparr>s_next_request_id := request_id + 1\<rparr> in
      case with_request_id request_id p of
        Inl e \<Rightarrow> (Inl e, s)
      | Inr request_payload \<Rightarrow>
          let effective_timeout =
                resolve_request_timeout (to_enabled (timeouts (s_config s))) (request_ms (timeouts (s_config s)))
                  timeout_ms in
          case register_request (h, request_id) (deadline_at now effective_timeout) (s_requests s) of
            (pid, t) \<Rightarrow> (Inr (request_id, pid, request_payload), s\<lparr>s_requests := t\<rparr>))"

definition server_request_send ::
  "server_env \<Rightarrow> hdl \<Rightarrow> u32 \<Rightarrow> payload \<Rightarrow> server \<Rightarrow> unit result \<times> server" where
  "server_request_send E h request_id request_payload s =
     (case server_send E h request_payload s of
        (Inr _, s) \<Rightarrow> (Inr (), s)
      | (Inl e, s) \<Rightarrow>
          (case abort_request (h, request_id) e (s_requests s) of
             (Inl e', t) \<Rightarrow> (Inl e', s\<lparr>s_requests := t\<rparr>)
           | (Inr _, t) \<Rightarrow> (Inl e, s\<lparr>s_requests := t\<rparr>)))"

definition server_async_request ::
  "server_env \<Rightarrow> int \<Rightarrow> hdl \<Rightarrow> payload \<Rightarrow> u32 \<Rightarrow> server \<Rightarrow> nat result \<times> server" where
  "server_async_request E now h p timeout_ms s =
     (if ready_session h s = None then (Inl (LogicError ''Session not ready for sending requests.''), s)
      else and_then (server_request_register now h p timeout_ms s)
        (\<lambda>(request_id, pid, request_payload) s.
           and_then (server_request_send E h request_id request_payload s) (\<lambda>_ s. (Inr pid, s))))"

text \<open>\<^verbatim>\<open>sync_request\<close>, given what the other threads do until the future is ready or the timeout has
  passed; \<open>None\<close> when it blocks on.\<close>

definition server_sync_request ::
  "server_env \<Rightarrow> (server \<Rightarrow> server) \<Rightarrow> int \<Rightarrow> hdl \<Rightarrow> payload \<Rightarrow> u32 \<Rightarrow> server \<Rightarrow> (payload result \<times> server) option" where
  "server_sync_request E wait now h p timeout_ms s =
     (case server_async_request E now h p timeout_ms s of
        (Inl e, s) \<Rightarrow> Some (Inl e, s)
      | (Inr pid, s) \<Rightarrow>
          let effective_timeout =
                resolve_request_timeout (to_enabled (timeouts (s_config s))) (request_ms (timeouts (s_config s)))
                  timeout_ms;
              s = wait s
          in map_option (\<lambda>r. (r, s)) (sync_result effective_timeout (promises (s_requests s) ! pid)))"

section \<open>Identities\<close>

definition get_client_identity :: "hdl \<Rightarrow> server \<Rightarrow> public_key result" where
  "get_client_identity h s =
     (case m_find (sessions s) h of
        None \<Rightarrow> Inl (LogicError ''Session not found for this connection.'')
      | Some st \<Rightarrow>
          (case get_peer_identity (cs_session st) of
             None \<Rightarrow> Inl (LogicError ''Session has no peer identity.'')
           | Some pk \<Rightarrow> Inr pk))"

definition send_to_identity :: "server_env \<Rightarrow> public_key \<Rightarrow> payload \<Rightarrow> server \<Rightarrow> unit result \<times> server" where
  "send_to_identity E pk p s =
     (case m_find (identity_to_hdl s) pk of
        None \<Rightarrow> (Inl (LogicError ''Identity is not connected.''), s)
      | Some h \<Rightarrow> server_send E h p s)"

definition async_request_to_identity ::
  "server_env \<Rightarrow> int \<Rightarrow> public_key \<Rightarrow> payload \<Rightarrow> server \<Rightarrow> nat result \<times> server" where
  "async_request_to_identity E now pk p s =
     (case m_find (identity_to_hdl s) pk of
        None \<Rightarrow> (Inl (LogicError ''Identity is not connected.''), s)
      | Some h \<Rightarrow> server_async_request E now h p 0 s)"

definition sync_request_to_identity ::
  "server_env \<Rightarrow> (server \<Rightarrow> server) \<Rightarrow> int \<Rightarrow> public_key \<Rightarrow> payload \<Rightarrow> server \<Rightarrow> (payload result \<times> server) option" where
  "sync_request_to_identity E wait now pk p s =
     (case async_request_to_identity E now pk p s of
        (Inl e, s) \<Rightarrow> Some (Inl e, s)
      | (Inr pid, s) \<Rightarrow>
          let s = wait s in map_option (\<lambda>r. (r, s)) (future_get (promises (s_requests s) ! pid)))"

section \<open>Streams\<close>

text \<open>The send callback of a stream, by the kind of session it belongs to.\<close>

definition server_stream_send :: "server_env \<Rightarrow> hdl \<times> bool \<Rightarrow> payload \<Rightarrow> server \<Rightarrow> unit result \<times> server" where
  "server_stream_send E f p s =
     (if snd f then server_send E (fst f) p s else send_anonymous E (fst f) p s)"

definition server_add_stream ::
  "hdl \<Rightarrow> bool \<Rightarrow> u32 \<Rightarrow> OpCode option \<Rightarrow> server \<Rightarrow> nat \<times> server" where
  "server_add_stream h auth sid op s =
     (let ref = length (s_streams s)
      in (ref, s\<lparr>s_streams := s_streams s @ [Stream sid (h, auth) op],
                 per_connection_streams := m_put (h, sid) ref (per_connection_streams s)\<rparr>))"

definition server_start_stream :: "server_env \<Rightarrow> hdl \<Rightarrow> server \<Rightarrow> nat result \<times> server" where
  "server_start_stream E h s =
     (let sid = s_next_outgoing_stream_id s * 2 + 1;
          s = s\<lparr>s_next_outgoing_stream_id := s_next_outgoing_stream_id s + 1\<rparr> in
      case server_add_stream h True sid None s of
        (ref, s) \<Rightarrow>
          (case stream_start_payload (STREAM_START (opcodes (s_config s))) sid None of
             Inl e \<Rightarrow> (Inl e, s)
           | Inr p \<Rightarrow> and_then (server_send E h p s) (\<lambda>_ s. (Inr ref, s))))"

definition server_start_stream_op :: "server_env \<Rightarrow> hdl \<Rightarrow> OpCode \<Rightarrow> server \<Rightarrow> nat result \<times> server" where
  "server_start_stream_op E h stream_op s =
     (let sid = s_next_outgoing_stream_id s * 2 + 1;
          s = s\<lparr>s_next_outgoing_stream_id := s_next_outgoing_stream_id s + 1\<rparr> in
      case server_add_stream h True sid (Some stream_op) s of
        (ref, s) \<Rightarrow>
          (case (case m_find (sessions s) h of
                   Some st \<Rightarrow> Some st
                 | None \<Rightarrow> m_find (anon_sessions s) h) of
             None \<Rightarrow> (Inl (LogicError ''Session not found for this connection.''), s)
           | Some st \<Rightarrow>
               (case stream_start_payload (STREAM_START (opcodes (s_config s))) sid
                       (if supports_stream_op (get_selected_version (cs_session st)) then Some stream_op else None) of
                  Inl e \<Rightarrow> (Inl e, s)
                | Inr p \<Rightarrow> and_then (server_send E h p s) (\<lambda>_ s. (Inr ref, s)))))"

section \<open>Registration of handlers\<close>

definition server_register_stream_handler :: "OpCode \<Rightarrow> nat option \<Rightarrow> server \<Rightarrow> server" where
  "server_register_stream_handler op h s = s\<lparr>s_stream_handlers := m_put op h (s_stream_handlers s)\<rparr>"

definition register_anon_stream_handler :: "OpCode \<Rightarrow> nat option \<Rightarrow> server \<Rightarrow> server" where
  "register_anon_stream_handler op h s = s\<lparr>anon_stream_handlers := m_put op h (anon_stream_handlers s)\<rparr>"

definition server_register_incoming_stream_handler :: "nat option \<Rightarrow> server \<Rightarrow> server" where
  "server_register_incoming_stream_handler h s = s\<lparr>s_incoming_stream_handler := h\<rparr>"

definition server_register_op_handler :: "OpCode \<Rightarrow> nat option \<Rightarrow> server \<Rightarrow> server" where
  "server_register_op_handler op h s = s\<lparr>s_op_code_handlers := m_put op h (s_op_code_handlers s)\<rparr>"

definition server_register_request_handler :: "OpCode \<Rightarrow> nat option \<Rightarrow> server \<Rightarrow> server" where
  "server_register_request_handler op h s = s\<lparr>s_request_handlers := m_put op h (s_request_handlers s)\<rparr>"

definition server_set_default_payload_handler :: "nat option \<Rightarrow> server \<Rightarrow> server" where
  "server_set_default_payload_handler h s = s\<lparr>s_default_payload_handler := h\<rparr>"

definition set_on_open_callback :: "nat option \<Rightarrow> server \<Rightarrow> server" where
  "set_on_open_callback h s = s\<lparr>on_open_callback := h\<rparr>"

definition set_on_close_callback :: "nat option \<Rightarrow> server \<Rightarrow> server" where
  "set_on_close_callback h s = s\<lparr>on_close_callback := h\<rparr>"

definition register_anon_op_handler :: "OpCode \<Rightarrow> nat option \<Rightarrow> server \<Rightarrow> server" where
  "register_anon_op_handler op h s = s\<lparr>anon_op_code_handlers := m_put op h (anon_op_code_handlers s)\<rparr>"

definition register_anon_request_handler :: "OpCode \<Rightarrow> nat option \<Rightarrow> server \<Rightarrow> server" where
  "register_anon_request_handler op h s = s\<lparr>anon_request_handlers := m_put op h (anon_request_handlers s)\<rparr>"

definition set_anon_default_payload_handler :: "nat option \<Rightarrow> server \<Rightarrow> server" where
  "set_anon_default_payload_handler h s = s\<lparr>anon_default_payload_handler := h\<rparr>"

definition set_client_identity_handler :: "nat option \<Rightarrow> server \<Rightarrow> server" where
  "set_client_identity_handler h s = s\<lparr>client_identity_handler := h\<rparr>"

section \<open>Connection events\<close>

text \<open>The connection-rate check of \<^verbatim>\<open>on_open\<close>: whether the connection may stay.\<close>

definition admit_rate :: "(nat \<Rightarrow> int) \<Rightarrow> ip \<Rightarrow> server \<Rightarrow> bool \<times> server" where
  "admit_rate clk ip s =
     (if rl_enabled (rate_limit (s_config s))
      then (case check_connection_rate (ms (clk 0)) ip (s_rate_limiter s) of
              (b, r) \<Rightarrow>
                if b then (True, s\<lparr>s_rate_limiter := record_connection (ms (clk 1)) ip r\<rparr>)
                else (False, s\<lparr>s_rate_limiter := r\<rparr>))
      else (True, s))"

definition at_max_total :: "server \<Rightarrow> bool" where
  "at_max_total s \<longleftrightarrow> cl_enabled (connection_limits (s_config s))
     \<and> max_total (connection_limits (s_config s)) > 0
     \<and> active_total (s_rate_limiter s) \<ge> max_total (connection_limits (s_config s))"

definition server_on_open :: "server_env \<Rightarrow> (nat \<Rightarrow> int) \<Rightarrow> hdl \<Rightarrow> server \<Rightarrow> unit result \<times> server" where
  "server_on_open E clk h s =
     (case admit_rate clk (get_remote_ip E h) s of
        (False, s) \<Rightarrow> server_close E h ''Connection rate limit exceeded'' s
      | (True, s) \<Rightarrow>
          if at_max_total s then server_close E h ''Max connections reached'' s
          else let s = (if to_enabled (timeouts (s_config s)) \<and> handshake_ms (timeouts (s_config s)) > 0
                        then s\<lparr>handshake_open_time := m_put h (ms (clk 2)) (handshake_open_time s)\<rparr> else s)
               in call_if (on_open_callback s) (\<lambda>n. se_open E n h) s)"

text \<open>The part of \<^verbatim>\<open>on_close\<close> on one of the session maps.\<close>

definition drop_session :: "bool \<Rightarrow> hdl \<Rightarrow> server \<Rightarrow> server" where
  "drop_session auth h s =
     (case lookup_session auth h s of
        None \<Rightarrow> s
      | Some st \<Rightarrow>
          let s = s\<lparr>s_rate_limiter := unregister_connection (rate_limiter_id st) (remote_ip st) (s_rate_limiter s)\<rparr>
          in if auth then s\<lparr>sessions := m_erase h (sessions s)\<rparr>
             else s\<lparr>anon_sessions := m_erase h (anon_sessions s)\<rparr>)"

definition drop_identity :: "hdl \<Rightarrow> server \<Rightarrow> server" where
  "drop_identity h s =
     (case m_find (hdl_to_identity s) h of
        None \<Rightarrow> s
      | Some pk \<Rightarrow> s\<lparr>identity_to_hdl := m_erase pk (identity_to_hdl s),
                     hdl_to_identity := m_erase h (hdl_to_identity s)\<rparr>)"

definition server_cleanup :: "hdl \<Rightarrow> server \<Rightarrow> unit result \<times> server" where
  "server_cleanup h s =
     (let s = drop_session False h (drop_session True h s);
          s = s\<lparr>per_connection_streams := filter (\<lambda>((h', sid), ref). h' \<noteq> h) (per_connection_streams s)\<rparr>;
          s = drop_identity h s in
      case fail_where (\<lambda>(h', rid). h' = h) (RuntimeError ''Client disconnected'') (s_requests s) of
        (Inl e, t) \<Rightarrow> (Inl e, s\<lparr>s_requests := t\<rparr>)
      | (Inr _, t) \<Rightarrow>
          (Inr (), s\<lparr>s_requests := t, handshake_open_time := m_erase h (handshake_open_time s)\<rparr>))"

definition server_on_close :: "server_env \<Rightarrow> hdl \<Rightarrow> server \<Rightarrow> unit result \<times> server" where
  "server_on_close E h s =
     and_then (call_if (on_close_callback s) (\<lambda>n. se_closed E n h) s) (\<lambda>_ s. server_cleanup h s)"

section \<open>Timeouts\<close>

definition is_idle :: "server \<Rightarrow> int \<Rightarrow> connection_state \<Rightarrow> bool" where
  "is_idle s now st \<longleftrightarrow> last_activity_ms st > 0
     \<and> now - last_activity_ms st > int (unat (idle_ms (timeouts (s_config s))))"

definition idle_connections :: "int \<Rightarrow> server \<Rightarrow> hdl list" where
  "idle_connections now s =
     map fst (filter (\<lambda>(h, st). is_idle s now st) (sessions s))
     @ map fst (filter (\<lambda>(h, st). is_idle s now st) (anon_sessions s))"

definition handshake_overdue :: "server \<Rightarrow> int \<Rightarrow> int \<Rightarrow> bool" where
  "handshake_overdue s now opened \<longleftrightarrow> now - opened > int (unat (handshake_ms (timeouts (s_config s))))"

definition check_idle :: "server_env \<Rightarrow> int \<Rightarrow> server \<Rightarrow> server" where
  "check_idle E now s =
     (if idle_ms (timeouts (s_config s)) > 0
      then close_all E ''Idle timeout'' (idle_connections now s) s else s)"

definition check_handshakes :: "server_env \<Rightarrow> int \<Rightarrow> server \<Rightarrow> server" where
  "check_handshakes E now s =
     (if handshake_ms (timeouts (s_config s)) > 0
      then (close_all E ''Handshake timeout''
              (map fst (filter (\<lambda>(h, opened). handshake_overdue s now opened) (handshake_open_time s))) s)
             \<lparr>handshake_open_time :=
                filter (\<lambda>(h, opened). \<not> handshake_overdue s now opened) (handshake_open_time s)\<rparr>
      else s)"

definition check_timeouts :: "server_env \<Rightarrow> (nat \<Rightarrow> int) \<Rightarrow> server \<Rightarrow> unit result \<times> server" where
  "check_timeouts E clk s =
     (let now = ms (clk 0);
          s = check_handshakes E now (check_idle E now s) in
      case (if deadlines (s_requests s) \<noteq> [] then expire (clk 1) (s_requests s) else (Inr (), s_requests s)) of
        (Inl e, t) \<Rightarrow> (Inl e, s\<lparr>s_requests := t\<rparr>)
      | (Inr _, t) \<Rightarrow>
          let s = s\<lparr>s_requests := t\<rparr>
          in (Inr (), s\<lparr>s_rate_limiter := cleanup (ms (clk 2)) (s_rate_limiter s)\<rparr>))"

text \<open>The callback of the timer; \<open>ec\<close> tells whether the timer was cancelled.\<close>

definition server_on_timer :: "server_env \<Rightarrow> (nat \<Rightarrow> int) \<Rightarrow> bool \<Rightarrow> server \<Rightarrow> unit result \<times> server" where
  "server_on_timer E clk ec s =
     (if ec \<or> stopping s then (Inr (), s)
      else and_then (check_timeouts E clk s) (\<lambda>_ s. (Inr (), schedule_timeout_check s)))"

section \<open>Messages\<close>

text \<open>Receiving on a session: the message rate, decryption, the size limit, the bookkeeping. No
  payload comes out when the message is dropped.\<close>

definition server_receive ::
  "server_env \<Rightarrow> (nat \<Rightarrow> int) \<Rightarrow> bool \<Rightarrow> hdl \<Rightarrow> connection_state \<Rightarrow> byte_vector \<Rightarrow> server
     \<Rightarrow> payload option result \<times> server" where
  "server_receive E clk auth h st data s =
     (if \<not> is_handshake_complete (cs_session st) then (Inr None, s)
      else let limited = rl_enabled (rate_limit (s_config s)) in
      case (if limited then check_message_rate (se_fl E) (us (clk 0)) (rate_limiter_id st) (s_rate_limiter s)
            else (True, s_rate_limiter s)) of
        (ok, r) \<Rightarrow>
          let s = s\<lparr>s_rate_limiter := r\<rparr> in
          if \<not> ok then and_then (server_close E h ''Message rate limit exceeded'' s) (\<lambda>_ s. (Inr None, s))
          else catch_std
            (case decrypt_packet (se_sodium E) data (cs_session st) of
               (result, sess) \<Rightarrow>
                 let st = st\<lparr>cs_session := sess\<rparr>; s = put_session auth h st s in
                 case result of
                   Inl e \<Rightarrow> (Inl e, s)
                 | Inr p \<Rightarrow>
                     if too_large (s_config s) p
                     then and_then (server_close E h ''Payload too large'' s) (\<lambda>_ s. (Inr None, s))
                     else let s = (if limited
                                   then s\<lparr>s_rate_limiter := record_message (se_fl E) (us (clk 1))
                                            (rate_limiter_id st) (s_rate_limiter s)\<rparr>
                                   else s)
                          in (Inr (Some p), put_session auth h (st\<lparr>last_activity_ms := ms (clk 2)\<rparr>) s))
            (\<lambda>s. (Inr None, s)))"

definition server_on_response :: "hdl \<Rightarrow> payload \<Rightarrow> server \<Rightarrow> unit result \<times> server" where
  "server_on_response h p s =
     (case parse_response p of
        Inl e \<Rightarrow> (Inl e, s)
      | Inr (request_id, response) \<Rightarrow>
          (case complete_request (h, request_id) response (s_requests s) of
             (r, t) \<Rightarrow> (map_sum id (\<lambda>_. ()) r, s\<lparr>s_requests := t\<rparr>)))"

definition server_on_stream_start ::
  "server_env \<Rightarrow> bool \<Rightarrow> hdl \<Rightarrow> u32 \<Rightarrow> payload_reader \<Rightarrow> server \<Rightarrow> unit result \<times> server" where
  "server_on_stream_start E auth h sid reader s =
     (case (if has_more reader then map_sum id Some (fst (read_param_uint16 reader)) else Inr None) of
        Inl e \<Rightarrow> (Inl e, s)
      | Inr op \<Rightarrow>
          (case server_add_stream h auth sid op s of
             (ref, s) \<Rightarrow>
               call_if
                 (select_stream_handler (if auth then s_stream_handlers s else anon_stream_handlers s)
                    (s_incoming_stream_handler s) op)
                 (\<lambda>n. se_stream E n ref) s))"

definition server_find_stream :: "hdl \<Rightarrow> u32 \<Rightarrow> server \<Rightarrow> (hdl \<times> bool) stream option" where
  "server_find_stream h sid s = map_option (\<lambda>ref. s_streams s ! ref) (m_find (per_connection_streams s) (h, sid))"

definition server_on_stream :: "server_env \<Rightarrow> bool \<Rightarrow> hdl \<Rightarrow> payload \<Rightarrow> server \<Rightarrow> unit result \<times> server" where
  "server_on_stream E auth h p s =
     (let oc = opcodes (s_config s) in
      case read_param_uint32 (PayloadReader p) of
        (Inl e, _) \<Rightarrow> (Inl e, s)
      | (Inr sid, reader) \<Rightarrow>
          if op_code p = STREAM_START oc then server_on_stream_start E auth h sid reader s
          else if op_code p = STREAM_DATA oc
          then (case fst (read_param_bytes reader) of
                  Inl e \<Rightarrow> (Inl e, s)
                | Inr data \<Rightarrow>
                    (case server_find_stream h sid s of
                       None \<Rightarrow> (Inr (), s)
                     | Some st \<Rightarrow> dispatch_data (se_stream_data E) st data s))
          else if op_code p = STREAM_END oc
          then (case server_find_stream h sid s of
                  None \<Rightarrow> (Inr (), s)
                | Some st \<Rightarrow> dispatch_end (se_stream_end E) st s)
          else if op_code p = STREAM_CANCEL oc
          then (case server_find_stream h sid s of
                  None \<Rightarrow> (Inr (), s)
                | Some st \<Rightarrow>
                    dispatch_cancel (se_stream_cancel E) st
                      (s\<lparr>per_connection_streams := m_erase (h, sid) (per_connection_streams s)\<rparr>))
          else (Inr (), s))"

text \<open>\<^verbatim>\<open>dispatch_payload\<close> with the handlers of the session's kind.\<close>

definition server_dispatch_payload ::
  "server_env \<Rightarrow> bool \<Rightarrow> hdl \<Rightarrow> payload \<Rightarrow> server \<Rightarrow> unit result \<times> server" where
  "server_dispatch_payload E auth h p s =
     (case (if auth
            then select_handler (s_request_handlers s) (s_op_code_handlers s) (s_default_payload_handler s) (op_code p)
            else select_handler (anon_request_handlers s) (anon_op_code_handlers s)
                   (anon_default_payload_handler s) (op_code p)) of
        Request_handler n \<Rightarrow>
          (case read_param_uint32 (PayloadReader p) of
             (Inl e, _) \<Rightarrow> (Inl e, s)
           | (Inr request_id, reader) \<Rightarrow>
               and_then (se_request E n h reader s)
                 (\<lambda>response s. server_send_response E auth h request_id response s))
      | Op_handler n \<Rightarrow> se_payload E n h p s
      | Nothing \<Rightarrow> (Inr (), s))"

definition server_on_payload :: "server_env \<Rightarrow> bool \<Rightarrow> hdl \<Rightarrow> payload \<Rightarrow> server \<Rightarrow> unit result \<times> server" where
  "server_on_payload E auth h p s =
     catch_std
       (if op_code p = RESPONSE (opcodes (s_config s)) then server_on_response h p s
        else if is_stream_op (opcodes (s_config s)) (op_code p) then server_on_stream E auth h p s
        else server_dispatch_payload E auth h p s)
       (\<lambda>s. (Inr (), s))"

text \<open>The handshake: the response of a new session, and what is kept of it. \<^verbatim>\<open>emplace\<close> keeps an entry
  that is there already.\<close>

definition emplace_session :: "bool \<Rightarrow> hdl \<Rightarrow> connection_state \<Rightarrow> server \<Rightarrow> server" where
  "emplace_session auth h st s = (if lookup_session auth h s = None then put_session auth h st s else s)"

definition enter_session :: "(nat \<Rightarrow> int) \<Rightarrow> bool \<Rightarrow> hdl \<Rightarrow> ip \<Rightarrow> session \<Rightarrow> server \<Rightarrow> server" where
  "enter_session clk auth h ip sess s =
     (case register_connection ip (s_rate_limiter s) of
        (conn_id, r) \<Rightarrow>
          emplace_session auth h
            \<lparr>cs_session = sess, rate_limiter_id = conn_id, remote_ip = ip, last_activity_ms = ms (clk 2)\<rparr>
            (s\<lparr>s_rate_limiter := r\<rparr>))"

definition server_finish_hello ::
  "server_env \<Rightarrow> (nat \<Rightarrow> int) \<Rightarrow> hdl \<Rightarrow> ip \<Rightarrow> bool \<Rightarrow> session \<Rightarrow> server \<Rightarrow> unit result \<times> server" where
  "server_finish_hello E clk h ip is_identified temp_session s =
     and_then
       (case (if is_identified then get_peer_identity temp_session else None) of
          Some client_pk \<Rightarrow>
            and_then
              (case client_identity_handler s of
                 Some n \<Rightarrow> se_identity E n h client_pk s
               | None \<Rightarrow> (Inr True, s))
              (\<lambda>accepted s.
                 if accepted
                 then let s = enter_session clk True h ip temp_session s
                      in (Inr (), s\<lparr>identity_to_hdl := m_put client_pk h (identity_to_hdl s),
                                    hdl_to_identity := m_put h client_pk (hdl_to_identity s)\<rparr>)
                 else server_close E h ''Identity rejected'' s)
        | None \<Rightarrow> (Inr (), enter_session clk False h ip temp_session s))
       (\<lambda>_ s. (Inr (), s\<lparr>handshake_open_time := m_erase h (handshake_open_time s)\<rparr>))"

definition server_hello_reply ::
  "server_env \<Rightarrow> hdl \<Rightarrow> client_hello \<Rightarrow> server \<Rightarrow> session result \<times> server" where
  "server_hello_reply E h client_hello s =
     (case server_respond_to_handshake (se_sodium E) (s_draws s) client_hello
             (Session SERVER (s_sign_key s) (cfg_supported_versions (s_config s))) of
        (r, temp_session) \<Rightarrow>
          let s = s\<lparr>s_draws := s_draws s + 1\<rparr> in
          case r of
            Inl e \<Rightarrow> (Inl e, s)
          | Inr server_hello \<Rightarrow>
              and_then (server_transport E h (server_hello_serialize server_hello) s) (\<lambda>_ s. (Inr temp_session, s)))"

definition server_on_hello ::
  "server_env \<Rightarrow> (nat \<Rightarrow> int) \<Rightarrow> hdl \<Rightarrow> byte_vector \<Rightarrow> server \<Rightarrow> unit result \<times> server" where
  "server_on_hello E clk h data s =
     catch_std
       (let ip = get_remote_ip E h; limited = rl_enabled (rate_limit (s_config s)) in
        case (if limited then check_handshake_rate (ms (clk 0)) ip (s_rate_limiter s) else (True, s_rate_limiter s)) of
          (ok, r) \<Rightarrow>
            let s = s\<lparr>s_rate_limiter := r\<rparr> in
            if \<not> ok then server_close E h ''Handshake rate limit exceeded'' s
            else case client_hello_deserialize data of
                   Inl e \<Rightarrow> (Inl e, s)
                 | Inr client_hello \<Rightarrow>
                     and_then (server_hello_reply E h client_hello s)
                       (\<lambda>temp_session s.
                          let s = (if limited
                                   then s\<lparr>s_rate_limiter := record_handshake (ms (clk 1)) ip (s_rate_limiter s)\<rparr>
                                   else s)
                          in server_finish_hello E clk h ip (has_client_identity client_hello) temp_session s))
       (server_close E h ''Handshake error'')"

definition server_on_message ::
  "server_env \<Rightarrow> (nat \<Rightarrow> int) \<Rightarrow> hdl \<Rightarrow> bool \<Rightarrow> byte_vector \<Rightarrow> server \<Rightarrow> unit result \<times> server" where
  "server_on_message E clk h binary data s =
     (if \<not> binary then (Inr (), s)
      else case (case lookup_session True h s of
                   Some st \<Rightarrow> Some (True, st)
                 | None \<Rightarrow> map_option (Pair False) (lookup_session False h s)) of
             Some (auth, st) \<Rightarrow>
               and_then (server_receive E clk auth h st data s)
                 (\<lambda>decrypted s. case decrypted of
                    None \<Rightarrow> (Inr (), s)
                  | Some p \<Rightarrow> server_on_payload E auth h p s)
           | None \<Rightarrow> server_on_hello E clk h data s)"

section \<open>The server as a state machine\<close>

text \<open>
  Calls of the public methods, by any thread and from callbacks; the registration and the send of
  a request are steps of their own, and \<^verbatim>\<open>stop\<close> is one step. The methods that address a client by
  its identity look the handle up and then call these.
\<close>

inductive server_api :: "server_env \<Rightarrow> server \<Rightarrow> server \<Rightarrow> bool" for E :: server_env where
  send: "server_api E s (snd (server_send E h p s))"
| send_anon: "server_api E s (snd (send_anonymous E h p s))"
| respond: "server_api E s (snd (server_send_response E True h rid p s))"
| request_register: "server_api E s (snd (server_request_register now h p timeout_ms s))"
| request_send: "server_api E s (snd (server_request_send E h rid q s))"
| start_stream: "server_api E s (snd (server_start_stream E h s))"
| start_stream_op: "server_api E s (snd (server_start_stream_op E h op s))"
| stream_write: "server_api E s (snd (stream_write (server_stream_send E) st data s))"
| stream_end: "server_api E s (snd (stream_end (server_stream_send E) st s))"
| stream_cancel: "server_api E s (snd (stream_cancel (server_stream_send E) st s))"
| stream_handlers:
    "ref < length (s_streams s) \<Longrightarrow> f \<in> {set_data_handler n, set_end_handler n, set_cancel_handler n} \<Longrightarrow>
       server_api E s (s\<lparr>s_streams := (s_streams s)[ref := f (s_streams s ! ref)]\<rparr>)"
| register: "f \<in> {server_register_stream_handler op n, register_anon_stream_handler op n,
      server_register_incoming_stream_handler n, server_register_op_handler op n,
      server_register_request_handler op n, server_set_default_payload_handler n, set_on_open_callback n,
      set_on_close_callback n, register_anon_op_handler op n, register_anon_request_handler op n,
      set_anon_default_payload_handler n, set_client_identity_handler n} \<Longrightarrow> server_api E s (f s)"
| stop: "server_api E s (snd (server_stop E from_io s))"

inductive_cases server_apiE: "server_api E s t"

definition server_callbacks_ok :: "server_env \<Rightarrow> bool" where
  "server_callbacks_ok E \<longleftrightarrow> sodium_ok (se_sodium E) \<and>
     (\<forall>n s. (\<forall>h. (server_api E)\<^sup>*\<^sup>* s (snd (se_open E n h s)) \<and> (server_api E)\<^sup>*\<^sup>* s (snd (se_closed E n h s))
          \<and> (\<forall>p. (server_api E)\<^sup>*\<^sup>* s (snd (se_payload E n h p s)))
          \<and> (\<forall>r. (server_api E)\<^sup>*\<^sup>* s (snd (se_request E n h r s)))
          \<and> (\<forall>pk. (server_api E)\<^sup>*\<^sup>* s (snd (se_identity E n h pk s))))
        \<and> (\<forall>ref. (server_api E)\<^sup>*\<^sup>* s (snd (se_stream E n ref s)))
        \<and> (\<forall>bs. (server_api E)\<^sup>*\<^sup>* s (snd (se_stream_data E n bs s)))
        \<and> (server_api E)\<^sup>*\<^sup>* s (snd (se_stream_end E n s)) \<and> (server_api E)\<^sup>*\<^sup>* s (snd (se_stream_cancel E n s)))"

text \<open>The 32-bit count of connections and the 64-bit identifiers are not exhausted.\<close>

definition has_room :: "server \<Rightarrow> bool" where
  "has_room s \<longleftrightarrow> length (conn_to_ip (s_rate_limiter s)) < 2 ^ 32 - 1
     \<and> unat (next_conn_id (s_rate_limiter s)) < 2 ^ 64 - 1"

inductive server_step :: "server \<Rightarrow> server \<Rightarrow> bool" where
  api: "sodium_ok (se_sodium E) \<Longrightarrow> server_api E s t \<Longrightarrow> server_step s t"
| run: "server_step s (server_run listen_fails s)"
| timer: "server_step s (snd (server_on_timer E clk ec s))"
| on_open: "server_callbacks_ok E \<Longrightarrow> server_step s (snd (server_on_open E clk h s))"
| on_close: "server_callbacks_ok E \<Longrightarrow> server_step s (snd (server_on_close E h s))"
| on_message: "server_callbacks_ok E \<Longrightarrow> has_room s \<Longrightarrow> server_step s (snd (server_on_message E clk h binary data s))"

inductive_cases server_stepE: "server_step s t"

definition fresh_server :: "server \<Rightarrow> bool" where
  "fresh_server s \<longleftrightarrow> (\<exists>k cfg. s = WsServerWrapper k cfg)"

end
