(* ===== verification/WsServerInvariant.thy ===== *)
theory WsServerInvariant
  imports WsServer
begin

text \<open>
  The invariant of \<^verbatim>\<open>WsServerWrapper\<close> and its proof. The maps of the server refer to each other: sessions
  to registrations of the rate limiter, handles to identities and back, streams to handles. Every
  method and every event keeps these links (\<open>links_ok\<close>) and changes the pending requests only
  through the operations of the request table. \<open>quiet\<close> is what a public method, and hence a
  callback, can do to the server.
\<close>

section \<open>The invariant\<close>

text \<open>A session that is kept has completed its handshake; it is filed as identified exactly when its
  peer has proved an identity; and it is registered with the rate limiter from its address.\<close>

definition entry_ok :: "bool \<Rightarrow> rate_limiter \<Rightarrow> connection_state \<Rightarrow> bool" where
  "entry_ok auth r st \<longleftrightarrow> session_inv (cs_session st) \<and> handshake_complete (cs_session st)
     \<and> role (cs_session st) = SERVER \<and> (peer_identity (cs_session st) \<noteq> None \<longleftrightarrow> auth)
     \<and> m_find (conn_to_ip r) (rate_limiter_id st) = Some (remote_ip st)"

text \<open>No two sessions share a registration, and no connection has two.\<close>

definition sessions_ok :: "server \<Rightarrow> bool" where
  "sessions_ok s \<longleftrightarrow> registry_inv (s_rate_limiter s) \<and> keys_ok (sessions s) \<and> keys_ok (anon_sessions s)
     \<and> (\<forall>a h st. lookup_session a h s = Some st \<longrightarrow> entry_ok a (s_rate_limiter s) st)
     \<and> (\<forall>a h st a' h' st'. lookup_session a h s = Some st \<longrightarrow> lookup_session a' h' s = Some st' \<longrightarrow>
          rate_limiter_id st = rate_limiter_id st' \<longrightarrow> a = a' \<and> h = h')
     \<and> (\<forall>h. lookup_session True h s \<noteq> None \<longrightarrow> lookup_session False h s = None)"

text \<open>The identity of a handle is that of its session, and an identity leads to a handle that has it.\<close>

definition identities_ok :: "server \<Rightarrow> bool" where
  "identities_ok s \<longleftrightarrow>
     (\<forall>h. m_find (hdl_to_identity s) h = Option.bind (lookup_session True h s) (\<lambda>st. peer_identity (cs_session st)))
     \<and> (\<forall>pk h. m_find (identity_to_hdl s) pk = Some h \<longrightarrow> m_find (hdl_to_identity s) h = Some pk)"

definition streams_ok :: "server \<Rightarrow> bool" where
  "streams_ok s \<longleftrightarrow> (\<forall>h sid ref. m_find (per_connection_streams s) (h, sid) = Some ref \<longrightarrow>
     ref < length (s_streams s) \<and> stream_id (s_streams s ! ref) = sid \<and> fst (send_fn (s_streams s ! ref)) = h)"

definition links_ok :: "server \<Rightarrow> bool" where
  "links_ok s \<longleftrightarrow> sessions_ok s \<and> identities_ok s \<and> streams_ok s"

section \<open>How the parts of the server evolve\<close>

definition s_evolves :: "server \<Rightarrow> server \<Rightarrow> bool" where
  "s_evolves s t \<longleftrightarrow> table_step\<^sup>*\<^sup>* (s_requests s) (s_requests t) \<and> s_config t = s_config s
     \<and> (links_ok s \<longrightarrow> links_ok t)"

text \<open>A public method never enters a session and never touches the rate limiter.\<close>

definition quiet :: "server \<Rightarrow> server \<Rightarrow> bool" where
  "quiet s t \<longleftrightarrow> s_evolves s t \<and> s_rate_limiter t = s_rate_limiter s
     \<and> (\<forall>a h. lookup_session a h s = None \<longrightarrow> lookup_session a h t = None)"

lemma s_evolves_refl [simp, intro]: "s_evolves s s"
  by (simp add: s_evolves_def)

lemma s_evolves_trans: "s_evolves s t \<Longrightarrow> s_evolves t u \<Longrightarrow> s_evolves s u"
  by (auto simp: s_evolves_def)

lemma quiet_refl [simp, intro]: "quiet s s"
  by (simp add: quiet_def)

lemma quiet_trans: "quiet s t \<Longrightarrow> quiet t u \<Longrightarrow> quiet s u"
  by (auto simp: quiet_def intro: s_evolves_trans)

lemma transp_s_evolves: "transp s_evolves" and transp_quiet: "transp quiet"
  by (auto intro!: transpI dest: s_evolves_trans quiet_trans)

lemma quiet_evolves: "quiet s t \<Longrightarrow> s_evolves s t"
  by (simp add: quiet_def)

text \<open>What the invariant looks at.\<close>

definition same_links :: "server \<Rightarrow> server \<Rightarrow> bool" where
  "same_links s t \<longleftrightarrow> s_rate_limiter t = s_rate_limiter s \<and> sessions t = sessions s
     \<and> anon_sessions t = anon_sessions s \<and> identity_to_hdl t = identity_to_hdl s
     \<and> hdl_to_identity t = hdl_to_identity s \<and> s_streams t = s_streams s
     \<and> per_connection_streams t = per_connection_streams s"

lemma same_links_ok: "same_links s t \<Longrightarrow> links_ok t = links_ok s"
  by (simp add: same_links_def links_ok_def sessions_ok_def identities_ok_def streams_ok_def lookup_session_def)

lemma quietI:
  "same_links s t \<Longrightarrow> s_config t = s_config s \<Longrightarrow> table_step\<^sup>*\<^sup>* (s_requests s) (s_requests t) \<Longrightarrow> quiet s t"
  by (simp add: quiet_def s_evolves_def same_links_ok) (simp add: same_links_def lookup_session_def)

lemmas quiet_simps = same_links_def

lemma lookup_put_session [simp]:
  "lookup_session a h (put_session b h' st s) = (if a = b \<and> h = h' then Some st else lookup_session a h s)"
  by (auto simp: lookup_session_def put_session_def)

lemma put_session_fields [simp]:
  "s_config (put_session a h st s) = s_config s" "s_rate_limiter (put_session a h st s) = s_rate_limiter s"
  "s_requests (put_session a h st s) = s_requests s" "s_streams (put_session a h st s) = s_streams s"
  "per_connection_streams (put_session a h st s) = per_connection_streams s"
  "identity_to_hdl (put_session a h st s) = identity_to_hdl s"
  "hdl_to_identity (put_session a h st s) = hdl_to_identity s"
  "handshake_open_time (put_session a h st s) = handshake_open_time s"
  "s_closed (put_session a h st s) = s_closed s"
  by (simp_all add: put_session_def)

lemma keys_put_session:
  "keys_ok (sessions s) \<Longrightarrow> keys_ok (sessions (put_session a h st s))"
  "keys_ok (anon_sessions s) \<Longrightarrow> keys_ok (anon_sessions (put_session a h st s))"
  by (simp_all add: put_session_def)

lemma put_session_ok:
  assumes ok: "links_ok s" and st: "lookup_session a h s = Some st" and new: "entry_ok a (s_rate_limiter s) st'"
    and same: "rate_limiter_id st' = rate_limiter_id st" "peer_identity (cs_session st') = peer_identity (cs_session st)"
  shows "links_ok (put_session a h st' s)"
proof -
  have sok: "sessions_ok s" and iok: "identities_ok s" using ok by (simp_all add: links_ok_def)
  have "sessions_ok (put_session a h st' s)"
    unfolding sessions_ok_def
  proof (intro conjI allI impI)
    fix b k u
    assume "lookup_session b k (put_session a h st' s) = Some u"
    then show "entry_ok b (s_rate_limiter (put_session a h st' s)) u"
      using sok new by (auto simp: sessions_ok_def split: if_splits)
  next
    fix b k u b' k' u'
    assume "lookup_session b k (put_session a h st' s) = Some u"
      "lookup_session b' k' (put_session a h st' s) = Some u'" "rate_limiter_id u = rate_limiter_id u'"
    moreover have inj: "lookup_session b k s = Some u \<Longrightarrow> lookup_session b' k' s = Some u' \<Longrightarrow>
        rate_limiter_id u = rate_limiter_id u' \<Longrightarrow> b = b' \<and> k = k'" for b k u b' k' u'
      using sok unfolding sessions_ok_def by blast
    ultimately show "b = b'" "k = k'"
      using same(1) inj [OF st] inj [OF _ st] inj by (auto split: if_splits)
  next
    fix k
    assume "lookup_session True k (put_session a h st' s) \<noteq> None"
    moreover have "lookup_session True k s \<noteq> None \<Longrightarrow> lookup_session False k s = None" for k
      using sok by (simp add: sessions_ok_def)
    ultimately show "lookup_session False k (put_session a h st' s) = None"
      using st by (cases a) (auto split: if_splits)
  qed (use sok in \<open>simp_all add: sessions_ok_def keys_put_session\<close>)
  moreover have "identities_ok (put_session a h st' s)"
    using iok st same(2) by (auto simp: identities_ok_def)
  moreover have "streams_ok (put_session a h st' s)"
    using ok by (simp add: links_ok_def streams_ok_def)
  ultimately show ?thesis by (simp add: links_ok_def)
qed

lemma data_transfer_kept:
  "role (snd (encrypt_payload S rnd p s)) = role s" "peer_identity (snd (encrypt_payload S rnd p s)) = peer_identity s"
  "handshake_complete (snd (encrypt_payload S rnd p s)) = handshake_complete s"
  "role (snd (decrypt_packet S pkt s)) = role s" "peer_identity (snd (decrypt_packet S pkt s)) = peer_identity s"
  "handshake_complete (snd (decrypt_packet S pkt s)) = handshake_complete s"
  by (simp_all add: encrypt_payload_def decrypt_packet_def Let_def split: option.splits sum.splits)

lemma entry_ok_transfer:
  "entry_ok a r st \<Longrightarrow> entry_ok a r (st\<lparr>cs_session := snd (encrypt_payload S rnd p (cs_session st))\<rparr>)"
  "entry_ok a r st \<Longrightarrow> entry_ok a r (st\<lparr>cs_session := snd (decrypt_packet S pkt (cs_session st))\<rparr>)"
  by (auto simp: entry_ok_def data_transfer_kept encrypt_inv decrypt_inv)

lemma lookup_entry_ok: "links_ok s \<Longrightarrow> lookup_session a h s = Some st \<Longrightarrow> entry_ok a (s_rate_limiter s) st"
  by (simp add: links_ok_def sessions_ok_def)
section \<open>The public methods\<close>

lemma quiet_put_session:
  assumes "lookup_session a h s = Some st" and "links_ok s \<Longrightarrow> entry_ok a (s_rate_limiter s) st'"
    and "rate_limiter_id st' = rate_limiter_id st" and "peer_identity (cs_session st') = peer_identity (cs_session st)"
  shows "quiet s (put_session a h st' s)"
  using assms put_session_ok [of s a h st st'] by (auto simp: quiet_def s_evolves_def)

lemma quiet_encrypt:
  assumes "lookup_session a h s = Some st"
  shows "quiet s (snd (server_encrypt E a h st p s))"
proof -
  let ?st = "st\<lparr>cs_session := snd (encrypt_payload (se_sodium E) (s_draws s) p (cs_session st))\<rparr>"
  have "quiet s (put_session a h ?st s)"
    using assms lookup_entry_ok [OF _ assms] entry_ok_transfer(1)
    by (intro quiet_put_session [OF assms]) (simp_all add: data_transfer_kept)
  moreover have "quiet t (t\<lparr>s_draws := n\<rparr>)" for t n
    by (rule quietI) (simp_all add: quiet_simps)
  ultimately show ?thesis
    by (auto simp: server_encrypt_def split: prod.splits intro: quiet_trans)
qed

lemma quiet_transport: "quiet s (snd (server_transport E h frame s))"
  and quiet_close: "quiet s (snd (server_close E h reason s))"
  by (auto simp: server_transport_def server_close_def quiet_simps split: option.splits intro!: quietI)

lemma ready_lookup:
  "ready_anon h s = Some st \<Longrightarrow> lookup_session False h s = Some st \<and> handshake_complete (cs_session st)"
  "ready_session h s = Some (a, st) \<Longrightarrow> lookup_session a h s = Some st \<and> handshake_complete (cs_session st)"
  by (auto simp: ready_anon_def ready_session_def lookup_session_def is_handshake_complete_def
      split: option.splits if_splits)

lemma quiet_send: "quiet s (snd (server_send E h p s))"
  and quiet_send_anon: "quiet s (snd (send_anonymous E h p s))"
proof -
  have "quiet s (snd (catch_std (and_then (server_encrypt E a h st p s) (server_transport E h)) (\<lambda>s. (Inr (), s))))"
    if "lookup_session a h s = Some st" for a st
    by (intro catch_std_rel [OF transp_quiet] and_then_rel [OF transp_quiet] quiet_encrypt that quiet_transport) simp
  then show "quiet s (snd (server_send E h p s))" "quiet s (snd (send_anonymous E h p s))"
    using ready_lookup by (auto simp: server_send_def send_anonymous_def split: option.splits)
qed

lemma quiet_respond: "quiet s (snd (server_send_response E a h rid p s))"
  by (auto simp: server_send_response_def quiet_send quiet_send_anon split: sum.splits)

lemma quiet_table:
  "table_step (s_requests s) t \<Longrightarrow> quiet s (s\<lparr>s_requests := t\<rparr>)"
  by (rule quietI) (simp_all add: quiet_simps)

lemma quiet_request_register: "quiet s (snd (server_request_register now h p tmo s))"
proof -
  have "table_step (s_requests s) t" if "register_request k dl (s_requests s) = (pid, t)" for k dl pid t
    using table_step.register [of "s_requests s" k dl] that by simp
  then show ?thesis
    by (auto simp: server_request_register_def with_request_id_eq Let_def quiet_simps split: prod.splits
        intro!: quietI)
qed

lemma quiet_request_send: "quiet s (snd (server_request_send E h rid q s))"
proof -
  obtain r t where send: "server_send E h q s = (r, t)" by fastforce
  have t: "quiet s t" using quiet_send [of s E h q] send by simp
  have "quiet s (t\<lparr>s_requests := snd (abort_request k e (s_requests t))\<rparr>)" for k e
    by (rule quiet_trans [OF t quiet_table]) (rule table_step.abort)
  then have "abort_request k e (s_requests t) = (x, u) \<Longrightarrow> quiet s (t\<lparr>s_requests := u\<rparr>)" for k e x u
    by (metis snd_conv)
  then show ?thesis
    using t send by (auto simp: server_request_send_def split: sum.splits prod.splits)
qed

lemma quiet_add_stream: "quiet s (snd (server_add_stream h a sid op s))"
  by (auto simp: quiet_def s_evolves_def server_add_stream_def links_ok_def sessions_ok_def identities_ok_def
      streams_ok_def lookup_session_def Let_def nth_append Stream_def less_SucI)

lemma quiet_start_stream:
  "quiet s (snd (server_start_stream E h s))" "quiet s (snd (server_start_stream_op E h op s))"
proof -
  have next_id: "quiet s (s\<lparr>s_next_outgoing_stream_id := n\<rparr>)" for n
    by (rule quietI) (simp_all add: quiet_simps)
  have add: "quiet s t" if "server_add_stream h True sid o' (s\<lparr>s_next_outgoing_stream_id := n\<rparr>) = (ref, t)"
    for sid o' n ref t
    using quiet_trans [OF next_id [of n] quiet_add_stream [of _ h True sid o']] that by simp
  have "quiet s (snd (and_then (server_send E h p t) (\<lambda>_ s. (Inr ref, s))))" if "quiet s t" for t p and ref :: nat
    using that quiet_send by (intro and_then_rel [OF transp_quiet]) (auto intro: quiet_trans)
  then show "quiet s (snd (server_start_stream E h s))" "quiet s (snd (server_start_stream_op E h op s))"
    using add
    by (auto simp: server_start_stream_def server_start_stream_op_def Let_def split: prod.splits sum.splits option.splits)
qed

lemma quiet_swallow: "quiet s (snd x) \<Longrightarrow> quiet s (snd (swallow x))"
  by (auto simp: swallow_def split: prod.splits sum.splits)

lemma quiet_stream_ops:
  "quiet s (snd (stream_write (server_stream_send E) st data s))"
  "quiet s (snd (stream_end (server_stream_send E) st s))"
  "quiet s (snd (stream_cancel (server_stream_send E) st s))"
  by (auto simp: stream_write_sends stream_end_sends server_stream_send_def
      intro!: quiet_swallow quiet_send quiet_send_anon)

lemma quiet_close_all: "quiet s (close_all E reason hs s)"
  by (induction hs arbitrary: s) (auto intro: quiet_trans quiet_close)

text \<open>Forgetting all sessions together with all identities keeps the links.\<close>

lemma quiet_clear:
  "quiet s (s\<lparr>sessions := [], anon_sessions := [], identity_to_hdl := [], hdl_to_identity := []\<rparr>)"
  by (auto simp: quiet_def s_evolves_def links_ok_def sessions_ok_def identities_ok_def streams_ok_def lookup_session_def)

lemma close_all_fields [simp]:
  "sessions (close_all E reason hs s) = sessions s" "anon_sessions (close_all E reason hs s) = anon_sessions s"
  "s_requests (close_all E reason hs s) = s_requests s" "s_config (close_all E reason hs s) = s_config s"
  "handshake_open_time (close_all E reason hs s) = handshake_open_time s"
  "s_rate_limiter (close_all E reason hs s) = s_rate_limiter s"
  by (induction hs arbitrary: s) (simp_all add: server_close_def split: option.splits)

text \<open>\<^verbatim>\<open>stop\<close> clears the maps one after the other; closing connections does not look at them.\<close>

lemma close_all_update:
  "close_all E reason hs (s\<lparr>sessions := x\<rparr>) = (close_all E reason hs s)\<lparr>sessions := x\<rparr>"
proof (induction hs arbitrary: s)
  case (Cons h hs)
  have "snd (server_close E h reason (s\<lparr>sessions := x\<rparr>)) = (snd (server_close E h reason s))\<lparr>sessions := x\<rparr>"
    by (cases s) (simp add: server_close_def split: option.splits)
  then show ?case by (simp add: Cons.IH)
qed simp

lemma server_stop_eq:
  "server_stop E from_io s =
     (case fail_where (\<lambda>_. True) (RuntimeError ''Server is stopping'') (s_requests s) of
        (Inl e, t) \<Rightarrow> (Inl e, s\<lparr>stopping := True, timeout_timer := None, s_requests := t\<rparr>)
      | (Inr _, t) \<Rightarrow>
          let u = close_all E ''Server shutdown'' (map fst (sessions s) @ map fst (anon_sessions s))
                    (s\<lparr>stopping := True, timeout_timer := None, s_requests := t\<rparr>)
          in (Inr (), u\<lparr>sessions := [], anon_sessions := [], identity_to_hdl := [], hdl_to_identity := [],
                        server_thread := (server_thread u \<and> from_io)\<rparr>))"
proof -
  have "close_all E r (xs @ ys) u = close_all E r ys (close_all E r xs u)" for r xs ys u
    by (induction xs arbitrary: u) simp_all
  then show ?thesis
    by (auto simp: server_stop_def Let_def close_all_update split: sum.splits prod.splits)
qed

lemma quiet_stop: "quiet s (snd (server_stop E b s))"
proof -
  let ?f = "fail_where (\<lambda>_. True) (RuntimeError ''Server is stopping'') (s_requests s)"
  let ?t = "s\<lparr>stopping := True, timeout_timer := None, s_requests := snd ?f\<rparr>"
  have "table_step (s_requests s) (snd ?f)" by (rule table_step.fail)
  then have t: "quiet s ?t" by (intro quietI) (simp_all add: quiet_simps)
  let ?u = "close_all E ''Server shutdown'' (map fst (sessions s) @ map fst (anon_sessions s)) ?t"
  have "quiet ?u (?u\<lparr>sessions := [], anon_sessions := [], identity_to_hdl := [], hdl_to_identity := []\<rparr>)"
    by (rule quiet_clear)
  moreover have "quiet v (v\<lparr>server_thread := x\<rparr>)" for v x
    by (rule quietI) (simp_all add: quiet_simps)
  ultimately have "quiet s (?u\<lparr>sessions := [], anon_sessions := [], identity_to_hdl := [], hdl_to_identity := [],
      server_thread := x\<rparr>)" for x
    using quiet_trans [OF t quiet_close_all] by (meson quiet_trans)
  then show ?thesis
    using t by (auto simp: server_stop_eq Let_def split: prod.splits sum.splits)
qed

lemma server_api_quiet:
  assumes "server_api E s t"
  shows "quiet s t"
  using assms
proof (cases rule: server_api.cases)
  case (stream_handlers ref f n)
  then show ?thesis
    by (auto simp: quiet_def s_evolves_def links_ok_def sessions_ok_def identities_ok_def streams_ok_def
        lookup_session_def nth_list_update set_data_handler_def set_end_handler_def set_cancel_handler_def)
next
  case (register f op n)
  then show ?thesis
    by (auto simp: server_register_stream_handler_def register_anon_stream_handler_def
        server_register_incoming_stream_handler_def server_register_op_handler_def
        server_register_request_handler_def server_set_default_payload_handler_def set_on_open_callback_def
        set_on_close_callback_def register_anon_op_handler_def register_anon_request_handler_def
        set_anon_default_payload_handler_def set_client_identity_handler_def quiet_simps intro!: quietI)
qed (simp_all add: quiet_send quiet_send_anon quiet_respond quiet_request_register quiet_request_send
    quiet_start_stream quiet_stream_ops quiet_stop)

lemma server_apis_quiet: "(server_api E)\<^sup>*\<^sup>* s t \<Longrightarrow> quiet s t"
  by (induction rule: rtranclp_induct) (auto dest: server_api_quiet intro: quiet_trans)

lemma server_callbacks_quiet:
  assumes "server_callbacks_ok E"
  shows "quiet s (snd (se_open E n h s))" "quiet s (snd (se_closed E n h s))" "quiet s (snd (se_payload E n h p s))"
    "quiet s (snd (se_request E n h r s))" "quiet s (snd (se_identity E n h pk s))" "quiet s (snd (se_stream E n ref s))"
    "quiet s (snd (se_stream_data E n bs s))" "quiet s (snd (se_stream_end E n s))"
    "quiet s (snd (se_stream_cancel E n s))" "sodium_ok (se_sodium E)"
  using assms server_apis_quiet unfolding server_callbacks_ok_def by blast+

section \<open>The rate limiter behind the server\<close>

lemma rl_ids_kept:
  "conn_to_ip (snd (check_connection_rate now ip r)) = conn_to_ip r"
  "conn_to_ip (record_connection now ip r) = conn_to_ip r"
  "conn_to_ip (snd (check_handshake_rate now ip r)) = conn_to_ip r"
  "conn_to_ip (record_handshake now ip r) = conn_to_ip r"
  "conn_to_ip (snd (check_message_rate fl now c r)) = conn_to_ip r"
  "conn_to_ip (record_message fl now c r) = conn_to_ip r"
  "conn_to_ip (cleanup now r) = conn_to_ip r"
  "next_conn_id (snd (check_handshake_rate now ip r)) = next_conn_id r"
  "next_conn_id (record_handshake now ip r) = next_conn_id r"
  by (simp_all add: check_connection_rate_def record_connection_def check_handshake_rate_def record_handshake_def
      check_message_rate_def record_message_def cleanup_def put_ip_def Let_def split: option.splits)

lemma evolves_rl:
  assumes "rl_step (s_rate_limiter s) r" and "conn_to_ip r = conn_to_ip (s_rate_limiter s)"
  shows "s_evolves s (s\<lparr>s_rate_limiter := r\<rparr>)"
  using assms rl_step_inv [of "s_rate_limiter s" r]
  by (auto simp: s_evolves_def links_ok_def sessions_ok_def identities_ok_def streams_ok_def lookup_session_def
      entry_ok_def)

lemma evolves_admit: "s_evolves s (snd (admit_rate clk ip s))"
proof -
  let ?r = "snd (check_connection_rate (ms (clk 0)) ip (s_rate_limiter s))"
  have 1: "s_evolves s (s\<lparr>s_rate_limiter := ?r\<rparr>)"
    by (rule evolves_rl) (simp_all add: rl_step.check_conn rl_ids_kept)
  have "s_evolves (s\<lparr>s_rate_limiter := ?r\<rparr>)
      (s\<lparr>s_rate_limiter := ?r\<rparr>\<lparr>s_rate_limiter := record_connection (ms (clk 1)) ip ?r\<rparr>)"
    by (rule evolves_rl) (simp_all add: rl_step.record_conn rl_ids_kept)
  with 1 have "s_evolves s (s\<lparr>s_rate_limiter := record_connection (ms (clk 1)) ip ?r\<rparr>)"
    by (auto dest: s_evolves_trans)
  with 1 show ?thesis by (auto simp: admit_rate_def split: prod.splits)
qed

lemma evolves_same:
  "same_links s t \<Longrightarrow> s_config t = s_config s \<Longrightarrow> s_requests t = s_requests s \<Longrightarrow> s_evolves s t"
  by (rule quiet_evolves) (rule quietI, simp_all)

lemma evolves_server_open:
  assumes "server_callbacks_ok E"
  shows "s_evolves s (snd (server_on_open E clk h s))"
proof -
  obtain b t where t: "admit_rate clk (get_remote_ip E h) s = (b, t)" by fastforce
  have st: "s_evolves s t" using evolves_admit [of s clk "get_remote_ip E h"] t by simp
  have call: "s_evolves u (snd (call_if x (\<lambda>n. se_open E n h) u))" for x u
    using server_callbacks_quiet(1) [OF assms] by (auto simp: call_if_def split: option.splits intro: quiet_evolves)
  have put: "s_evolves t (t\<lparr>handshake_open_time := m\<rparr>)" for m
    by (rule evolves_same) (simp_all add: quiet_simps)
  have "s_evolves t (snd (server_on_open E clk h s))"
    using t call quiet_evolves [OF quiet_close] s_evolves_trans [OF put call]
    by (auto simp: server_on_open_def Let_def split: bool.splits)
  with st show ?thesis by (rule s_evolves_trans)
qed

section \<open>Closed connections\<close>

lemma lookup_drop_session [simp]:
  "lookup_session a k (drop_session b h s) = (if a = b \<and> k = h then None else lookup_session a k s)"
  by (auto simp: drop_session_def lookup_session_def Let_def split: option.splits)

lemma drop_session_fields [simp]:
  "s_config (drop_session a h s) = s_config s" "s_requests (drop_session a h s) = s_requests s"
  "s_streams (drop_session a h s) = s_streams s" "per_connection_streams (drop_session a h s) = per_connection_streams s"
  "identity_to_hdl (drop_session a h s) = identity_to_hdl s" "hdl_to_identity (drop_session a h s) = hdl_to_identity s"
  "handshake_open_time (drop_session a h s) = handshake_open_time s" "s_closed (drop_session a h s) = s_closed s"
  by (simp_all add: drop_session_def Let_def split: option.splits)

lemma drop_session_ok:
  assumes ok: "sessions_ok s"
  shows "sessions_ok (drop_session a h s)"
proof (cases "lookup_session a h s")
  case None
  then show ?thesis using ok by (simp add: drop_session_def)
next
  case (Some st)
  have inj: "lookup_session b k s = Some u \<Longrightarrow> lookup_session b' k' s = Some u' \<Longrightarrow>
      rate_limiter_id u = rate_limiter_id u' \<Longrightarrow> b = b' \<and> k = k'" for b k u b' k' u'
    using ok unfolding sessions_ok_def by blast
  have e: "entry_ok a (s_rate_limiter s) st" and reg: "registry_inv (s_rate_limiter s)"
    using ok Some by (simp_all add: sessions_ok_def)
  have rl: "s_rate_limiter (drop_session a h s)
      = unregister_connection (rate_limiter_id st) (remote_ip st) (s_rate_limiter s)"
    using Some by (simp add: drop_session_def Let_def)
  have c: "conn_to_ip (s_rate_limiter (drop_session a h s)) = m_erase (rate_limiter_id st) (conn_to_ip (s_rate_limiter s))"
    by (simp add: rl unregister_connection_def Let_def put_ip_def split: option.splits)
  have "registry_inv (s_rate_limiter (drop_session a h s))"
    unfolding rl using e rl_step_inv [OF reg rl_step.unregister] by (simp add: entry_ok_def)
  moreover have "entry_ok b (s_rate_limiter (drop_session a h s)) u"
    if "lookup_session b k s = Some u" "\<not> (b = a \<and> k = h)" for b k u
  proof -
    have "entry_ok b (s_rate_limiter s) u" using ok that(1) by (simp add: sessions_ok_def)
    moreover have "rate_limiter_id u \<noteq> rate_limiter_id st" using inj [OF that(1) Some] that(2) by blast
    ultimately show ?thesis by (simp add: entry_ok_def c)
  qed
  moreover have "keys_ok (sessions (drop_session a h s))" "keys_ok (anon_sessions (drop_session a h s))"
    using ok Some by (simp_all add: sessions_ok_def drop_session_def Let_def)
  ultimately show ?thesis
    using ok inj unfolding sessions_ok_def by (auto split: if_splits)
qed

lemma drop_identity_fields [simp]:
  "s_config (drop_identity h s) = s_config s" "s_requests (drop_identity h s) = s_requests s"
  "s_streams (drop_identity h s) = s_streams s" "per_connection_streams (drop_identity h s) = per_connection_streams s"
  "s_rate_limiter (drop_identity h s) = s_rate_limiter s" "sessions (drop_identity h s) = sessions s"
  "anon_sessions (drop_identity h s) = anon_sessions s" "s_closed (drop_identity h s) = s_closed s"
  "handshake_open_time (drop_identity h s) = handshake_open_time s"
  "m_find (hdl_to_identity (drop_identity h s)) k = (if k = h then None else m_find (hdl_to_identity s) k)"
  "m_find (identity_to_hdl (drop_identity h s)) pk
     = (if m_find (hdl_to_identity s) h = Some pk then None else m_find (identity_to_hdl s) pk)"
  by (auto simp: drop_identity_def split: option.splits)

text \<open>The state \<^verbatim>\<open>on_close\<close> leaves, apart from the requests and the handshake time.\<close>

definition without_connection :: "hdl \<Rightarrow> server \<Rightarrow> server" where
  "without_connection h s =
     (let s = drop_session False h (drop_session True h s);
          s = s\<lparr>per_connection_streams := filter (\<lambda>((h', sid), ref). h' \<noteq> h) (per_connection_streams s)\<rparr>
      in drop_identity h s)"

lemma map_of_filter_streams:
  "m_find (filter (\<lambda>((h', sid), ref). h' \<noteq> h) m) (k, i) = (if k = h then None else m_find m (k, i))"
  by (induction m) auto

lemma lookup_sessions_only:
  "sessions t = sessions s \<Longrightarrow> anon_sessions t = anon_sessions s \<Longrightarrow> lookup_session a h t = lookup_session a h s"
  by (simp add: lookup_session_def)

lemma sessions_ok_cong:
  "sessions t = sessions s \<Longrightarrow> anon_sessions t = anon_sessions s \<Longrightarrow> s_rate_limiter t = s_rate_limiter s \<Longrightarrow>
     sessions_ok t = sessions_ok s"
  by (simp add: sessions_ok_def lookup_session_def)

lemma lookup_without_connection [simp]:
  "lookup_session a k (without_connection h s) = (if k = h then None else lookup_session a k s)"
proof -
  have "lookup_session a k (without_connection h s) = lookup_session a k (drop_session False h (drop_session True h s))"
    by (rule lookup_sessions_only) (simp_all add: without_connection_def Let_def)
  then show ?thesis by (cases a) auto
qed

lemma without_connection_ok:
  assumes "links_ok s"
  shows "links_ok (without_connection h s)"
proof -
  let ?d = "drop_session False h (drop_session True h s)"
  have "sessions_ok ?d"
    using assms by (intro drop_session_ok) (simp add: links_ok_def)
  then have "sessions_ok (without_connection h s)"
    by (subst sessions_ok_cong [of _ ?d]) (simp_all add: without_connection_def Let_def)
  moreover have "identities_ok (without_connection h s)"
    unfolding identities_ok_def lookup_without_connection
    using assms by (auto simp: links_ok_def identities_ok_def without_connection_def Let_def split: if_splits)
  moreover have "streams_ok (without_connection h s)"
    using assms
    by (auto simp: links_ok_def streams_ok_def without_connection_def Let_def map_of_filter_streams split: if_splits)
  ultimately show ?thesis by (simp add: links_ok_def)
qed

lemma without_connection_fields [simp]:
  "s_config (without_connection h s) = s_config s" "s_requests (without_connection h s) = s_requests s"
  "s_closed (without_connection h s) = s_closed s"
  "handshake_open_time (without_connection h s) = handshake_open_time s"
  by (simp_all add: without_connection_def Let_def)

lemma server_cleanup_eq:
  "server_cleanup h s =
     (case fail_where (\<lambda>(h', rid). h' = h) (RuntimeError ''Client disconnected'') (s_requests s) of
        (Inl e, t) \<Rightarrow> (Inl e, (without_connection h s)\<lparr>s_requests := t\<rparr>)
      | (Inr _, t) \<Rightarrow> (Inr (), (without_connection h s)
          \<lparr>s_requests := t, handshake_open_time := m_erase h (handshake_open_time s)\<rparr>))"
  by (auto simp: server_cleanup_def without_connection_def Let_def split: prod.splits sum.splits)

lemma evolves_server_cleanup: "s_evolves s (snd (server_cleanup h s))"
proof -
  let ?f = "fail_where (\<lambda>(h', rid). h' = h) (RuntimeError ''Client disconnected'') (s_requests s)"
  have "s_evolves s (without_connection h s)"
    by (simp add: s_evolves_def without_connection_ok)
  moreover have "quiet (without_connection h s) ((without_connection h s)\<lparr>s_requests := snd ?f\<rparr>)"
    by (rule quiet_table) (simp add: table_step.fail)
  moreover have "quiet u (u\<lparr>handshake_open_time := m\<rparr>)" for u m
    by (rule quietI) (simp_all add: quiet_simps)
  ultimately have "s_evolves s ((without_connection h s)\<lparr>s_requests := snd ?f\<rparr>)"
      "s_evolves s ((without_connection h s)\<lparr>s_requests := snd ?f, handshake_open_time := m\<rparr>)" for m
    by (meson quiet_evolves s_evolves_trans)+
  then show ?thesis
    by (auto simp: server_cleanup_eq split: prod.splits sum.splits)
qed

lemma evolves_server_close:
  assumes "server_callbacks_ok E"
  shows "s_evolves s (snd (server_on_close E h s))"
  unfolding server_on_close_def
  using server_callbacks_quiet(2) [OF assms]
  by (intro and_then_rel [OF transp_s_evolves] evolves_server_cleanup)
    (auto simp: call_if_def split: option.splits intro: quiet_evolves)

section \<open>Timeouts\<close>

lemma evolves_check_timeouts: "s_evolves s (snd (check_timeouts E clk s))"
proof -
  let ?now = "ms (clk 0)"
  let ?t = "check_handshakes E ?now (check_idle E ?now s)"
  have "quiet s (check_idle E ?now s)"
    by (simp add: check_idle_def quiet_close_all)
  moreover have "quiet u (check_handshakes E n u)" for u n
  proof -
    have "quiet v (v\<lparr>handshake_open_time := m\<rparr>)" for v m
      by (rule quietI) (simp_all add: quiet_simps)
    then show ?thesis
      unfolding check_handshakes_def by (auto intro: quiet_trans [OF quiet_close_all])
  qed
  ultimately have t: "s_evolves s ?t"
    by (meson quiet_evolves quiet_trans)
  let ?x = "if deadlines (s_requests ?t) \<noteq> [] then expire (clk 1) (s_requests ?t) else (Inr (), s_requests ?t)"
  have "quiet ?t (?t\<lparr>s_requests := snd (expire (clk 1) (s_requests ?t))\<rparr>)"
    by (rule quiet_table) (rule table_step.expire)
  then have x: "s_evolves ?t (?t\<lparr>s_requests := snd ?x\<rparr>)"
    by (auto intro: quiet_evolves)
  have rl: "s_evolves u (u\<lparr>s_rate_limiter := cleanup n (s_rate_limiter u)\<rparr>)" for u n
    by (rule evolves_rl) (simp_all add: rl_step.sweep rl_ids_kept)
  show ?thesis
    using s_evolves_trans [OF t x] s_evolves_trans [OF s_evolves_trans [OF t x] rl [of _ "ms (clk 2)"]]
    unfolding check_timeouts_def Let_def
    by (cases ?x) (auto split: sum.splits)
qed

lemma evolves_timer: "s_evolves s (snd (server_on_timer E clk ec s))"
proof -
  have "s_evolves u (schedule_timeout_check u)" for u
    by (rule evolves_same) (simp_all add: schedule_timeout_check_def quiet_simps Let_def)
  then show ?thesis
    by (auto simp: server_on_timer_def intro!: and_then_rel [OF transp_s_evolves, where s = s] evolves_check_timeouts)
qed

lemma evolves_run: "s_evolves s (server_run b s)"
  by (rule evolves_same) (simp_all add: server_run_def schedule_timeout_check_def quiet_simps Let_def)

section \<open>Messages\<close>

lemma evolves_receive:
  assumes "lookup_session a h s = Some st"
  shows "s_evolves s (snd (server_receive E clk a h st data s))"
proof -
  let ?lim = "rl_enabled (rate_limit (s_config s))"
  let ?r = "snd (if ?lim then check_message_rate (se_fl E) (us (clk 0)) (rate_limiter_id st) (s_rate_limiter s)
      else (True, s_rate_limiter s))"
  let ?s = "s\<lparr>s_rate_limiter := ?r\<rparr>"
  let ?st = "st\<lparr>cs_session := snd (decrypt_packet (se_sodium E) data (cs_session st))\<rparr>"
  let ?t = "put_session a h ?st ?s"
  let ?u = "if ?lim then ?t\<lparr>s_rate_limiter := record_message (se_fl E) (us (clk 1)) (rate_limiter_id st)
      (s_rate_limiter ?t)\<rparr> else ?t"
  let ?v = "put_session a h (?st\<lparr>last_activity_ms := ms (clk 2)\<rparr>) ?u"
  have s: "s_evolves s ?s"
    using evolves_rl [of s ?r] rl_step.check_msg [of "s_rate_limiter s"] by (auto simp: rl_ids_kept)
  have look: "lookup_session a h ?s = Some st"
    using lookup_sessions_only [of ?s s a h] assms by simp
  have t: "s_evolves s ?t"
    using s_evolves_trans [OF s quiet_evolves [OF quiet_put_session [OF look, of ?st]]]
      lookup_entry_ok [OF _ look] entry_ok_transfer(2) by (simp add: data_transfer_kept)
  have u: "s_evolves s ?u"
    using s_evolves_trans [OF t evolves_rl [of ?t]] rl_step.record_msg [of "s_rate_limiter ?t"] t
    by (auto simp: rl_ids_kept)
  have look_u: "lookup_session a h ?u = Some ?st"
  proof -
    have "lookup_session a h ?u = lookup_session a h ?t" by (rule lookup_sessions_only) simp_all
    then show ?thesis by simp
  qed
  have v: "s_evolves s ?v"
  proof (rule s_evolves_trans [OF u quiet_evolves [OF quiet_put_session [OF look_u]]])
    show "entry_ok a (s_rate_limiter ?u) (?st\<lparr>last_activity_ms := ms (clk 2)\<rparr>)" if "links_ok ?u"
      using lookup_entry_ok [OF that look_u] by (simp add: entry_ok_def)
  qed simp_all
  have closed: "s_evolves s w \<Longrightarrow> s_evolves s (snd (and_then (server_close E h reason w) (\<lambda>_ s. (Inr None, s))))"
    for w reason and x :: "payload option"
    by (rule and_then_rel [OF transp_s_evolves]) (auto intro: s_evolves_trans quiet_evolves [OF quiet_close])
  show ?thesis
    unfolding server_receive_def Let_def
    using closed [OF s] closed [OF t] t v
    by (auto intro!: catch_std_rel [OF transp_s_evolves, where s = s] split: prod.splits sum.splits if_splits)
qed

lemma evolves_server_response: "s_evolves s (snd (server_on_response h p s))"
proof -
  have "quiet s (s\<lparr>s_requests := snd (complete_request k q (s_requests s))\<rparr>)" for k q
    by (rule quiet_table) (rule table_step.complete)
  then have "complete_request k q (s_requests s) = (x, t) \<Longrightarrow> s_evolves s (s\<lparr>s_requests := t\<rparr>)" for k q x t
    by (metis quiet_evolves snd_conv)
  then show ?thesis
    unfolding server_on_response_def by (auto split: sum.splits prod.splits)
qed

lemma evolves_server_stream:
  assumes "server_callbacks_ok E"
  shows "s_evolves s (snd (server_on_stream E a h p s))"
proof -
  note cb = server_callbacks_quiet(1-9) [OF assms, THEN quiet_evolves]
  have add: "server_add_stream h a sid op s = (ref, t) \<Longrightarrow> s_evolves s t" for sid op ref t
    using quiet_evolves [OF quiet_add_stream, of s h a sid op] by simp
  have call: "s_evolves s t \<Longrightarrow> s_evolves s (snd (call_if x (\<lambda>n. se_stream E n ref) t))" for x ref t
    using cb(6) by (auto simp: call_if_def split: option.splits intro: s_evolves_trans)
  have start: "s_evolves s (snd (server_on_stream_start E a h sid reader s))" for sid reader
    using add call unfolding server_on_stream_start_def by (auto split: sum.splits prod.splits)
  have erase: "s_evolves s (s\<lparr>per_connection_streams := m_erase k (per_connection_streams s)\<rparr>)" for k
    by (auto simp: s_evolves_def links_ok_def sessions_ok_def identities_ok_def streams_ok_def lookup_session_def)
  have cancel: "s_evolves s (snd (dispatch_cancel (se_stream_cancel E) st
      (s\<lparr>per_connection_streams := m_erase k (per_connection_streams s)\<rparr>)))" for st :: "(hdl \<times> bool) stream" and k
    using s_evolves_trans [OF erase cb(9)] erase by (auto simp: dispatch_cancel_def split: option.splits)
  show ?thesis
    unfolding server_on_stream_def Let_def
    by (auto simp: start cancel dispatch_data_def dispatch_end_def cb split: prod.splits sum.splits option.splits)
qed

lemma evolves_server_payload:
  assumes "server_callbacks_ok E"
  shows "s_evolves s (snd (server_on_payload E a h p s))"
proof -
  note cb = server_callbacks_quiet(1-9) [OF assms, THEN quiet_evolves]
  have "s_evolves s (snd (and_then (se_request E n h r s) (\<lambda>q s. server_send_response E a h rid q s)))" for n r rid
    by (intro and_then_rel [OF transp_s_evolves] cb quiet_evolves [OF quiet_respond])
  then have "s_evolves s (snd (server_dispatch_payload E a h p s))"
    unfolding server_dispatch_payload_def by (auto simp: cb split: handler.splits prod.splits sum.splits)
  then show ?thesis
    unfolding server_on_payload_def
    by (intro catch_std_rel [OF transp_s_evolves])
      (auto simp: evolves_server_response evolves_server_stream [OF assms])
qed

section \<open>The handshake\<close>

text \<open>What a new server session is after it has answered: complete, and with exactly the identity the
  ClientHello carries and proves.\<close>

lemma server_respond_fresh:
  assumes "sodium_ok S" and "server_respond_to_handshake S rnd ch (Session SERVER k vs) = (Inr sh, sess)"
  shows "session_inv sess \<and> handshake_complete sess \<and> role sess = SERVER
     \<and> peer_identity sess = (if has_client_identity ch then Some (identity_pk ch) else None)
     \<and> (has_client_identity ch \<longrightarrow> verify S (identity_sig ch) (pk_data (ephemeral_pk ch)) (identity_pk ch))"
proof -
  have "session_inv (Session SERVER k vs)"
    by (rule fresh_session_inv) (auto simp: fresh_session_def)
  then have "session_inv sess"
    using respond_inv [OF assms(1), of "Session SERVER k vs" rnd ch] assms(2) by simp
  then show ?thesis
    using assms(2)
    by (auto simp: server_respond_to_handshake_def Session_def Let_def split: option.splits if_splits sum.splits)
qed

text \<open>Entering a session for a connection that has none.\<close>

lemma sessions_entry: "sessions_ok s \<Longrightarrow> lookup_session a h s = Some st \<Longrightarrow> entry_ok a (s_rate_limiter s) st"
  by (simp add: sessions_ok_def)

lemma sessions_injective:
  "sessions_ok s \<Longrightarrow> lookup_session a h s = Some st \<Longrightarrow> lookup_session a' h' s = Some st' \<Longrightarrow>
     rate_limiter_id st = rate_limiter_id st' \<Longrightarrow> a = a' \<and> h = h'"
  unfolding sessions_ok_def by blast

text \<open>A session under a new registration joins the others.\<close>

lemma put_new_session_ok:
  assumes ok: "sessions_ok s" and reg: "registry_inv r"
    and kept: "\<And>b k u. lookup_session b k s = Some u \<Longrightarrow> entry_ok b r u \<and> rate_limiter_id u \<noteq> rate_limiter_id st"
    and free: "lookup_session True h s = None" "lookup_session False h s = None" and new: "entry_ok a r st"
  shows "sessions_ok (put_session a h st (s\<lparr>s_rate_limiter := r\<rparr>))"
  unfolding sessions_ok_def
proof (intro conjI allI impI)
  let ?s = "s\<lparr>s_rate_limiter := r\<rparr>"
  have look: "lookup_session b k ?s = lookup_session b k s" for b k
    by (rule lookup_sessions_only) simp_all
  {
    fix b k u
    assume "lookup_session b k (put_session a h st ?s) = Some u"
    then show "entry_ok b (s_rate_limiter (put_session a h st ?s)) u"
      using new kept [of b k u] by (auto simp: look split: if_splits)
  next
    fix b k u b' k' u'
    assume u: "lookup_session b k (put_session a h st ?s) = Some u"
      "lookup_session b' k' (put_session a h st ?s) = Some u'" "rate_limiter_id u = rate_limiter_id u'"
    have "b = b' \<and> k = k'"
      using u kept [of b k u] kept [of b' k' u'] sessions_injective [OF ok, of b k u b' k' u']
      by (simp only: lookup_put_session look split: if_splits) auto
    then show "b = b'" "k = k'" by simp_all
  next
    fix k
    assume "lookup_session True k (put_session a h st ?s) \<noteq> None"
    moreover have "lookup_session True k s \<noteq> None \<Longrightarrow> lookup_session False k s = None"
      using ok by (simp add: sessions_ok_def)
    ultimately show "lookup_session False k (put_session a h st ?s) = None"
      using free by (cases a) (auto simp: look split: if_splits)
  }
qed (use ok reg in \<open>simp_all add: sessions_ok_def keys_put_session\<close>)

lemma enter_session_ok:
  assumes ok: "sessions_ok s" and room: "has_room s"
    and free: "lookup_session True h s = None" "lookup_session False h s = None"
    and sess: "session_inv sess" "handshake_complete sess" "role sess = SERVER" "peer_identity sess \<noteq> None \<longleftrightarrow> a"
  shows "sessions_ok (enter_session clk a h ip sess s)
     \<and> (\<forall>b k. lookup_session b k (enter_session clk a h ip sess s) =
          (if b = a \<and> k = h
           then Some \<lparr>cs_session = sess, rate_limiter_id = next_conn_id (s_rate_limiter s), remote_ip = ip,
                      last_activity_ms = ms (clk 2)\<rparr>
           else lookup_session b k s))"
proof -
  let ?r = "s_rate_limiter s" and ?st = "\<lparr>cs_session = sess, rate_limiter_id = next_conn_id (s_rate_limiter s),
      remote_ip = ip, last_activity_ms = ms (clk 2)\<rparr>"
  let ?r' = "snd (register_connection ip ?r)"
  let ?s = "s\<lparr>s_rate_limiter := ?r'\<rparr>"
  have reg: "registry_inv ?r" using ok by (simp add: sessions_ok_def)
  have new: "m_find (conn_to_ip ?r) (next_conn_id ?r) = None"
    using reg by (force simp: registry_inv_def map_of_eq_None_iff)
  have id: "fst (register_connection ip ?r) = next_conn_id ?r"
    and c: "conn_to_ip ?r' = m_put (next_conn_id ?r) ip (conn_to_ip ?r)"
    by (simp_all add: register_connection_def Let_def put_ip_def)
  have reg': "registry_inv ?r'"
    using rl_step_inv [OF reg rl_step.register] room by (simp add: has_room_def)
  have look: "lookup_session b k ?s = lookup_session b k s" for b k
    by (rule lookup_sessions_only) simp_all
  have "lookup_session a h s = None" using free by (cases a) simp_all
  then have eq: "enter_session clk a h ip sess s = put_session a h ?st ?s"
    using look [of a h] id by (auto simp: enter_session_def emplace_session_def split: prod.splits)
  have "entry_ok b ?r' u \<and> rate_limiter_id u \<noteq> rate_limiter_id ?st" if "lookup_session b k s = Some u" for b k u
    using sessions_entry [OF ok that] new by (auto simp: entry_ok_def c)
  moreover have "entry_ok a ?r' ?st" using sess by (simp add: entry_ok_def c)
  ultimately have "sessions_ok (put_session a h ?st ?s)"
    using put_new_session_ok [OF ok reg' _ free] by blast
  then show ?thesis
    by (simp add: eq look)
qed

lemma enter_session_fields [simp]:
  "s_config (enter_session clk a h ip sess s) = s_config s"
  "s_requests (enter_session clk a h ip sess s) = s_requests s"
  "s_streams (enter_session clk a h ip sess s) = s_streams s"
  "per_connection_streams (enter_session clk a h ip sess s) = per_connection_streams s"
  "identity_to_hdl (enter_session clk a h ip sess s) = identity_to_hdl s"
  "hdl_to_identity (enter_session clk a h ip sess s) = hdl_to_identity s"
  by (simp_all add: enter_session_def emplace_session_def split: prod.splits)

definition answered :: "session \<Rightarrow> bool" where
  "answered sess \<longleftrightarrow> session_inv sess \<and> handshake_complete sess \<and> role sess = SERVER"

lemma enter_identified:
  assumes room: "has_room s" and free: "lookup_session True h s = None" "lookup_session False h s = None"
    and sess: "answered sess" "peer_identity sess = Some pk"
  shows "s_evolves s ((enter_session clk True h ip sess s)
     \<lparr>identity_to_hdl := m_put pk h (identity_to_hdl s), hdl_to_identity := m_put h pk (hdl_to_identity s)\<rparr>)"
proof -
  let ?t = "enter_session clk True h ip sess s"
  let ?u = "?t\<lparr>identity_to_hdl := m_put pk h (identity_to_hdl s), hdl_to_identity := m_put h pk (hdl_to_identity s)\<rparr>"
  have "links_ok ?u" if ok: "links_ok s"
  proof -
    have t: "sessions_ok ?t" "\<And>b k. lookup_session b k ?t =
        (if b = True \<and> k = h
         then Some \<lparr>cs_session = sess, rate_limiter_id = next_conn_id (s_rate_limiter s), remote_ip = ip,
                    last_activity_ms = ms (clk 2)\<rparr>
         else lookup_session b k s)"
      using enter_session_ok [OF _ room free, of sess True clk ip] ok sess
      unfolding links_ok_def answered_def by blast+
    have look: "lookup_session b k ?u = lookup_session b k ?t" for b k
      by (rule lookup_sessions_only) simp_all
    have "m_find (hdl_to_identity s) h = None"
      using ok free(1) by (simp add: links_ok_def identities_ok_def)
    moreover have "identities_ok s" using ok by (simp add: links_ok_def)
    ultimately have "identities_ok ?u"
      using sess(2) unfolding identities_ok_def look t(2) by (auto split: if_splits)
    moreover have "sessions_ok ?u"
      using t(1) sessions_ok_cong [of ?u ?t] by simp
    moreover have "streams_ok ?u"
      using ok by (simp add: links_ok_def streams_ok_def)
    ultimately show ?thesis by (simp add: links_ok_def)
  qed
  then show ?thesis by (simp add: s_evolves_def)
qed

lemma enter_anonymous:
  assumes room: "has_room s" and free: "lookup_session True h s = None" "lookup_session False h s = None"
    and sess: "answered sess" "peer_identity sess = None"
  shows "s_evolves s (enter_session clk False h ip sess s)"
proof -
  let ?t = "enter_session clk False h ip sess s"
  have "links_ok ?t" if ok: "links_ok s"
  proof -
    have t: "sessions_ok ?t" "\<And>b k. lookup_session b k ?t =
        (if b = False \<and> k = h
         then Some \<lparr>cs_session = sess, rate_limiter_id = next_conn_id (s_rate_limiter s), remote_ip = ip,
                    last_activity_ms = ms (clk 2)\<rparr>
         else lookup_session b k s)"
      using enter_session_ok [OF _ room free, of sess False clk ip] ok sess
      unfolding links_ok_def answered_def by blast+
    then have "identities_ok ?t"
      using ok unfolding links_ok_def identities_ok_def by simp metis
    then show ?thesis
      using ok t(1) by (simp add: links_ok_def streams_ok_def)
  qed
  then show ?thesis by (simp add: s_evolves_def)
qed

lemma evolves_finish_hello:
  assumes cb: "server_callbacks_ok E" and room: "has_room s"
    and free: "lookup_session True h s = None" "lookup_session False h s = None"
    and sess: "answered sess" "peer_identity sess \<noteq> None \<longleftrightarrow> ident"
  shows "s_evolves s (snd (server_finish_hello E clk h ip ident sess s))"
proof -
  have fin: "s_evolves u (u\<lparr>handshake_open_time := m\<rparr>)" for u m
    by (rule evolves_same) (simp_all add: quiet_simps)
  have "s_evolves s (snd (and_then
      (case client_identity_handler s of Some n \<Rightarrow> se_identity E n h pk s | None \<Rightarrow> (Inr True, s))
      (\<lambda>accepted s.
         if accepted
         then let s = enter_session clk True h ip sess s
              in (Inr (), s\<lparr>identity_to_hdl := m_put pk h (identity_to_hdl s),
                            hdl_to_identity := m_put h pk (hdl_to_identity s)\<rparr>)
         else server_close E h ''Identity rejected'' s)))" if pk: "peer_identity sess = Some pk" for pk
  proof -
    let ?x = "case client_identity_handler s of Some n \<Rightarrow> se_identity E n h pk s | None \<Rightarrow> (Inr True, s)"
    have q: "quiet s (snd ?x)"
      using server_callbacks_quiet(5) [OF cb] by (auto split: option.splits)
    have in_t: "has_room t" "lookup_session True h t = None" "lookup_session False h t = None" if "?x = (r, t)" for r t
      using q that room free by (auto simp: quiet_def has_room_def)
    show ?thesis
    proof (rule and_then_rel [OF transp_s_evolves quiet_evolves [OF q]])
      fix accepted t
      assume "?x = (Inr accepted, t)"
      then show "s_evolves t (snd (if accepted
         then let s = enter_session clk True h ip sess t
              in (Inr (), s\<lparr>identity_to_hdl := m_put pk h (identity_to_hdl s),
                            hdl_to_identity := m_put h pk (hdl_to_identity s)\<rparr>)
         else server_close E h ''Identity rejected'' t))"
        using enter_identified [OF in_t sess(1) pk] quiet_evolves [OF quiet_close] by (simp add: Let_def)
    qed
  qed
  moreover have "s_evolves s (enter_session clk False h ip sess s)" if "peer_identity sess = None"
    using enter_anonymous [OF room free sess(1) that] .
  ultimately show ?thesis
    unfolding server_finish_hello_def
    using sess(2)
    by (intro and_then_rel [OF transp_s_evolves])
      (auto simp: get_peer_identity_def fin split: option.splits)
qed

lemma server_hello_reply_session:
  assumes "sodium_ok (se_sodium E)" and "server_hello_reply E h ch s = (Inr sess, t)"
  shows "answered sess \<and> peer_identity sess = (if has_client_identity ch then Some (identity_pk ch) else None)
     \<and> (has_client_identity ch \<longrightarrow>
          verify (se_sodium E) (identity_sig ch) (pk_data (ephemeral_pk ch)) (identity_pk ch))"
proof -
  obtain sh where "server_respond_to_handshake (se_sodium E) (s_draws s) ch
      (Session SERVER (s_sign_key s) (cfg_supported_versions (s_config s))) = (Inr sh, sess)"
    using assms(2)
    by (auto simp: server_hello_reply_def server_transport_def Let_def split: prod.splits sum.splits option.splits)
  then show ?thesis
    using server_respond_fresh [OF assms(1)] by (auto simp: answered_def)
qed

lemma quiet_hello_reply: "quiet s (snd (server_hello_reply E h ch s))"
proof -
  have "quiet s (s\<lparr>s_draws := n\<rparr>)" for n
    by (rule quietI) (simp_all add: quiet_simps)
  then have "quiet s (snd (server_transport E h f (s\<lparr>s_draws := n\<rparr>)))" for f n
    using quiet_transport quiet_trans by blast
  then have "quiet s (snd (and_then (server_transport E h f (s\<lparr>s_draws := n\<rparr>)) (\<lambda>_ s. (Inr x, s))))" for f n
      and x :: session
    by (intro and_then_rel [OF transp_quiet]) auto
  then show ?thesis
    using \<open>\<And>n. quiet s (s\<lparr>s_draws := n\<rparr>)\<close>
    by (auto simp: server_hello_reply_def Let_def split: prod.splits sum.splits)
qed

lemma evolves_hello:
  assumes cb: "server_callbacks_ok E" and room: "has_room s"
    and free: "lookup_session True h s = None" "lookup_session False h s = None"
  shows "s_evolves s (snd (server_on_hello E clk h data s))"
proof -
  let ?ip = "get_remote_ip E h"
  define lim where "lim = rl_enabled (rate_limit (s_config s))"
  define c where "c = (if lim then check_handshake_rate (ms (clk 0)) ?ip (s_rate_limiter s) else (True, s_rate_limiter s))"
  let ?s = "s\<lparr>s_rate_limiter := snd c\<rparr>"
  have s: "s_evolves s ?s"
    using evolves_rl [of s "snd c"] rl_step.check_hs [of "s_rate_limiter s"] by (auto simp: c_def rl_ids_kept)
  have at_s: "has_room ?s" "lookup_session True h ?s = None" "lookup_session False h ?s = None"
    using room free lookup_sessions_only [of ?s s] by (simp_all add: has_room_def c_def rl_ids_kept)
  have finish: "s_evolves ?s (snd (and_then (server_hello_reply E h ch ?s) (\<lambda>sess t.
      let t = (if lim then t\<lparr>s_rate_limiter := record_handshake (ms (clk 1)) ?ip (s_rate_limiter t)\<rparr> else t)
      in server_finish_hello E clk h ?ip (has_client_identity ch) sess t)))" for ch
  proof (rule and_then_rel [OF transp_s_evolves quiet_evolves [OF quiet_hello_reply]])
    fix sess t
    assume reply: "server_hello_reply E h ch ?s = (Inr sess, t)"
    let ?t = "if lim then t\<lparr>s_rate_limiter := record_handshake (ms (clk 1)) ?ip (s_rate_limiter t)\<rparr> else t"
    have q: "quiet ?s t" using quiet_hello_reply [of ?s E h ch] reply by simp
    have t: "s_evolves t ?t"
      using evolves_rl [of t] rl_step.record_hs [of "s_rate_limiter t"] by (auto simp: rl_ids_kept)
    have "lookup_session b k ?t = lookup_session b k t" for b k
      by (rule lookup_sessions_only) simp_all
    then have "lookup_session True h ?t = None" "lookup_session False h ?t = None"
      using q at_s unfolding quiet_def by metis+
    moreover have "has_room ?t"
    proof -
      have "s_rate_limiter t = s_rate_limiter ?s" using q by (simp only: quiet_def)
      then show ?thesis using at_s(1) by (simp add: has_room_def rl_ids_kept)
    qed
    ultimately have "s_evolves ?t (snd (server_finish_hello E clk h ?ip (has_client_identity ch) sess ?t))"
      using server_hello_reply_session [OF server_callbacks_quiet(10) [OF cb] reply]
      by (intro evolves_finish_hello [OF cb]) auto
    with t show "s_evolves t (snd (let t = ?t in server_finish_hello E clk h ?ip (has_client_identity ch) sess t))"
      unfolding Let_def by (rule s_evolves_trans)
  qed
  have close: "s_evolves t (snd (server_close E h reason t))" for t reason
    by (rule quiet_evolves [OF quiet_close])
  have body: "s_evolves s (snd (if \<not> fst c then server_close E h ''Handshake rate limit exceeded'' ?s
      else case client_hello_deserialize data of
             Inl e \<Rightarrow> (Inl e, ?s)
           | Inr ch \<Rightarrow> and_then (server_hello_reply E h ch ?s) (\<lambda>sess t.
               let t = (if lim then t\<lparr>s_rate_limiter := record_handshake (ms (clk 1)) ?ip (s_rate_limiter t)\<rparr> else t)
               in server_finish_hello E clk h ?ip (has_client_identity ch) sess t)))"
    using s s_evolves_trans [OF s close] s_evolves_trans [OF s finish] by (simp split: sum.splits)
  show ?thesis
    unfolding server_on_hello_def Let_def case_prod_beta lim_def [symmetric] c_def [symmetric]
    by (rule catch_std_rel [OF transp_s_evolves body [unfolded Let_def] close])
qed

lemma evolves_server_message:
  assumes "server_callbacks_ok E" and "has_room s"
  shows "s_evolves s (snd (server_on_message E clk h binary data s))"
proof -
  have known: "s_evolves s (snd (and_then (server_receive E clk a h st data s)
      (\<lambda>decrypted s. case decrypted of None \<Rightarrow> (Inr (), s) | Some p \<Rightarrow> server_on_payload E a h p s)))"
    if "lookup_session a h s = Some st" for a st
    by (rule and_then_rel [OF transp_s_evolves evolves_receive [OF that]])
      (simp add: evolves_server_payload [OF assms(1)] split: option.splits)
  show ?thesis
    unfolding server_on_message_def
    using known [of True] known [of False] evolves_hello [OF assms, of h clk data]
    by (cases "lookup_session True h s"; cases "lookup_session False h s") simp_all
qed

lemma server_step_evolves: "server_step s t \<Longrightarrow> s_evolves s t"
  by (erule server_stepE)
    (auto intro: quiet_evolves [OF server_api_quiet] evolves_run evolves_timer evolves_server_open
      evolves_server_close evolves_server_message)

definition server_inv :: "server \<Rightarrow> bool" where
  "server_inv s \<longleftrightarrow> links_ok s \<and> table_inv (s_requests s)"

lemma fresh_server_inv: "fresh_server s \<Longrightarrow> server_inv s"
  using fresh_registry_inv
  by (auto simp: fresh_server_def server_inv_def WsServerWrapper_def links_ok_def sessions_ok_def identities_ok_def
      streams_ok_def lookup_session_def)

lemma server_step_inv: "server_inv s \<Longrightarrow> server_step s t \<Longrightarrow> server_inv t"
  using server_step_evolves [of s t] table_steps_inv [of "s_requests s" "s_requests t"]
  by (auto simp: server_inv_def s_evolves_def)

interpretation server_machine: machine fresh_server server_step server_inv
  by unfold_locales (auto intro: fresh_server_inv server_step_inv)

interpretation server_requests: request_tracker fresh_server server_step s_requests
  by unfold_locales
    (auto simp: fresh_server_def WsServerWrapper_def s_evolves_def dest: server_step_evolves)

end
