(* ===== verification/WsServerProperties.thy ===== *)
theory WsServerProperties
  imports WsServerInvariant
begin

text \<open>
  What a user of \<^verbatim>\<open>WsServerWrapper\<close> can rely on: the sessions it keeps, its futures, closed
  connections, responses, timeouts and the admission of new clients. A sample run with one
  identified and one anonymous client provides the concrete inputs.
\<close>

section \<open>A sample run\<close>

text \<open>An environment whose transport always works and whose callbacks do nothing, and servers with one
  identified and one anonymous client.\<close>

definition idle_server_env :: server_env where
  "idle_server_env =
     \<lparr>se_sodium = model_sodium, se_fl = (\<lambda>x. x), se_transport = (\<lambda>_. None), se_close = (\<lambda>_. None),
      se_endpoint = (\<lambda>_. Inr ''10.0.0.1:5000''), se_open = (\<lambda>_ _ s. (Inr (), s)), se_closed = (\<lambda>_ _ s. (Inr (), s)),
      se_payload = (\<lambda>_ _ _ s. (Inr (), s)), se_request = (\<lambda>_ _ _ s. (Inr \<lparr>op_code = 7, parameters = []\<rparr>, s)),
      se_identity = (\<lambda>_ _ _ s. (Inr True, s)), se_stream = (\<lambda>_ _ s. (Inr (), s)),
      se_stream_data = (\<lambda>_ _ s. (Inr (), s)), se_stream_end = (\<lambda>_ s. (Inr (), s)),
      se_stream_cancel = (\<lambda>_ s. (Inr (), s))\<rparr>"

definition sample_clock :: "nat \<Rightarrow> int" where
  "sample_clock k = 5000000000 + int k"

definition hello_bytes :: "session \<Rightarrow> byte_vector" where
  "hello_bytes c = (case fst (client_initiate_handshake model_sodium 1 c) of
     Inr hello \<Rightarrow> client_hello_serialize hello | Inl e \<Rightarrow> [])"

definition sample_identity :: key_pair where
  "sample_identity = generate_sign_keypair model_sodium 9"

definition sample_server0 :: server where
  "sample_server0 = WsServerWrapper sample_server_key with_defaults"

definition sample_server1 :: server where
  "sample_server1 = snd (server_on_message idle_server_env sample_clock 0 True
     (hello_bytes (snd (set_client_identity_key sample_identity sample_client))) sample_server0)"

definition sample_server2 :: server where
  "sample_server2 = snd (server_on_message idle_server_env sample_clock 1 True (hello_bytes sample_client) sample_server1)"

definition sample_server3 :: server where
  "sample_server3 = snd (server_request_register 1000 0 sample_payload 5 sample_server2)"

lemma server_callbacks_ok_idle: "server_callbacks_ok idle_server_env"
  by (simp add: server_callbacks_ok_def idle_server_env_def model_sodium_ok)

definition sample_view :: "server \<Rightarrow> hdl list \<times> hdl list \<times> (u64 \<times> ip) list \<times> u64 \<times> hdl option \<times> u32 \<times> bool" where
  "sample_view s = (map fst (sessions s), map fst (anon_sessions s), conn_to_ip (s_rate_limiter s),
     next_conn_id (s_rate_limiter s), m_find (identity_to_hdl s) (publicKey sample_identity), s_next_request_id s,
     promises (s_requests s) = [] \<and> pending (s_requests s) = [] \<and> deadlines (s_requests s) = []
     \<and> on_close_callback s = None)"

lemma sample_server1_view:
  "sample_view sample_server1 = ([0], [], [(0, ''10.0.0.1:5000'')], 1, Some 0, 0, True)"
  by code_simp

lemma sample_server2_view:
  "sample_view sample_server2 = ([0], [1], [(0, ''10.0.0.1:5000''), (1, ''10.0.0.1:5000'')], 2, Some 0, 0, True)"
  by code_simp

lemmas sample_maps = sample_server1_view [unfolded sample_view_def] sample_server2_view [unfolded sample_view_def]

lemma sample_server0_fresh: "fresh_server sample_server0"
  by (auto simp: fresh_server_def sample_server0_def)

lemma sample_server1_reachable: "server_step sample_server0 sample_server1"
  unfolding sample_server1_def
  by (rule server_step.on_message) (simp_all add: server_callbacks_ok_idle has_room_def sample_server0_def
      WsServerWrapper_def RateLimiter_def)

lemma sample_server2_reachable: "server_step\<^sup>*\<^sup>* sample_server0 sample_server2"
proof -
  note sample_server1_reachable
  moreover have "server_step sample_server1 sample_server2"
    unfolding sample_server2_def
    by (rule server_step.on_message) (use sample_maps in \<open>simp_all add: server_callbacks_ok_idle has_room_def\<close>)
  ultimately show ?thesis by (meson r_into_rtranclp rtranclp.rtrancl_into_rtrancl)
qed

lemma sample_server3_reachable: "server_step\<^sup>*\<^sup>* sample_server0 sample_server3"
proof -
  have "server_step sample_server2 sample_server3"
    unfolding sample_server3_def
    by (rule server_step.api [of idle_server_env]) (simp_all add: server_api.request_register idle_server_env_def model_sodium_ok)
  with sample_server2_reachable show ?thesis by (rule rtranclp.rtrancl_into_rtrancl)
qed

lemma sample_server3_state:
  "promises (s_requests sample_server3) = [Pending]" "pending (s_requests sample_server3) = [((0, 0), 0)]"
  "deadlines (s_requests sample_server3) = [((0, 0), 5001000)]" "on_close_callback sample_server3 = None"
  using sample_maps
  by (simp_all add: sample_server3_def server_request_register_def with_request_id_eq register_request_def
      empty_table_def resolve_request_timeout_def deadline_at_def Let_def)

section \<open>Lemmas for the properties\<close>

lemma reachable_links: "fresh_server s0 \<Longrightarrow> server_step\<^sup>*\<^sup>* s0 s \<Longrightarrow> links_ok s \<and> table_inv (s_requests s)"
  using server_machine.reachable_inv [of s0 s] by (simp add: server_inv_def)

lemma session_ids:
  assumes ok: "sessions_ok s"
  shows "distinct (map (\<lambda>p. rate_limiter_id (snd p)) (sessions s @ anon_sessions s))"
    and "set (map (\<lambda>p. rate_limiter_id (snd p)) (sessions s @ anon_sessions s)) \<subseteq> fst ` set (conn_to_ip (s_rate_limiter s))"
proof -
  have keys: "keys_ok (sessions s)" "keys_ok (anon_sessions s)" using ok by (simp_all add: sessions_ok_def)
  have look: "lookup_session True (fst p) s = Some (snd p)" if "p \<in> set (sessions s)" for p
    using that keys(1) map_of_is_SomeI [of "sessions s" "fst p" "snd p"] by (simp add: lookup_session_def keys_ok_def)
  have look': "lookup_session False (fst p) s = Some (snd p)" if "p \<in> set (anon_sessions s)" for p
    using that keys(2) map_of_is_SomeI [of "anon_sessions s" "fst p" "snd p"] by (simp add: lookup_session_def keys_ok_def)
  have "inj_on (\<lambda>p. rate_limiter_id (snd p)) (set (sessions s))"
      "inj_on (\<lambda>p. rate_limiter_id (snd p)) (set (anon_sessions s))"
    using sessions_injective [OF ok look look] sessions_injective [OF ok look' look']
      map_of_eq_Some_iff keys unfolding keys_ok_def by (metis (no_types, lifting) inj_onI distinct_map inj_on_def)+
  moreover have "rate_limiter_id (snd p) \<noteq> rate_limiter_id (snd q)" if "p \<in> set (sessions s)" "q \<in> set (anon_sessions s)" for p q
    using sessions_injective [OF ok look look'] that by blast
  moreover have "distinct (sessions s)" "distinct (anon_sessions s)"
    using keys by (simp_all add: keys_ok_def distinct_map)
  ultimately show "distinct (map (\<lambda>p. rate_limiter_id (snd p)) (sessions s @ anon_sessions s))"
    by (auto simp: distinct_map inj_on_Un)
  have "rate_limiter_id st \<in> fst ` set (conn_to_ip (s_rate_limiter s))" if "lookup_session a h s = Some st" for a h st
    using sessions_entry [OF ok that] by (force simp: entry_ok_def dest: map_of_SomeD)
  then show "set (map (\<lambda>p. rate_limiter_id (snd p)) (sessions s @ anon_sessions s)) \<subseteq> fst ` set (conn_to_ip (s_rate_limiter s))"
    using look look' by fastforce
qed

lemma sessions_counted:
  assumes "sessions_ok s"
  shows "length (sessions s) + length (anon_sessions s) \<le> unat (active_total (s_rate_limiter s))"
proof -
  let ?ids = "map (\<lambda>p. rate_limiter_id (snd p)) (sessions s @ anon_sessions s)"
  have "length ?ids \<le> card (fst ` set (conn_to_ip (s_rate_limiter s)))"
    using session_ids [OF assms] by (metis card_mono distinct_card finite_imageI finite_set)
  also have "\<dots> \<le> length (conn_to_ip (s_rate_limiter s))"
    by (metis card_image_le card_length finite_set le_trans)
  finally show ?thesis
    using assms by (simp add: sessions_ok_def registry_inv_def active_total_def)
qed

section \<open>Properties\<close>



text \<open>C23: a future of the server is settled at most once and for good, under every interleaving of
  user threads, callbacks, timer, messages and closed connections; the open futures are exactly
  those filed under one connection and request identifier; no promise is completed twice.\<close>

theorem server_futures_settle_once:
  assumes "fresh_server s0" and "server_step\<^sup>*\<^sup>* s0 s" and "server_step\<^sup>*\<^sup>* s t"
  shows "(\<forall>pid < length (promises (s_requests s)). promises (s_requests s) ! pid \<noteq> Pending \<longrightarrow>
        promises (s_requests t) ! pid = promises (s_requests s) ! pid)
     \<and> (\<forall>pid < length (promises (s_requests s)). promises (s_requests s) ! pid = Pending \<longleftrightarrow>
          (\<exists>!k. m_find (pending (s_requests s)) k = Some pid))
     \<and> fst (complete_request k p (s_requests s)) \<noteq> Inl e \<and> fst (abort_request k e' (s_requests s)) \<noteq> Inl e
     \<and> fst (fail_where P e' (s_requests s)) \<noteq> Inl e \<and> fst (expire now (s_requests s)) \<noteq> Inl e"
proof -
  have inv: "table_inv (s_requests s)"
    using server_requests.reachable_table [OF assms(1,2)] .
  have "promises (s_requests s) ! pid = Pending \<longleftrightarrow> (\<exists>!k. m_find (pending (s_requests s)) k = Some pid)"
    if "pid < length (promises (s_requests s))" for pid
    using server_requests.open_futures_tracked [OF assms(1,2) that] pending_injective [OF inv] by blast
  then show ?thesis
    using server_requests.future_stable [OF assms] server_requests.never_twice [OF assms(1,2), of k p e e' P now]
    by (simp add: settled_stays_def)
qed

theorem server_futures_settle_once_witness:
  "promises (s_requests sample_server3) ! 0 = Pending
   \<and> (\<exists>!k. m_find (pending (s_requests sample_server3)) k = Some 0)"
  using server_futures_settle_once [OF sample_server0_fresh sample_server3_reachable rtranclp.rtrancl_refl]
  by (simp add: sample_server3_state)

lemma unregister_total: "active_total (unregister_connection c ip r) = active_total r - 1"
  by (simp add: unregister_connection_def active_total_def put_ip_def Let_def split: option.splits)

lemma without_connection_total:
  assumes "sessions_ok s"
  shows "active_total (s_rate_limiter (without_connection h s)) = active_total (s_rate_limiter s)
     - (if lookup_session True h s = None \<and> lookup_session False h s = None then 0 else 1)"
proof -
  have drop: "active_total (s_rate_limiter (drop_session a h s)) = active_total (s_rate_limiter s)
      - (if lookup_session a h s = None then 0 else 1)" for a s
    by (auto simp: drop_session_def unregister_total Let_def split: option.splits)
  have "lookup_session True h s \<noteq> None \<longrightarrow> lookup_session False h s = None"
    using assms by (simp add: sessions_ok_def)
  then show ?thesis
    using drop [of True s] drop [of False "drop_session True h s"]
    by (auto simp: without_connection_def Let_def)
qed

text \<open>C26: what is left of a connection after \<^verbatim>\<open>on_close\<close>. When the user's callback returns, nothing
  is: no session, stream, identity, pending request, deadline or handshake time of the connection,
  and one connection less is counted if it had a session. Its open futures fail with the
  disconnection; the sessions and the requests of all other connections are untouched. When the
  callback throws, the exception is passed on and nothing is cleaned up.\<close>

theorem server_close_forgets:
  assumes "fresh_server s0" and "server_step\<^sup>*\<^sup>* s0 s0'" and "server_callbacks_ok E"
    and "call_if (on_close_callback s0') (\<lambda>n. se_closed E n h) s0' = (r, s)"
  shows "case r of
      Inl e \<Rightarrow> server_on_close E h s0' = (Inl e, s)
    | Inr _ \<Rightarrow> \<exists>t. server_on_close E h s0' = (Inr (), t)
        \<and> (\<forall>a k. lookup_session a k t = (if k = h then None else lookup_session a k s))
        \<and> (\<forall>sid. m_find (per_connection_streams t) (h, sid) = None) \<and> m_find (hdl_to_identity t) h = None
        \<and> (\<forall>pk. m_find (identity_to_hdl t) pk \<noteq> Some h) \<and> m_find (handshake_open_time t) h = None
        \<and> active_total (s_rate_limiter t) = active_total (s_rate_limiter s)
            - (if lookup_session True h s = None \<and> lookup_session False h s = None then 0 else 1)
        \<and> (\<forall>k rid. m_find (pending (s_requests t)) (k, rid) =
             (if k = h then None else m_find (pending (s_requests s)) (k, rid)))
        \<and> (\<forall>k rid. m_find (deadlines (s_requests t)) (k, rid) =
             (if k = h then None else m_find (deadlines (s_requests s)) (k, rid)))
        \<and> (\<forall>k rid pid. m_find (pending (s_requests s)) (k, rid) = Some pid \<longrightarrow>
             promises (s_requests t) ! pid = (if k = h then Failed (RuntimeError ''Client disconnected'') else Pending))"
proof (cases r)
  case (Inl e)
  then show ?thesis using assms(4) by (simp add: server_on_close_def)
next
  case (Inr u)
  have "quiet s0' s"
    using server_callbacks_quiet(2) [OF assms(3)] assms(4) by (auto simp: call_if_def split: option.splits) (metis snd_conv)
  then have ok: "links_ok s" "table_inv (s_requests s)"
    using reachable_links [OF assms(1,2)] table_steps_inv [of "s_requests s0'" "s_requests s"]
    by (auto simp: quiet_def s_evolves_def)
  obtain t where t: "fail_where (\<lambda>(h', rid). h' = h) (RuntimeError ''Client disconnected'') (s_requests s) = (Inr (), t)"
      "\<And>k. m_find (pending t) k = (if (case k of (h', rid) \<Rightarrow> h' = h) then None else m_find (pending (s_requests s)) k)"
      "\<And>k. m_find (deadlines t) k = (if (case k of (h', rid) \<Rightarrow> h' = h) then None else m_find (deadlines (s_requests s)) k)"
      "\<And>k pid. m_find (pending (s_requests s)) k = Some pid \<Longrightarrow> promises t ! pid =
         (if (case k of (h', rid) \<Rightarrow> h' = h) then Failed (RuntimeError ''Client disconnected'') else Pending)"
    using fail_where_effect [OF ok(2), of "\<lambda>(h', rid). h' = h" "RuntimeError ''Client disconnected''"] by auto
  let ?w = "without_connection h s"
  let ?t = "?w\<lparr>s_requests := t, handshake_open_time := m_erase h (handshake_open_time s)\<rparr>"
  have run: "server_on_close E h s0' = (Inr (), ?t)"
    using assms(4) Inr t(1) by (simp add: server_on_close_def server_cleanup_eq)
  have look: "lookup_session a k ?t = (if k = h then None else lookup_session a k s)" for a k
    using lookup_sessions_only [of ?t ?w] by simp
  have none: "m_find (hdl_to_identity ?w) h = None" "m_find (per_connection_streams ?w) (h, sid) = None" for sid
    by (simp_all add: without_connection_def Let_def map_of_filter_streams)
  have "identities_ok ?w" using without_connection_ok [OF ok(1)] by (simp add: links_ok_def)
  then have "m_find (identity_to_hdl ?w) pk \<noteq> Some h" for pk
    using none(1) unfolding identities_ok_def by fastforce
  moreover have "active_total (s_rate_limiter ?w) = active_total (s_rate_limiter s)
     - (if lookup_session True h s = None \<and> lookup_session False h s = None then 0 else 1)"
    using ok(1) by (intro without_connection_total) (simp add: links_ok_def)
  ultimately show ?thesis
    using run look none t(2-4) unfolding Inr sum.case by (intro exI [of _ ?t]) auto
qed

theorem server_close_forgets_witness:
  "\<exists>t. server_on_close idle_server_env 0 sample_server3 = (Inr (), t) \<and> lookup_session True 0 t = None
     \<and> promises (s_requests t) ! 0 = Failed (RuntimeError ''Client disconnected'')"
  using server_close_forgets [OF sample_server0_fresh sample_server3_reachable server_callbacks_ok_idle,
      of 0 "Inr ()" sample_server3]
  by (auto simp: sample_server3_state call_if_def)

text \<open>C34: a response counts only for the connection it arrives on. It completes exactly the promise of
  that connection's request with that identifier, if there is one, and changes nothing else; a
  client cannot answer a request made to another.\<close>

theorem server_response_isolated:
  assumes "fresh_server s0" and "server_step\<^sup>*\<^sup>* s0 s" and "length (parameters q) \<le> 65533"
  shows "\<exists>p. response_payload op rid q = Inr p \<and> server_on_response h p s =
     (Inr (), case m_find (pending (s_requests s)) (h, rid) of
        None \<Rightarrow> s
      | Some pid \<Rightarrow> s\<lparr>s_requests := (s_requests s)
          \<lparr>promises := (promises (s_requests s))[pid := Value q],
           pending := m_erase (h, rid) (pending (s_requests s))\<rparr>\<rparr>)
     \<and> (\<forall>h' rid' pid. h' \<noteq> h \<longrightarrow> m_find (pending (s_requests s)) (h', rid') = Some pid \<longrightarrow>
          promises (s_requests (snd (server_on_response h p s))) ! pid = Pending)"
proof -
  have inv: "table_inv (s_requests s)"
    using server_requests.reachable_table [OF assms(1,2)] .
  let ?p = "framed_params op [P_uint32 rid, P_bytes (payload_serialize q)]"
  have run: "server_on_response h ?p s = (Inr (), case m_find (pending (s_requests s)) (h, rid) of
      None \<Rightarrow> s | Some pid \<Rightarrow> s\<lparr>s_requests := settle (h, rid) pid (Value q) (s_requests s)\<rparr>)"
    using parse_response_framed [OF assms(3), of op rid]
    by (auto simp: server_on_response_def complete_request_eq [OF inv] split: option.splits)
  have others: "promises (s_requests (snd (server_on_response h ?p s))) ! pid = Pending"
    if "h' \<noteq> h" "m_find (pending (s_requests s)) (h', rid') = Some pid" for h' rid' pid
  proof -
    have "promises (s_requests s) ! pid = Pending"
      using pending_waiting [OF inv that(2)] by (simp add: waiting_def)
    moreover have "m_find (pending (s_requests s)) (h, rid) \<noteq> Some pid"
      using pending_injective [OF inv that(2)] that(1) by blast
    ultimately show ?thesis
      by (auto simp: run settle_def nth_list_update split: option.splits)
  qed
  then show ?thesis
    using run assms(3) by (auto simp: response_payload_eq settle_def split: option.splits)
qed

theorem server_response_isolated_witness:
  "\<exists>p. response_payload 0xFFFF 0 sample_payload = Inr p
     \<and> promises (s_requests (snd (server_on_response 0 p sample_server3))) = [Value sample_payload]
     \<and> promises (s_requests (snd (server_on_response 1 p sample_server3))) = [Pending]"
proof -
  have len: "length (parameters sample_payload) \<le> 65533" by (simp add: sample_payload_def)
  show ?thesis
    using server_response_isolated [OF sample_server0_fresh sample_server3_reachable len, where op = "0xFFFF" and rid = 0 and h = 0]
      server_response_isolated [OF sample_server0_fresh sample_server3_reachable len, where op = "0xFFFF" and rid = 0 and h = 1]
    by (auto simp: sample_server3_state)
qed

lemma close_all_closes:
  assumes "\<And>n. se_close E n = None"
  shows "s_closed (close_all E reason hs s) = s_closed s @ map (\<lambda>h. (h, reason)) hs"
  using assms by (induction hs arbitrary: s) (simp_all add: server_close_def)

lemma close_all_sessions:
  "lookup_session a h (close_all E reason hs s) = lookup_session a h s"
  by (rule lookup_sessions_only) simp_all

text \<open>The connections and handshakes a check finds overdue, and the server after closing them.\<close>

definition idle_found :: "int \<Rightarrow> server \<Rightarrow> hdl list" where
  "idle_found now s = (if 0 < idle_ms (timeouts (s_config s)) then idle_connections now s else [])"

definition late_found :: "int \<Rightarrow> server \<Rightarrow> hdl list" where
  "late_found now s = (if 0 < handshake_ms (timeouts (s_config s))
     then map fst (filter (\<lambda>(h, opened). handshake_overdue s now opened) (handshake_open_time s)) else [])"

lemma set_idle_found:
  assumes "keys_ok (sessions s)" and "keys_ok (anon_sessions s)"
  shows "set (idle_found now s) = {h. 0 < idle_ms (timeouts (s_config s)) \<and> (\<exists>a st. lookup_session a h s = Some st
      \<and> 0 < last_activity_ms st \<and> int (unat (idle_ms (timeouts (s_config s)))) < now - last_activity_ms st)}"
proof -
  have mem: "(h, st) \<in> set (sessions s) \<longleftrightarrow> lookup_session True h s = Some st"
      "(h, st) \<in> set (anon_sessions s) \<longleftrightarrow> lookup_session False h s = Some st" for h st
    using assms by (simp_all add: lookup_session_def keys_ok_def)
  have "h \<in> fst ` {x \<in> set m. case x of (h, st) \<Rightarrow> P st} \<longleftrightarrow> (\<exists>st. (h, st) \<in> set m \<and> P st)"
    for h and m :: "(hdl, connection_state) amap" and P
    by force
  then have "h \<in> set (idle_connections now s) \<longleftrightarrow> (\<exists>a st. lookup_session a h s = Some st \<and> is_idle s now st)" for h
    by (simp add: idle_connections_def ex_bool_eq mem disj_commute)
  then show ?thesis by (auto simp: idle_found_def is_idle_def)
qed

lemma set_late_found:
  "set (late_found now s) = {h. 0 < handshake_ms (timeouts (s_config s))
     \<and> (\<exists>opened. (h, opened) \<in> set (handshake_open_time s)
         \<and> int (unat (handshake_ms (timeouts (s_config s)))) < now - opened)}"
  by (force simp: late_found_def handshake_overdue_def)

lemma overdue_closed:
  assumes "\<And>n. se_close E n = None" and u: "u = check_handshakes E now (check_idle E now s)"
  shows "s_requests u = s_requests s" and "lookup_session a h u = lookup_session a h s"
    and "s_closed u = s_closed s @ map (\<lambda>h. (h, ''Idle timeout'')) (idle_found now s)
           @ map (\<lambda>h. (h, ''Handshake timeout'')) (late_found now s)"
    and "set (handshake_open_time u) = {(h, opened) \<in> set (handshake_open_time s).
      handshake_ms (timeouts (s_config s)) = 0 \<or> now - opened \<le> int (unat (handshake_ms (timeouts (s_config s))))}"
proof -
  have over: "handshake_overdue (close_all E r hs s) = handshake_overdue s" for r hs
    by (intro ext) (simp add: handshake_overdue_def)
  show "s_requests u = s_requests s"
      "s_closed u = s_closed s @ map (\<lambda>h. (h, ''Idle timeout'')) (idle_found now s)
           @ map (\<lambda>h. (h, ''Handshake timeout'')) (late_found now s)"
    by (simp_all add: u check_handshakes_def check_idle_def close_all_closes [OF assms(1)] over idle_found_def late_found_def)
  show "lookup_session a h u = lookup_session a h s"
    by (rule lookup_sessions_only) (simp_all add: u check_handshakes_def check_idle_def)
  show "set (handshake_open_time u) = {(h, opened) \<in> set (handshake_open_time s).
      handshake_ms (timeouts (s_config s)) = 0 \<or> now - opened \<le> int (unat (handshake_ms (timeouts (s_config s))))}"
    by (auto simp: u check_handshakes_def check_idle_def over handshake_overdue_def word_gt_0)
qed



lemma lookup_close [simp]: "lookup_session a h (snd (server_close E k reason s)) = lookup_session a h s"
  by (rule lookup_sessions_only) (simp_all add: server_close_def split: option.splits)

lemma lookup_enter:
  assumes "lookup_session b h s = None"
  shows "lookup_session a h (enter_session clk b h ip sess s) =
     (if a = b then Some \<lparr>cs_session = sess, rate_limiter_id = next_conn_id (s_rate_limiter s), remote_ip = ip,
                         last_activity_ms = ms (clk 2)\<rparr>
      else lookup_session a h s)"
proof -
  let ?s = "s\<lparr>s_rate_limiter := snd (register_connection ip (s_rate_limiter s))\<rparr>"
  have "lookup_session c h ?s = lookup_session c h s" for c
    by (rule lookup_sessions_only) simp_all
  moreover have "fst (register_connection ip (s_rate_limiter s)) = next_conn_id (s_rate_limiter s)"
    by (simp add: register_connection_def Let_def put_ip_def)
  ultimately show ?thesis
    using assms by (auto simp: enter_session_def emplace_session_def split: prod.splits)
qed

text \<open>What \<^verbatim>\<open>on_message\<close> files after a handshake: the session that answered, as identified only with an
  identity the handler accepted.\<close>

lemma finish_hello_files:
  assumes cb: "server_callbacks_ok E" and free: "\<And>b. lookup_session b h s = None"
    and filed: "lookup_session a h (snd (server_finish_hello E clk h ip ident sess s)) = Some st"
  shows "cs_session st = sess \<and> remote_ip st = ip \<and> a = (ident \<and> peer_identity sess \<noteq> None)
     \<and> (a \<longrightarrow> (\<forall>n pk. client_identity_handler s = Some n \<longrightarrow> peer_identity sess = Some pk \<longrightarrow>
          fst (se_identity E n h pk s) = Inr True))"
proof -
  have erase: "lookup_session a h (snd (and_then x (\<lambda>_ s. (Inr (), s\<lparr>handshake_open_time := m_erase h (handshake_open_time s)\<rparr>))))
      = lookup_session a h (snd x)" for x :: "unit result \<times> server"
    by (cases x; cases "fst x") (auto intro: lookup_sessions_only)
  show ?thesis
  proof (cases "if ident then peer_identity sess else None")
    case None
    then have "lookup_session a h (enter_session clk False h ip sess s) = Some st"
      using filed unfolding server_finish_hello_def erase get_peer_identity_def by simp
    then show ?thesis
      using None free by (auto simp: lookup_enter split: if_splits)
  next
    case (Some pk)
    let ?x = "case client_identity_handler s of Some n \<Rightarrow> se_identity E n h pk s | None \<Rightarrow> (Inr True, s)"
    have q: "quiet s (snd ?x)"
      using server_callbacks_quiet(5) [OF cb] by (auto split: option.splits)
    obtain r t where x: "?x = (r, t)" by fastforce
    have t: "lookup_session b h t = None" for b
      using q x free by (simp add: quiet_def)
    have put: "lookup_session a h ((enter_session clk True h ip sess t)\<lparr>identity_to_hdl := m, hdl_to_identity := m'\<rparr>)
        = lookup_session a h (enter_session clk True h ip sess t)" for m m'
      by (rule lookup_sessions_only) simp_all
    have "r = Inr True \<and> lookup_session a h (enter_session clk True h ip sess t) = Some st"
      using filed t put unfolding server_finish_hello_def erase get_peer_identity_def Some option.case x
      by (auto simp: Let_def and_then_def split: sum.splits if_splits)
    then show ?thesis
      using Some x t by (auto simp: lookup_enter split: if_splits option.splits)
  qed
qed

lemma hello_reply_version:
  "server_hello_reply E h ch s = (Inr sess, t) \<Longrightarrow>
     negotiate (supported_versions ch) (cfg_supported_versions (s_config s)) = sess_selected_version sess
     \<and> sess_selected_version sess \<noteq> None \<and> client_identity_handler t = client_identity_handler s"
  by (auto simp: server_hello_reply_def server_respond_to_handshake_def Session_def server_transport_def and_then_def
      Let_def split: prod.splits sum.splits option.splits if_splits)

lemma on_hello_body:
  "lookup_session a h (snd (server_on_hello E clk h data s)) =
     (let ip = get_remote_ip E h; lim = rl_enabled (rate_limit (s_config s));
          c = (if lim then check_handshake_rate (ms (clk 0)) ip (s_rate_limiter s) else (True, s_rate_limiter s));
          u = s\<lparr>s_rate_limiter := snd c\<rparr>
      in if \<not> fst c then lookup_session a h u
         else case client_hello_deserialize data of
                Inl e \<Rightarrow> lookup_session a h u
              | Inr ch \<Rightarrow> lookup_session a h (snd (and_then (server_hello_reply E h ch u) (\<lambda>sess t.
                  server_finish_hello E clk h ip (has_client_identity ch) sess
                    (if lim then t\<lparr>s_rate_limiter := record_handshake (ms (clk 1)) ip (s_rate_limiter t)\<rparr> else t)))))"
proof -
  have catch: "lookup_session a h (snd (catch_std x (server_close E k r))) = lookup_session a h (snd x)"
    for x :: "unit result \<times> server" and k r
    by (cases x; cases "fst x") auto
  show ?thesis
    unfolding server_on_hello_def catch Let_def case_prod_beta by (simp split: sum.splits)
qed

text \<open>C22: the server takes up a connection only after a full handshake. When a message on a connection
  without a session leaves one behind, then the message was a ClientHello that passed the handshake
  rate, the two sides have a version in common and the session selected it, and the session is
  filed with the connection's address; it is filed as identified exactly when the hello carries an
  identity, whose signature over the hello's ephemeral key then verifies and which the identity
  handler, if there is one, accepted.\<close>

theorem server_admits_verified:
  assumes "server_callbacks_ok E" and "lookup_session True h s = None" and "lookup_session False h s = None"
    and "lookup_session a h (snd (server_on_message E clk h binary data s)) = Some st"
  shows "binary \<and> (\<exists>ch. client_hello_deserialize data = Inr ch \<and> a = has_client_identity ch
       \<and> negotiate (supported_versions ch) (cfg_supported_versions (s_config s)) = sess_selected_version (cs_session st)
       \<and> sess_selected_version (cs_session st) \<noteq> None \<and> remote_ip st = get_remote_ip E h
       \<and> (a \<longrightarrow> peer_identity (cs_session st) = Some (identity_pk ch)
           \<and> verify (se_sodium E) (identity_sig ch) (pk_data (ephemeral_pk ch)) (identity_pk ch)
           \<and> (\<forall>n. client_identity_handler s = Some n \<longrightarrow> (\<exists>t. fst (se_identity E n h (identity_pk ch) t) = Inr True))))
     \<and> (rl_enabled (rate_limit (s_config s)) \<longrightarrow>
          fst (check_handshake_rate (ms (clk 0)) (get_remote_ip E h) (s_rate_limiter s)))"
proof -
  let ?ip = "get_remote_ip E h" and ?lim = "rl_enabled (rate_limit (s_config s))"
  define c where "c = (if ?lim then check_handshake_rate (ms (clk 0)) ?ip (s_rate_limiter s) else (True, s_rate_limiter s))"
  define u where "u = s\<lparr>s_rate_limiter := snd c\<rparr>"
  have free_s: "lookup_session b h s = None" for b using assms(2,3) by (cases b) simp_all
  have free: "lookup_session b h u = None" for b
    using lookup_sessions_only [of u s b h] free_s by (simp add: u_def)
  have bin: "binary" and hello: "lookup_session a h (snd (server_on_hello E clk h data s)) = Some st"
    using assms by (auto simp: server_on_message_def free_s split: if_splits)
  have ok: "fst c"
    using hello free unfolding on_hello_body Let_def c_def [symmetric] u_def [symmetric] by (cases "fst c") auto
  have "\<exists>ch. client_hello_deserialize data = Inr ch"
    using hello free ok unfolding on_hello_body Let_def c_def [symmetric] u_def [symmetric]
    by (cases "client_hello_deserialize data") auto
  then obtain ch where ch: "client_hello_deserialize data = Inr ch" by blast
  define finish where "finish = (\<lambda>sess t. server_finish_hello E clk h ?ip (has_client_identity ch) sess
      (if ?lim then t\<lparr>s_rate_limiter := record_handshake (ms (clk 1)) ?ip (s_rate_limiter t)\<rparr> else t))"
  have body: "lookup_session a h (snd (and_then (server_hello_reply E h ch u) finish)) = Some st"
    using hello ok unfolding on_hello_body Let_def c_def [symmetric] u_def [symmetric] ch sum.case finish_def by simp
  obtain r t where reply: "server_hello_reply E h ch u = (r, t)" by fastforce
  have free_t: "lookup_session b h t = None" for b
    using quiet_hello_reply [of u E h ch] reply free by (simp add: quiet_def)
  obtain sess where r: "r = Inr sess"
    using body reply free_t by (cases r) (auto simp: and_then_def)
  let ?t = "if ?lim then t\<lparr>s_rate_limiter := record_handshake (ms (clk 1)) ?ip (s_rate_limiter t)\<rparr> else t"
  have free': "lookup_session b h ?t = None" for b
    using lookup_sessions_only [of ?t t b h] free_t by simp
  have files: "cs_session st = sess \<and> remote_ip st = ?ip \<and> a = (has_client_identity ch \<and> peer_identity sess \<noteq> None)
     \<and> (a \<longrightarrow> (\<forall>n pk. client_identity_handler ?t = Some n \<longrightarrow> peer_identity sess = Some pk \<longrightarrow>
          fst (se_identity E n h pk ?t) = Inr True))"
    using finish_hello_files [OF assms(1) free', of a clk ?ip "has_client_identity ch" sess st] body reply r
    by (simp add: finish_def)
  have handler: "client_identity_handler ?t = client_identity_handler s" "s_config u = s_config s"
    using hello_reply_version [OF reply [unfolded r]] by (simp_all add: u_def)
  show ?thesis
    using bin ch ok files handler hello_reply_version [OF reply [unfolded r]]
      server_hello_reply_session [OF server_callbacks_quiet(10) [OF assms(1)] reply [unfolded r]]
    by (auto simp: c_def split: if_splits)
qed

theorem server_admits_verified_witness:
  "\<exists>ch. client_hello_deserialize (hello_bytes (snd (set_client_identity_key sample_identity sample_client))) = Inr ch
     \<and> verify model_sodium (identity_sig ch) (pk_data (ephemeral_pk ch)) (identity_pk ch)"
proof -
  have "m_find (sessions sample_server1) 0 \<noteq> None"
    using sample_maps by (simp add: map_of_eq_None_iff) (metis list.set_intros(1) set_map)
  then obtain st where "lookup_session True 0 sample_server1 = Some st"
    by (auto simp: lookup_session_def)
  moreover have "lookup_session b 0 sample_server0 = None" for b
    by (simp add: sample_server0_def WsServerWrapper_def lookup_session_def)
  moreover have "se_sodium idle_server_env = model_sodium" by (simp add: idle_server_env_def)
  ultimately show ?thesis
    using server_admits_verified [OF server_callbacks_ok_idle, of 0 sample_server0 True sample_clock True
        "hello_bytes (snd (set_client_identity_key sample_identity sample_client))" st, folded sample_server1_def]
    by auto
qed

text \<open>Two connections opened one after the other and then shaking hands, on a server that allows one.\<close>

definition one_connection_config :: config where
  "one_connection_config = with_defaults\<lparr>connection_limits := (connection_limits with_defaults)
     \<lparr>cl_enabled := True, max_total := 1\<rparr>\<rparr>"

definition crowded_server :: server where
  "crowded_server =
     (let s = WsServerWrapper sample_server_key one_connection_config;
          s = snd (server_on_open idle_server_env sample_clock 0 s);
          s = snd (server_on_open idle_server_env sample_clock 1 s);
          s = snd (server_on_message idle_server_env sample_clock 0 True (hello_bytes sample_client) s)
      in snd (server_on_message idle_server_env sample_clock 1 True (hello_bytes sample_client) s))"

definition limit_view :: "server \<Rightarrow> bool \<times> u32 \<times> u32 \<times> hdl list \<times> (hdl \<times> string) list" where
  "limit_view s = (cl_enabled (connection_limits (s_config s)), max_total (connection_limits (s_config s)),
     active_total (s_rate_limiter s), map fst (anon_sessions s), s_closed s)"

text \<open>\<^verbatim>\<open>max_total\<close> does not bound the number of connections. The limit is compared when a
  connection opens, but a connection is counted only when its handshake completes: two clients that
  open before either shakes hands are both served by a server with a limit of one, and neither is
  closed.\<close>

theorem max_total_overshoot:
  "limit_view crowded_server = (True, 1, 2, [0, 1], [])"
  by code_simp

end
