(* ===== verification/EndToEnd.thy ===== *)
theory EndToEnd
  imports WsClient WsServerProperties
begin

text \<open>
  The two wrappers together: what a client sends, the server receives, and back. The connection is
  the transport's: a frame one side hands to it is the message the other side gets.
\<close>

section \<open>A client and its session on the server\<close>

text \<open>The session the server uses for a message on a connection.\<close>

definition session_of :: "hdl \<Rightarrow> server \<Rightarrow> (bool \<times> connection_state) option" where
  "session_of h s =
     (case lookup_session True h s of
        Some st \<Rightarrow> Some (True, st)
      | None \<Rightarrow> map_option (Pair False) (lookup_session False h s))"

text \<open>Two sessions in step: each can decrypt what the other encrypts next.\<close>

definition in_step :: "session \<Rightarrow> session \<Rightarrow> bool" where
  "in_step a b \<longleftrightarrow> linked a b \<and> linked b a
     \<and> recv_counter b \<le> send_counter a \<and> recv_counter a \<le> send_counter b"

definition counters_left :: "session \<Rightarrow> bool" where
  "counters_left a \<longleftrightarrow> unat (send_counter a) + 1 < 2 ^ 64"

lemma in_step_sym: "in_step a b \<Longrightarrow> in_step b a"
  by (simp add: in_step_def)

lemma in_step_passes:
  assumes "sodium_ok S" and "in_step a b" and "counters_left a"
  shows "\<exists>pkt. encrypt_payload S rnd p a = (Inr pkt, a\<lparr>send_counter := send_counter a + 1\<rparr>)
     \<and> decrypt_packet S pkt b = (Inr p, b\<lparr>recv_counter := send_counter a + 1\<rparr>)
     \<and> in_step (a\<lparr>send_counter := send_counter a + 1\<rparr>) (b\<lparr>recv_counter := send_counter a + 1\<rparr>)"
proof -
  obtain pkt where "encrypt_payload S rnd p a = (Inr pkt, a\<lparr>send_counter := send_counter a + 1\<rparr>)"
    "decrypt_packet S pkt b = (Inr p, b\<lparr>recv_counter := send_counter a + 1\<rparr>)"
    using linked_round_trip [of S a b rnd p] assms by (auto simp: in_step_def counters_left_def)
  then show ?thesis using assms(2) by (auto simp: in_step_def linked_def)
qed

lemma in_step_complete: "in_step a b \<Longrightarrow> handshake_complete a \<and> handshake_complete b"
  by (simp add: in_step_def linked_def)

lemma session_of_cong:
  "sessions t = sessions s \<Longrightarrow> anon_sessions t = anon_sessions s \<Longrightarrow> session_of h t = session_of h s"
  by (simp add: session_of_def lookup_session_def split: option.split)

text \<open>Apart from the sessions, the rate limiter and the transport, two states of a server agree.\<close>

definition undisturbed :: "server \<Rightarrow> server \<Rightarrow> bool" where
  "undisturbed s t \<longleftrightarrow>
     t\<lparr>sessions := sessions s, anon_sessions := anon_sessions s, s_rate_limiter := s_rate_limiter s,
       s_draws := s_draws s, s_net_calls := s_net_calls s, s_sent := s_sent s\<rparr> = s"

lemma undisturbed_trans: "undisturbed s t \<Longrightarrow> undisturbed t u \<Longrightarrow> undisturbed s u"
  by (cases s; cases t; cases u) (simp add: undisturbed_def)

lemma undisturbed_fields:
  assumes "undisturbed s t"
  shows "s_config t = s_config s" "s_requests t = s_requests s" "s_next_request_id t = s_next_request_id s"
    "s_streams t = s_streams s" "per_connection_streams t = per_connection_streams s"
    "s_request_handlers t = s_request_handlers s" "anon_request_handlers t = anon_request_handlers s"
    "s_op_code_handlers t = s_op_code_handlers s" "anon_op_code_handlers t = anon_op_code_handlers s"
    "s_default_payload_handler t = s_default_payload_handler s"
    "anon_default_payload_handler t = anon_default_payload_handler s"
    "identity_to_hdl t = identity_to_hdl s" "hdl_to_identity t = hdl_to_identity s"
  by (subst assms [unfolded undisturbed_def, symmetric], simp)+

section \<open>From client to server\<close>

lemma client_send_passes:
  assumes "sodium_ok (ce_sodium E)" and "in_step (c_session c) b" and "counters_left (c_session c)"
    and "is_connected c" and "\<not> too_large (c_config c) p" and "ce_transport E (c_net_calls c) = None"
  shows "\<exists>pkt d. client_send E p c = (Inr (), d) \<and> c_sent d = c_sent c @ [pkt]
     \<and> c_session d = (c_session c)\<lparr>send_counter := send_counter (c_session c) + 1\<rparr>
     \<and> decrypt_packet (ce_sodium E) pkt b = (Inr p, b\<lparr>recv_counter := send_counter (c_session c) + 1\<rparr>)
     \<and> in_step (c_session d) (b\<lparr>recv_counter := send_counter (c_session c) + 1\<rparr>)"
proof -
  obtain pkt where "encrypt_payload (ce_sodium E) (c_draws c) p (c_session c)
        = (Inr pkt, (c_session c)\<lparr>send_counter := send_counter (c_session c) + 1\<rparr>)"
      "decrypt_packet (ce_sodium E) pkt b = (Inr p, b\<lparr>recv_counter := send_counter (c_session c) + 1\<rparr>)"
      "in_step ((c_session c)\<lparr>send_counter := send_counter (c_session c) + 1\<rparr>)
         (b\<lparr>recv_counter := send_counter (c_session c) + 1\<rparr>)"
    using in_step_passes [OF assms(1-3)] by blast
  then show ?thesis
    using assms(4-6) in_step_complete [OF assms(2)]
    by (auto simp: client_send_unfold is_handshake_complete_def)
qed

lemma client_request_passes:
  assumes "sodium_ok (ce_sodium E)" and step: "in_step (c_session c) b" and "counters_left (c_session c)"
    and "is_connected c" and "with_request_id (c_next_request_id c) p = Inr q" and "\<not> too_large (c_config c) q"
    and "ce_transport E (c_net_calls c) = None" and "table_inv (c_requests c)"
  shows "\<exists>pkt d. client_async_request E now p tmo c = (Inr (length (promises (c_requests c))), d)
     \<and> c_sent d = c_sent c @ [pkt] \<and> c_config d = c_config c \<and> is_connected d \<and> table_inv (c_requests d)
     \<and> m_find (pending (c_requests d)) (c_next_request_id c) = Some (length (promises (c_requests c)))
     \<and> decrypt_packet (ce_sodium E) pkt b = (Inr q, b\<lparr>recv_counter := send_counter (c_session c) + 1\<rparr>)
     \<and> in_step (c_session d) (b\<lparr>recv_counter := send_counter (c_session c) + 1\<rparr>)
     \<and> send_counter (c_session d) = send_counter (c_session c) + 1
     \<and> length (promises (c_requests d)) = Suc (length (promises (c_requests c)))
     \<and> settled_stays (c_requests c) (c_requests d)"
proof -
  let ?n = "length (promises (c_requests c))" and ?rid = "c_next_request_id c"
  have beg: "c_net_calls (snd (async_request_begin now p tmo c)) = c_net_calls c"
      "c_sent (snd (async_request_begin now p tmo c)) = c_sent c"
    by (simp_all add: async_request_begin_def ensure_watchdog_def Let_def split: sum.splits prod.splits)
  obtain d dl where d: "async_request_begin now p tmo c = (Inr (?rid, ?n, q), d)"
      "c_requests d = snd (register_request ?rid dl (c_requests c))"
      "is_connected d" "c_session d = c_session c" "c_config d = c_config c"
    using request_begin_ready [of c now p tmo] assms(4,5) in_step_complete [OF step] by auto
  have tab: "table_inv (c_requests d)" "m_find (pending (c_requests d)) ?rid = Some ?n"
      "length (promises (c_requests d)) = Suc ?n" "settled_stays (c_requests c) (c_requests d)"
    using register_request_inv [OF assms(8)] register_request_new [of ?rid dl "c_requests c"] d(2) by simp_all
  obtain pkt d' where "client_send E q d = (Inr (), d')" "c_sent d' = c_sent d @ [pkt]"
      "decrypt_packet (ce_sodium E) pkt b = (Inr q, b\<lparr>recv_counter := send_counter (c_session c) + 1\<rparr>)"
      "in_step (c_session d') (b\<lparr>recv_counter := send_counter (c_session c) + 1\<rparr>)"
      "send_counter (c_session d') = send_counter (c_session c) + 1"
    using client_send_passes [of E d b q] assms d beg by auto
  then show ?thesis
    using client_send_fields [of E q d] d beg tab
    by (auto simp: client_async_request_def async_request_send_def)
qed

lemma server_receives:
  assumes "lookup_session auth h s = Some st" and "handshake_complete (cs_session st)"
    and "decrypt_packet (se_sodium E) pkt (cs_session st) = (Inr p, sess)" and "\<not> too_large (s_config s) p"
    and "rl_enabled (rate_limit (s_config s)) \<longrightarrow>
      fst (check_message_rate (se_fl E) (us (clk 0)) (rate_limiter_id st) (s_rate_limiter s))"
  shows "\<exists>t. server_receive E clk auth h st pkt s = (Inr (Some p), t)
     \<and> (\<exists>st'. lookup_session auth h t = Some st' \<and> cs_session st' = sess)
     \<and> (\<forall>a k. (a, k) \<noteq> (auth, h) \<longrightarrow> lookup_session a k t = lookup_session a k s)
     \<and> s_config t = s_config s \<and> s_sent t = s_sent s \<and> s_net_calls t = s_net_calls s
     \<and> s_request_handlers t = s_request_handlers s \<and> anon_request_handlers t = anon_request_handlers s
     \<and> s_streams t = s_streams s \<and> s_stream_handlers t = s_stream_handlers s
     \<and> anon_stream_handlers t = anon_stream_handlers s \<and> s_incoming_stream_handler t = s_incoming_stream_handler s
     \<and> undisturbed s t"
  using assms
  by (cases auth; cases "rl_enabled (rate_limit (s_config s))")
    (auto simp: server_receive_def is_handshake_complete_def put_session_def lookup_session_def undisturbed_def Let_def
      split: prod.splits)

section \<open>From server to client\<close>

lemma server_responds:
  assumes "sodium_ok (se_sodium E)" and look: "session_of h s = Some (auth, st)"
    and step: "in_step (cs_session st) a" and "counters_left (cs_session st)"
    and "se_transport E (s_net_calls s) = None" and "length (parameters q) \<le> 65533"
  shows "\<exists>pkt t. server_send_response E auth h rid q s = (Inr (), t) \<and> s_sent t = s_sent s @ [(h, pkt)]
     \<and> decrypt_packet (se_sodium E) pkt a
         = (Inr (framed_params (RESPONSE (opcodes (s_config s))) [P_uint32 rid, P_bytes (payload_serialize q)]),
            a\<lparr>recv_counter := send_counter (cs_session st) + 1\<rparr>)
     \<and> undisturbed s t
     \<and> (\<exists>st'. session_of h t = Some (auth, st') \<and> in_step (cs_session st') (a\<lparr>recv_counter := send_counter (cs_session st) + 1\<rparr>)
          \<and> send_counter (cs_session st') = send_counter (cs_session st) + 1)"
proof -
  let ?p = "framed_params (RESPONSE (opcodes (s_config s))) [P_uint32 rid, P_bytes (payload_serialize q)]"
  obtain pkt where pkt: "encrypt_payload (se_sodium E) (s_draws s) ?p (cs_session st)
        = (Inr pkt, (cs_session st)\<lparr>send_counter := send_counter (cs_session st) + 1\<rparr>)"
      "decrypt_packet (se_sodium E) pkt a = (Inr ?p, a\<lparr>recv_counter := send_counter (cs_session st) + 1\<rparr>)"
      "in_step ((cs_session st)\<lparr>send_counter := send_counter (cs_session st) + 1\<rparr>)
         (a\<lparr>recv_counter := send_counter (cs_session st) + 1\<rparr>)"
    using in_step_passes [OF assms(1) step assms(4)] by blast
  have complete: "handshake_complete (cs_session st)" using in_step_complete [OF step] by simp
  then have "ready_session h s = Some (auth, st)" if auth
    using look that by (auto simp: session_of_def ready_session_def lookup_session_def is_handshake_complete_def split: option.splits)
  moreover have "ready_anon h s = Some st" if "\<not> auth"
    using look that complete by (auto simp: session_of_def ready_anon_def lookup_session_def is_handshake_complete_def split: option.splits)
  moreover have "m_find (sessions s) h = None" if "\<not> auth"
    using look that by (auto simp: session_of_def lookup_session_def split: option.splits)
  ultimately show ?thesis
    using assms(5,6) pkt
    by (cases auth) (auto simp: server_send_response_def wire_simps server_send_def send_anonymous_def server_encrypt_def
      server_transport_def put_session_def session_of_def lookup_session_def undisturbed_def split: option.splits)
qed

lemma client_receives_response:
  assumes "decrypt_packet (ce_sodium E) pkt (c_session c)
       = (Inr (framed_params (RESPONSE (opcodes (c_config c))) [P_uint32 rid, P_bytes (payload_serialize q)]), sess)"
    and "handshake_complete (c_session c)" and "length (parameters q) \<le> 65533"
    and "\<not> too_large (c_config c) (framed_params (RESPONSE (opcodes (c_config c))) [P_uint32 rid, P_bytes (payload_serialize q)])"
    and "table_inv (c_requests c)" and "m_find (pending (c_requests c)) rid = Some pid"
  shows "client_on_message E True pkt c =
     (Inr (), c\<lparr>c_session := sess, c_requests := settle rid pid (Value q) (c_requests c)\<rparr>)"
proof -
  have "op_code (framed_params x ys) = x" for x ys by (simp add: framed_params_def)
  then show ?thesis
    using assms parse_response_framed [OF assms(3)]
    by (simp add: client_on_message_def is_handshake_complete_def client_on_payload_def client_on_response_def
        complete_request_eq [OF assms(5)])
qed

section \<open>Request and response\<close>

text \<open>A server callback that answers a request with these parameters by this payload, leaving the server
  alone.\<close>

definition answers :: "server_env \<Rightarrow> nat \<Rightarrow> hdl \<Rightarrow> byte_vector \<Rightarrow> payload \<Rightarrow> bool" where
  "answers E n h ps resp \<longleftrightarrow>
     (\<forall>r s. drop (offset r) (params_data r) = ps \<longrightarrow> se_request E n h r s = (Inr resp, s))"

lemma server_answers:
  assumes "sodium_ok (se_sodium E)" and look: "session_of h s = Some (auth, st)" and step: "in_step a (cs_session st)"
    and dec: "decrypt_packet (se_sodium E) pkt (cs_session st) = (Inr q, sess)"
    and sess: "in_step a' sess" "counters_left sess"
    and q: "with_request_id rid p = Inr q" "\<not> too_large (s_config s) q"
    and plain: "op_code p \<noteq> RESPONSE (opcodes (s_config s))" "\<not> is_stream_op (opcodes (s_config s)) (op_code p)"
    and rate: "rl_enabled (rate_limit (s_config s)) \<longrightarrow>
      fst (check_message_rate (se_fl E) (us (clk 0)) (rate_limiter_id st) (s_rate_limiter s))"
    and handler: "m_find (if auth then s_request_handlers s else anon_request_handlers s) (op_code p) = Some (Some n)"
      "answers E n h (parameters p) resp" "length (parameters resp) \<le> 65533"
    and net: "se_transport E (s_net_calls s) = None"
  shows "\<exists>pkt' t st'. server_on_message E clk h True pkt s = (Inr (), t) \<and> s_sent t = s_sent s @ [(h, pkt')]
     \<and> decrypt_packet (se_sodium E) pkt' a'
         = (Inr (framed_params (RESPONSE (opcodes (s_config s)))
                   [P_uint32 rid, P_bytes (payload_serialize resp)]),
            a'\<lparr>recv_counter := send_counter sess + 1\<rparr>)
     \<and> session_of h t = Some (auth, st') \<and> in_step (a'\<lparr>recv_counter := send_counter sess + 1\<rparr>) (cs_session st')
     \<and> send_counter (cs_session st') = send_counter sess + 1 \<and> undisturbed s t"
proof -
  have lk: "lookup_session auth h s = Some st"
    using look by (auto simp: session_of_def split: option.splits)
  obtain t st1 where t: "server_receive E clk auth h st pkt s = (Inr (Some q), t)"
      "lookup_session auth h t = Some st1" "cs_session st1 = sess"
      "\<And>a k. (a, k) \<noteq> (auth, h) \<Longrightarrow> lookup_session a k t = lookup_session a k s"
      "s_config t = s_config s" "s_sent t = s_sent s" "s_net_calls t = s_net_calls s"
      "s_request_handlers t = s_request_handlers s" "anon_request_handlers t = anon_request_handlers s"
      "undisturbed s t"
    using server_receives [where clk = clk, OF lk _ dec q(2) rate] in_step_complete [OF step] by blast
  have look1: "session_of h t = Some (auth, st1)"
    using t(2) t(4) [of True h] look by (cases auth) (auto simp: session_of_def split: option.splits)
  obtain r where r: "op_code q = op_code p" "read_param_uint32 (PayloadReader q) = (Inr rid, r)"
      "drop (offset r) (params_data r) = parameters p"
    using with_request_id_read [OF q(1)] by auto
  obtain pkt' u st2 where u: "server_send_response E auth h rid resp t = (Inr (), u)" "s_sent u = s_sent s @ [(h, pkt')]"
      "decrypt_packet (se_sodium E) pkt' a' = (Inr (framed_params (RESPONSE (opcodes (s_config s)))
          [P_uint32 rid, P_bytes (payload_serialize resp)]), a'\<lparr>recv_counter := send_counter sess + 1\<rparr>)"
      "session_of h u = Some (auth, st2)" "in_step (a'\<lparr>recv_counter := send_counter sess + 1\<rparr>) (cs_session st2)"
      "send_counter (cs_session st2) = send_counter sess + 1" "undisturbed t u"
    using server_responds [OF assms(1) look1 _ _ _ handler(3), of a' rid] in_step_sym sess t(3,5-7) net by fastforce
  have "server_dispatch_payload E auth h q t = (Inr (), u)"
    using handler(1,2) r u(1) t(8,9) by (cases auth) (simp_all add: server_dispatch_payload_def select_handler_def answers_def)
  then have "server_on_payload E auth h q t = (Inr (), u)"
    using plain r(1) t(5) by (simp add: server_on_payload_def)
  then have "server_on_message E clk h True pkt s = (Inr (), u)"
    using look t(1) unfolding server_on_message_def session_of_def by simp
  moreover have "undisturbed s u" using t(10) u(7) by (rule undisturbed_trans)
  ultimately show ?thesis using u by blast
qed

text \<open>A request and its answer, through the event handlers of both sides.\<close>

lemma request_answered:
  assumes inv: "table_inv (c_requests c)"
    and sodium: "sodium_ok (ce_sodium CE)" "se_sodium SE = ce_sodium CE"
    and look: "session_of h s = Some (auth, st)" and conn: "is_connected c" and step: "in_step (c_session c) (cs_session st)"
    and left: "counters_left (c_session c)" "counters_left (cs_session st)"
    and net: "ce_transport CE (c_net_calls c) = None" "se_transport SE (s_net_calls s) = None"
    and q: "with_request_id (c_next_request_id c) p = Inr q" "\<not> too_large (c_config c) q" "\<not> too_large (s_config s) q"
    and op: "op_code p \<noteq> RESPONSE (opcodes (s_config s))" "\<not> is_stream_op (opcodes (s_config s)) (op_code p)"
      "RESPONSE (opcodes (c_config c)) = RESPONSE (opcodes (s_config s))"
    and rate: "rl_enabled (rate_limit (s_config s)) \<longrightarrow>
      fst (check_message_rate (se_fl SE) (us (clk 0)) (rate_limiter_id st) (s_rate_limiter s))"
    and handler: "m_find (if auth then s_request_handlers s else anon_request_handlers s) (op_code p) = Some (Some n)"
      "answers SE n h (parameters p) resp"
    and small: "length (parameters resp) \<le> 65533"
      "\<And>b. response_payload (RESPONSE (opcodes (c_config c))) (c_next_request_id c) resp = Inr b \<Longrightarrow>
         \<not> too_large (c_config c) b"
  shows "\<exists>pid c1 f1 s1 f2 c2 st2.
     client_async_request CE now p tmo c = (Inr pid, c1) \<and> c_sent c1 = c_sent c @ [f1]
     \<and> pid < length (promises (c_requests c1)) \<and> promises (c_requests c1) ! pid = Pending
     \<and> server_on_message SE clk h True f1 s = (Inr (), s1) \<and> s_sent s1 = s_sent s @ [(h, f2)]
     \<and> client_on_message CE True f2 c1 = (Inr (), c2)
     \<and> promises (c_requests c2) = (promises (c_requests c1))[pid := Value resp]
     \<and> session_of h s1 = Some (auth, st2) \<and> in_step (c_session c2) (cs_session st2)
     \<and> table_inv (c_requests c2) \<and> c_config c2 = c_config c \<and> is_connected c2 \<and> undisturbed s s1
     \<and> pid = length (promises (c_requests c)) \<and> length (promises (c_requests c2)) = Suc pid
     \<and> settled_stays (c_requests c) (c_requests c2)
     \<and> send_counter (c_session c2) = send_counter (c_session c) + 1
     \<and> send_counter (cs_session st2) = send_counter (cs_session st) + 1"
proof -
  let ?n = "length (promises (c_requests c))" and ?rid = "c_next_request_id c"
  let ?sess = "(cs_session st)\<lparr>recv_counter := send_counter (c_session c) + 1\<rparr>"
  obtain f1 c1 where c1: "client_async_request CE now p tmo c = (Inr ?n, c1)" "c_sent c1 = c_sent c @ [f1]"
      "c_config c1 = c_config c" "is_connected c1" "table_inv (c_requests c1)"
      "m_find (pending (c_requests c1)) ?rid = Some ?n"
      "decrypt_packet (ce_sodium CE) f1 (cs_session st) = (Inr q, ?sess)" "in_step (c_session c1) ?sess"
      "send_counter (c_session c1) = send_counter (c_session c) + 1"
      "length (promises (c_requests c1)) = Suc ?n" "settled_stays (c_requests c) (c_requests c1)"
    using client_request_passes [OF sodium(1) step left(1) conn q(1,2) net(1) inv] by blast
  have left': "counters_left ?sess" using left(2) by (simp add: counters_left_def)
  have dec: "decrypt_packet (se_sodium SE) f1 (cs_session st) = (Inr q, ?sess)" using c1(7) sodium(2) by simp
  have ok: "sodium_ok (se_sodium SE)" using sodium by simp
  obtain f2 s1 st2 where s1: "server_on_message SE clk h True f1 s = (Inr (), s1)" "s_sent s1 = s_sent s @ [(h, f2)]"
      "decrypt_packet (se_sodium SE) f2 (c_session c1)
         = (Inr (framed_params (RESPONSE (opcodes (s_config s))) [P_uint32 ?rid, P_bytes (payload_serialize resp)]),
            (c_session c1)\<lparr>recv_counter := send_counter ?sess + 1\<rparr>)"
      "session_of h s1 = Some (auth, st2)"
      "in_step ((c_session c1)\<lparr>recv_counter := send_counter ?sess + 1\<rparr>) (cs_session st2)"
      "send_counter (cs_session st2) = send_counter ?sess + 1" "undisturbed s s1"
    using server_answers [where clk = clk, OF ok look step dec c1(8) left' q(1,3) op(1,2) rate handler small(1) net(2)] by blast
  have "client_on_message CE True f2 c1 = (Inr (), c1\<lparr>c_session := (c_session c1)\<lparr>recv_counter := send_counter ?sess + 1\<rparr>,
      c_requests := settle ?rid ?n (Value resp) (c_requests c1)\<rparr>)"
    by (rule client_receives_response)
      (use s1(3) sodium(2) op(3) c1(3,5,6,8) in_step_complete small in \<open>auto simp: response_payload_eq\<close>)
  moreover have "?n < length (promises (c_requests c1)) \<and> promises (c_requests c1) ! ?n = Pending"
    using pending_waiting [OF c1(5,6)] by (simp add: waiting_def)
  moreover have "table_inv (settle ?rid ?n (Value resp) (c_requests c1))"
    using settle_inv [OF c1(5,6)] by simp
  moreover have "settled_stays (c_requests c) (settle ?rid ?n (Value resp) (c_requests c1))"
    using c1(11) settle_settled [OF c1(5,6)] by (rule settled_stays_trans)
  ultimately show ?thesis
    using c1(1-4,9,10) s1(1,2,4-7) by (auto simp: settle_def)
qed

text \<open>What the network does while a client waits: it hands the client's last frame to the server and the server's
  last frame to the client.\<close>

definition round_trip :: "client_env \<Rightarrow> server_env \<Rightarrow> (nat \<Rightarrow> int) \<Rightarrow> hdl \<Rightarrow> server \<Rightarrow> client \<Rightarrow> client" where
  "round_trip CE SE clk h s c =
     snd (client_on_message CE True (snd (last (s_sent (snd (server_on_message SE clk h True (last (c_sent c)) s))))) c)"

text \<open>Requests one after the other: each is made, its frame handed to the server, the server's frame to the
  client. The references of the futures, and the two as they are in the end.\<close>

fun conversation ::
  "client_env \<Rightarrow> server_env \<Rightarrow> (nat \<Rightarrow> int) \<Rightarrow> hdl \<Rightarrow> (int \<times> payload) list \<Rightarrow> client \<Rightarrow> server
     \<Rightarrow> nat list \<times> client \<times> server" where
  "conversation CE SE clk h [] c s = ([], c, s)"
| "conversation CE SE clk h ((now, p) # rs) c s =
     (case client_async_request CE now p 0 c of
        (Inl e, c) \<Rightarrow> ([], c, s)
      | (Inr pid, c) \<Rightarrow>
          let s = snd (server_on_message SE clk h True (last (c_sent c)) s);
              c = snd (client_on_message CE True (snd (last (s_sent s))) c) in
          case conversation CE SE clk h rs c s of (pids, c, s) \<Rightarrow> (pid # pids, c, s))"

text \<open>The server answers this payload by \<open>respond\<close>, within the limits of both sides.\<close>

definition served :: "server_env \<Rightarrow> hdl \<Rightarrow> bool \<Rightarrow> config \<Rightarrow> server \<Rightarrow> (payload \<Rightarrow> payload) \<Rightarrow> payload \<Rightarrow> bool" where
  "served SE h auth cfg s respond p \<longleftrightarrow>
     op_code p \<noteq> RESPONSE (opcodes (s_config s)) \<and> \<not> is_stream_op (opcodes (s_config s)) (op_code p)
     \<and> (\<exists>n. m_find (if auth then s_request_handlers s else anon_request_handlers s) (op_code p) = Some (Some n)
          \<and> answers SE n h (parameters p) (respond p))
     \<and> length (parameters (respond p)) \<le> 65533
     \<and> (\<forall>rid q. with_request_id rid p = Inr q \<longrightarrow> \<not> too_large cfg q \<and> \<not> too_large (s_config s) q)
     \<and> (\<forall>rid b. response_payload (RESPONSE (opcodes cfg)) rid (respond p) = Inr b \<longrightarrow> \<not> too_large cfg b)"

lemma served_undisturbed: "undisturbed s t \<Longrightarrow> served SE h auth cfg t respond p = served SE h auth cfg s respond p"
  using undisturbed_fields [of s t] by (simp add: served_def)

lemma served_answered:
  assumes "table_inv (c_requests c)" and "sodium_ok (ce_sodium CE)" "se_sodium SE = ce_sodium CE"
    and "session_of h s = Some (auth, st)" "is_connected c" "in_step (c_session c) (cs_session st)"
    and "counters_left (c_session c)" "counters_left (cs_session st)"
    and "ce_transport CE (c_net_calls c) = None" "se_transport SE (s_net_calls s) = None"
    and rate: "rl_enabled (rate_limit (s_config s)) \<longrightarrow>
      fst (check_message_rate (se_fl SE) (us (clk 0)) (rate_limiter_id st) (s_rate_limiter s))"
    and "RESPONSE (opcodes (c_config c)) = RESPONSE (opcodes (s_config s))"
    and srv: "served SE h auth (c_config c) s respond p"
  shows "\<exists>c1 f1 s1 f2 c2 st2. let pid = length (promises (c_requests c)) in
     client_async_request CE now p tmo c = (Inr pid, c1) \<and> c_sent c1 = c_sent c @ [f1]
     \<and> server_on_message SE clk h True f1 s = (Inr (), s1) \<and> s_sent s1 = s_sent s @ [(h, f2)]
     \<and> client_on_message CE True f2 c1 = (Inr (), c2) \<and> pid < length (promises (c_requests c1))
     \<and> promises (c_requests c2) = (promises (c_requests c1))[pid := Value (respond p)]
     \<and> session_of h s1 = Some (auth, st2) \<and> in_step (c_session c2) (cs_session st2)
     \<and> table_inv (c_requests c2) \<and> c_config c2 = c_config c \<and> is_connected c2 \<and> undisturbed s s1
     \<and> length (promises (c_requests c2)) = Suc pid \<and> settled_stays (c_requests c) (c_requests c2)
     \<and> send_counter (c_session c2) = send_counter (c_session c) + 1
     \<and> send_counter (cs_session st2) = send_counter (cs_session st) + 1"
proof -
  obtain n where n: "m_find (if auth then s_request_handlers s else anon_request_handlers s) (op_code p) = Some (Some n)"
      "answers SE n h (parameters p) (respond p)"
    using srv by (auto simp: served_def)
  obtain q where q: "with_request_id (c_next_request_id c) p = Inr q" by (simp add: with_request_id_eq)
  have sizes: "\<not> too_large (c_config c) q" "\<not> too_large (s_config s) q"
    and op: "op_code p \<noteq> RESPONSE (opcodes (s_config s))" "\<not> is_stream_op (opcodes (s_config s)) (op_code p)"
    and small: "length (parameters (respond p)) \<le> 65533"
      "\<And>b. response_payload (RESPONSE (opcodes (c_config c))) (c_next_request_id c) (respond p) = Inr b \<Longrightarrow>
         \<not> too_large (c_config c) b"
    using srv q unfolding served_def by blast+
  show ?thesis
    using request_answered [where now = now and tmo = tmo and clk = clk,
        OF assms(1-10) q sizes op assms(12) rate n small] unfolding Let_def by metis
qed

lemma conversation_answered:
  assumes "table_inv (c_requests c)" and sodium: "sodium_ok (ce_sodium CE)" "se_sodium SE = ce_sodium CE"
    and "session_of h s = Some (auth, st)" and "is_connected c" and "in_step (c_session c) (cs_session st)"
    and "unat (send_counter (c_session c)) + length rs < 2 ^ 64" "unat (send_counter (cs_session st)) + length rs < 2 ^ 64"
    and net: "\<And>n. ce_transport CE n = None" "\<And>n. se_transport SE n = None"
    and "RESPONSE (opcodes (c_config c)) = RESPONSE (opcodes (s_config s))" and "\<not> rl_enabled (rate_limit (s_config s))"
    and "list_all (served SE h auth (c_config c) s respond) (map snd rs)"
  shows "\<exists>c' s' st'. conversation CE SE clk h rs c s
       = ([length (promises (c_requests c)) ..< length (promises (c_requests c)) + length rs], c', s')
     \<and> (\<forall>i < length rs. promises (c_requests c') ! (length (promises (c_requests c)) + i) = Value (respond (snd (rs ! i))))
     \<and> settled_stays (c_requests c) (c_requests c')
     \<and> session_of h s' = Some (auth, st') \<and> in_step (c_session c') (cs_session st')"
  using assms
proof (induction rs arbitrary: c s st)
  case (Cons r rs)
  obtain now p where r: "r = (now, p)" by fastforce
  let ?n = "length (promises (c_requests c))"
  have srv: "served SE h auth (c_config c) s respond p" using Cons.prems(13) r by simp
  have left: "counters_left (c_session c)" "counters_left (cs_session st)"
    using Cons.prems(7,8) by (simp_all add: counters_left_def)
  obtain c1 f1 s1 f2 c2 st2 where x: "client_async_request CE now p 0 c = (Inr ?n, c1)" "c_sent c1 = c_sent c @ [f1]"
      "server_on_message SE clk h True f1 s = (Inr (), s1)" "s_sent s1 = s_sent s @ [(h, f2)]"
      "client_on_message CE True f2 c1 = (Inr (), c2)" "?n < length (promises (c_requests c1))"
      "promises (c_requests c2) = (promises (c_requests c1))[?n := Value (respond p)]"
      "session_of h s1 = Some (auth, st2)" "in_step (c_session c2) (cs_session st2)"
      "table_inv (c_requests c2)" "c_config c2 = c_config c" "is_connected c2" "undisturbed s s1"
      "length (promises (c_requests c2)) = Suc ?n" "settled_stays (c_requests c) (c_requests c2)"
      "send_counter (c_session c2) = send_counter (c_session c) + 1"
      "send_counter (cs_session st2) = send_counter (cs_session st) + 1"
    using served_answered [where now = now and tmo = 0 and clk = clk,
        OF Cons.prems(1) sodium Cons.prems(4-6) left net _ Cons.prems(11) srv] Cons.prems(12) unfolding Let_def by metis
  have step: "conversation CE SE clk h (r # rs) c s =
      (case conversation CE SE clk h rs c2 s1 of (pids, c, s) \<Rightarrow> (?n # pids, c, s))"
    using x(1-5) by (simp add: r)
  have suc: "unat (a + 1) + k < 2 ^ 64" if "unat a + Suc k < 2 ^ 64" for a :: u64 and k
    using that unat_add_lem [of a 1] by simp
  obtain c' s' st' where ih: "conversation CE SE clk h rs c2 s1 = ([Suc ?n ..< Suc ?n + length rs], c', s')"
      "\<And>i. i < length rs \<Longrightarrow> promises (c_requests c') ! (Suc ?n + i) = Value (respond (snd (rs ! i)))"
      "settled_stays (c_requests c2) (c_requests c')"
      "session_of h s' = Some (auth, st')" "in_step (c_session c') (cs_session st')"
    using Cons.IH [OF x(10) sodium x(8,12,9) _ _ net] Cons.prems(7,8,11-13) suc x(11,14,16,17) undisturbed_fields(1) [OF x(13)]
      served_undisturbed [OF x(13)] by auto
  have "promises (c_requests c2) ! ?n = Value (respond p)" using x(6,7) by simp
  then have "promises (c_requests c') ! ?n = Value (respond p)"
    using ih(3) x(14) unfolding settled_stays_def by (metis lessI promise_state.distinct(1))
  then have "promises (c_requests c') ! (?n + i) = Value (respond (snd ((r # rs) ! i)))" if "i < length (r # rs)" for i
    using that ih(2) [of "i - 1"] r by (cases i) simp_all
  moreover have "settled_stays (c_requests c) (c_requests c')" using x(15) ih(3) by (rule settled_stays_trans)
  moreover have "?n # [Suc ?n ..< Suc ?n + length rs] = [?n ..< ?n + length (r # rs)]" by (simp add: upt_rec)
  ultimately show ?case using step ih(1,4,5) by auto
qed auto

section \<open>Establishing a connection\<close>

lemma enter_session_sent [simp]:
  "s_sent (enter_session clk b h ip sess s) = s_sent s"
  by (simp add: enter_session_def emplace_session_def put_session_def split: prod.splits)

lemma finish_hello_accepts:
  assumes free: "\<And>b. lookup_session b h s = None" and pk: "ident \<Longrightarrow> peer_identity sess = Some pk"
    and accept: "\<And>n t. ident \<Longrightarrow> client_identity_handler s = Some n \<Longrightarrow> se_identity E n h pk t = (Inr True, t)"
  shows "\<exists>t st. server_finish_hello E clk h ip ident sess s = (Inr (), t) \<and> session_of h t = Some (ident, st)
     \<and> cs_session st = sess \<and> s_sent t = s_sent s \<and> (ident \<longrightarrow> m_find (identity_to_hdl t) pk = Some h)"
proof -
  let ?e = "\<lambda>b. enter_session clk b h ip sess s"
  define t where "t = (if ident then (?e True)\<lparr>identity_to_hdl := m_put pk h (identity_to_hdl (?e True)),
      hdl_to_identity := m_put h pk (hdl_to_identity (?e True))\<rparr> else ?e False)"
  let ?t = "t\<lparr>handshake_open_time := m_erase h (handshake_open_time t)\<rparr>"
  have "server_finish_hello E clk h ip ident sess s = (Inr (), ?t)"
    using pk accept by (auto simp: server_finish_hello_def get_peer_identity_def t_def Let_def split: option.splits)
  moreover have "lookup_session b h ?t = lookup_session b h (?e ident)" for b
    by (rule lookup_sessions_only) (simp_all add: t_def)
  then have "\<exists>st. session_of h ?t = Some (ident, st) \<and> cs_session st = sess"
    using free by (auto simp: session_of_def lookup_enter)
  moreover have "s_sent ?t = s_sent s" "ident \<longrightarrow> m_find (identity_to_hdl ?t) pk = Some h"
    by (simp_all add: t_def)
  ultimately show ?thesis by blast
qed

lemma server_takes_hello:
  assumes free: "\<And>b. lookup_session b h s = None" and ch: "client_hello_deserialize data = Inr ch"
    and resp: "server_respond_to_handshake (se_sodium E) (s_draws s) ch
        (Session SERVER (s_sign_key s) (cfg_supported_versions (s_config s))) = (Inr sh, sess)"
    and pk: "has_client_identity ch \<Longrightarrow> peer_identity sess = Some pk"
    and accept: "\<And>n t. has_client_identity ch \<Longrightarrow> client_identity_handler s = Some n \<Longrightarrow> se_identity E n h pk t = (Inr True, t)"
    and rate: "rl_enabled (rate_limit (s_config s)) \<longrightarrow>
        fst (check_handshake_rate (ms (clk 0)) (get_remote_ip E h) (s_rate_limiter s))"
    and net: "se_transport E (s_net_calls s) = None"
  shows "\<exists>t st. server_on_message E clk h True data s = (Inr (), t) \<and> s_sent t = s_sent s @ [(h, server_hello_serialize sh)]
     \<and> session_of h t = Some (has_client_identity ch, st) \<and> cs_session st = sess
     \<and> (has_client_identity ch \<longrightarrow> m_find (identity_to_hdl t) pk = Some h)"
proof -
  let ?ip = "get_remote_ip E h" and ?lim = "rl_enabled (rate_limit (s_config s))"
  obtain ok r where r: "(if ?lim then check_handshake_rate (ms (clk 0)) ?ip (s_rate_limiter s) else (True, s_rate_limiter s)) = (ok, r)"
    by fastforce
  have ok: "ok" using r rate by (auto split: if_splits)
  let ?u = "s\<lparr>s_rate_limiter := r, s_draws := s_draws s + 1, s_net_calls := s_net_calls s + 1,
      s_sent := s_sent s @ [(h, server_hello_serialize sh)]\<rparr>"
  have reply: "server_hello_reply E h ch (s\<lparr>s_rate_limiter := r\<rparr>) = (Inr sess, ?u)"
    using resp net by (simp add: server_hello_reply_def server_transport_def)
  define v where "v = (if ?lim then ?u\<lparr>s_rate_limiter := record_handshake (ms (clk 1)) ?ip (s_rate_limiter ?u)\<rparr> else ?u)"
  have v: "client_identity_handler v = client_identity_handler s" "s_sent v = s_sent s @ [(h, server_hello_serialize sh)]"
      "sessions v = sessions s" "anon_sessions v = anon_sessions s"
    by (simp_all add: v_def)
  have "lookup_session b h v = None" for b
    using lookup_sessions_only [of v s b h] v(3,4) free by simp
  then obtain t st where t: "server_finish_hello E clk h ?ip (has_client_identity ch) sess v = (Inr (), t)"
      "session_of h t = Some (has_client_identity ch, st)" "cs_session st = sess" "s_sent t = s_sent v"
      "has_client_identity ch \<longrightarrow> m_find (identity_to_hdl t) pk = Some h"
    using finish_hello_accepts [of h v "has_client_identity ch" sess pk E clk ?ip] pk accept v(1) by metis
  have "server_on_hello E clk h data s = (Inr (), t)"
    unfolding server_on_hello_def Let_def r prod.case ch sum.case using ok reply t(1) by (simp add: v_def split: if_splits)
  then have "server_on_message E clk h True data s = (Inr (), t)"
    using free by (simp add: server_on_message_def)
  then show ?thesis using t v(2) by metis
qed

text \<open>The client's part, with the session that \<^verbatim>\<open>on_open\<close> prepares.\<close>

definition opening_session :: "client \<Rightarrow> session" where
  "opening_session c = (case c_identity c of None \<Rightarrow> c_session c | Some kp \<Rightarrow> (c_session c)\<lparr>client_identity_kp := Some kp\<rparr>)"

lemma client_sends_hello:
  assumes "role (c_session c) = CLIENT" and "ce_transport E (c_net_calls c) = None"
    and "client_initiate_handshake (ce_sodium E) (c_draws c) (opening_session c) = (Inr ch, sess)"
  shows "\<exists>d. client_on_open E c = (Inr (), d) \<and> c_sent d = c_sent c @ [client_hello_serialize ch] \<and> c_session d = sess
     \<and> is_connected d \<and> on_ready_callback d = on_ready_callback c"
  using assms
  by (auto simp: client_on_open_def client_initiate_def client_transport_def opening_session_def set_client_identity_key_def
      Let_def split: option.splits)

lemma client_takes_hello:
  assumes "\<not> handshake_complete (c_session c)" and "server_hello_deserialize data = Inr sh"
    and "client_finalize_handshake (ce_sodium E) sh (c_session c) = (Inr (), sess)" and "handshake_complete sess"
  shows "client_on_message E True data c =
     catch_std (call_if (on_ready_callback c) (ce_ready E) (c\<lparr>c_session := sess\<rparr>)) (client_disconnect True)"
  using assms by (simp add: client_on_message_def client_on_server_hello_def is_handshake_complete_def)

text \<open>The handshake, message by message.\<close>

lemma handshake_messages:
  assumes "handshake_over_wire S r1 r2 c s = (Inr (), c', s')"
  obtains ch c1 ch' sh sh' where "client_initiate_handshake S r1 c = (Inr ch, c1)"
    "client_hello_deserialize (client_hello_serialize ch) = Inr ch'"
    "server_respond_to_handshake S r2 ch' s = (Inr sh, s')"
    "server_hello_deserialize (server_hello_serialize sh) = Inr sh'"
    "client_finalize_handshake S sh' c1 = (Inr (), c')"
  using assms by (auto simp: handshake_over_wire_def split: prod.splits sum.splits)

text \<open>The handshake of a client that has just been created and a new session of the server.\<close>

lemma hello_exchange:
  assumes ok: "sodium_ok S" and c: "c_session c = Session CLIENT key vs" "length vs < 65536"
    and ident: "\<And>kp. c_identity c = Some kp \<Longrightarrow> key_pair_ok S kp"
    and keys: "key_pair_ok S k" "publicKey key = publicKey k" and neg: "negotiate vs ws = Some v"
  shows "\<exists>ch c1 ch' sh sh' c' s'.
     client_initiate_handshake S r1 (opening_session c) = (Inr ch, c1) \<and> \<not> handshake_complete c1
     \<and> client_hello_deserialize (client_hello_serialize ch) = Inr ch' \<and> (has_client_identity ch' \<longleftrightarrow> c_identity c \<noteq> None)
     \<and> server_respond_to_handshake S r2 ch' (Session SERVER k ws) = (Inr sh, s')
     \<and> server_hello_deserialize (server_hello_serialize sh) = Inr sh' \<and> client_finalize_handshake S sh' c1 = (Inr (), c')
     \<and> in_step c' s' \<and> counters_left c' \<and> counters_left s'
     \<and> sess_selected_version c' = Some v \<and> sess_selected_version s' = Some v
     \<and> peer_identity s' = map_option publicKey (c_identity c)"
proof -
  let ?c = "opening_session c" and ?s = "Session SERVER k ws"
  have oc: "role ?c = CLIENT" "sess_supported_versions ?c = vs" "client_identity_kp ?c = c_identity c"
      "server_sign_key ?c = key" "send_counter ?c = 0" "recv_counter ?c = 0" "\<not> handshake_complete ?c"
    by (simp_all add: opening_session_def c(1) Session_def split: option.splits)
  have os: "role ?s = SERVER" "sess_supported_versions ?s = ws" "server_sign_key ?s = k"
      "send_counter ?s = 0" "recv_counter ?s = 0" "peer_identity ?s = None"
    by (simp_all add: Session_def)
  obtain c' s' where hs: "handshake_over_wire S r1 r2 ?c ?s = (Inr (), c', s')"
      "linked c' s'" "linked s' c'" "sess_selected_version c' = Some v" "sess_selected_version s' = Some v"
      "send_counter c' = 0" "recv_counter c' = 0" "send_counter s' = 0" "recv_counter s' = 0"
      "peer_identity s' = map_option publicKey (c_identity c)"
    using handshake_agreement [OF ok oc(1) os(1), of v r1 r2] neg c(2) ident keys oc os
    by (auto split: option.splits)
  obtain ch c1 ch' sh sh' where m: "client_initiate_handshake S r1 ?c = (Inr ch, c1)"
      "client_hello_deserialize (client_hello_serialize ch) = Inr ch'" "server_respond_to_handshake S r2 ch' ?s = (Inr sh, s')"
      "server_hello_deserialize (server_hello_serialize sh) = Inr sh'" "client_finalize_handshake S sh' c1 = (Inr (), c')"
    by (rule handshake_messages [OF hs(1)])
  have ch: "client_hello_ok ch" "has_client_identity ch \<longleftrightarrow> c_identity c \<noteq> None" "\<not> handshake_complete c1"
    using client_initiate_ok [OF ok oc(1), of r1] c(2) ident m(1) oc(2,3,7) by auto
  then have "has_client_identity ch' \<longleftrightarrow> c_identity c \<noteq> None"
    using client_hello_codec.dec_enc [OF ch(1)] m(2) by simp
  moreover have "in_step c' s'" "counters_left c'" "counters_left s'"
    using hs by (simp_all add: in_step_def counters_left_def)
  ultimately show ?thesis using m ch(3) hs(4,5,10) by blast
qed

section \<open>Streams\<close>

lemma op_code_framed [simp]: "op_code (framed_params op xs) = op"
  by (simp add: framed_params_def)

lemma snd_and_then_Inr: "snd (and_then x (\<lambda>_ s. (Inr r, s))) = snd x"
  by (cases x; cases "fst x") simp_all

definition announced :: "session \<Rightarrow> OpCode \<Rightarrow> OpCode option" where
  "announced sess op = (if supports_stream_op (get_selected_version sess) then Some op else None)"

abbreviation start_message :: "reserved_opcodes \<Rightarrow> u32 \<Rightarrow> OpCode option \<Rightarrow> payload" where
  "start_message oc sid op \<equiv>
     framed_params (STREAM_START oc) (P_uint32 sid # (case op of None \<Rightarrow> [] | Some code \<Rightarrow> [P_uint16 code]))"

lemma client_stream_passes:
  assumes "sodium_ok (ce_sodium E)" and "in_step (c_session c) b" and "counters_left (c_session c)" and "is_connected c"
    and "ce_transport E (c_net_calls c) = None"
    and sid: "sid = c_next_outgoing_stream_id c * 2" and q: "q = start_message (opcodes (c_config c)) sid (announced (c_session c) op)"
    and "\<not> too_large (c_config c) q"
  shows "\<exists>pkt d. client_start_stream_op E op c = (Inr (length (c_streams c)), d) \<and> c_sent d = c_sent c @ [pkt]
     \<and> find_stream sid d = Some (Stream sid () (Some op))
     \<and> decrypt_packet (ce_sodium E) pkt b = (Inr q, b\<lparr>recv_counter := send_counter (c_session c) + 1\<rparr>)
     \<and> in_step (c_session d) (b\<lparr>recv_counter := send_counter (c_session c) + 1\<rparr>)"
proof -
  let ?c = "c\<lparr>c_next_outgoing_stream_id := c_next_outgoing_stream_id c + 1, c_streams := c_streams c @ [Stream sid () (Some op)],
      active_streams := m_put sid (length (c_streams c)) (active_streams c)\<rparr>"
  obtain pkt d where d: "client_send E q ?c = (Inr (), d)" "c_sent d = c_sent c @ [pkt]"
      "decrypt_packet (ce_sodium E) pkt b = (Inr q, b\<lparr>recv_counter := send_counter (c_session c) + 1\<rparr>)"
      "in_step (c_session d) (b\<lparr>recv_counter := send_counter (c_session c) + 1\<rparr>)"
    using client_send_passes [of E ?c b q] assms by auto
  have "client_start_stream_op E op c = (Inr (length (c_streams c)), d)"
    using d(1) by (simp add: client_start_stream_op_def client_add_stream_def wire_simps announced_def sid q Let_def)
  moreover have "find_stream sid d = Some (Stream sid () (Some op))"
    using client_send_fields(3,4) [of E q ?c] d(1) by (simp add: find_stream_def)
  ultimately show ?thesis using d by blast
qed

lemma server_opens_stream:
  assumes look: "session_of h s = Some (auth, st)" and step: "in_step a (cs_session st)"
    and dec: "decrypt_packet (se_sodium E) pkt (cs_session st) = (Inr q, sess)"
    and q: "q = start_message (opcodes (s_config s)) sid op" and small: "\<not> too_large (s_config s) q"
    and oc: "STREAM_START (opcodes (s_config s)) \<noteq> RESPONSE (opcodes (s_config s))"
    and rate: "rl_enabled (rate_limit (s_config s)) \<longrightarrow>
      fst (check_message_rate (se_fl E) (us (clk 0)) (rate_limiter_id st) (s_rate_limiter s))"
  shows "\<exists>t. server_on_message E clk h True pkt s =
       catch_std (call_if (select_stream_handler (if auth then s_stream_handlers s else anon_stream_handlers s)
           (s_incoming_stream_handler s) op) (\<lambda>n. se_stream E n (length (s_streams s))) t) (\<lambda>s. (Inr (), s))
     \<and> server_find_stream h sid t = Some (Stream sid (h, auth) op)
     \<and> (\<exists>st'. lookup_session auth h t = Some st' \<and> cs_session st' = sess)"
proof -
  have lk: "lookup_session auth h s = Some st"
    using look by (auto simp: session_of_def split: option.splits)
  obtain t st1 where t: "server_receive E clk auth h st pkt s = (Inr (Some q), t)"
      "lookup_session auth h t = Some st1" "cs_session st1 = sess" "s_config t = s_config s" "s_streams t = s_streams s"
      "s_stream_handlers t = s_stream_handlers s" "anon_stream_handlers t = anon_stream_handlers s"
      "s_incoming_stream_handler t = s_incoming_stream_handler s"
    using server_receives [where clk = clk, OF lk _ dec small rate] in_step_complete [OF step] by blast
  let ?t = "snd (server_add_stream h auth sid op t)"
  obtain r where r: "read_param_uint32 (PayloadReader q) = (Inr sid, r)"
      "(if has_more r then map_sum id Some (fst (read_param_uint16 r)) else Inr None) = Inr op"
    using stream_start_read [of "STREAM_START (opcodes (s_config s))" sid op] q by auto
  let ?call = "call_if (select_stream_handler (if auth then s_stream_handlers s else anon_stream_handlers s)
      (s_incoming_stream_handler s) op) (\<lambda>n. se_stream E n (length (s_streams s))) ?t"
  have "server_on_stream_start E auth h sid r t = ?call"
    unfolding server_on_stream_start_def r(2) by (simp add: server_add_stream_def Let_def t(5-8))
  then have "server_on_stream E auth h q t = ?call"
    using r(1) q t(4) by (simp add: server_on_stream_def Let_def)
  then have "server_on_payload E auth h q t = catch_std ?call (\<lambda>s. (Inr (), s))"
    using q oc t(4) by (simp add: server_on_payload_def is_stream_op_def)
  then have "server_on_message E clk h True pkt s = catch_std ?call (\<lambda>s. (Inr (), s))"
    using look t(1) unfolding server_on_message_def session_of_def by simp
  moreover have "server_find_stream h sid ?t = Some (Stream sid (h, auth) op)"
    by (simp add: server_find_stream_def server_add_stream_def Let_def)
  moreover have "lookup_session auth h ?t = Some st1"
    using t(2) by (cases auth) (simp_all add: server_add_stream_def lookup_session_def Let_def)
  ultimately show ?thesis using t(3) by blast
qed

section \<open>Synchronous requests\<close>

abbreviation effective_timeout :: "config \<Rightarrow> u32 \<Rightarrow> u32" where
  "effective_timeout cfg \<equiv> resolve_request_timeout (to_enabled (timeouts cfg)) (request_ms (timeouts cfg))"

fun outcome_or_timeout :: "promise_state \<Rightarrow> payload result" where
  "outcome_or_timeout Pending = Inl (TimeoutError ''Request timed out'')"
| "outcome_or_timeout (Value r) = Inr r"
| "outcome_or_timeout (Failed e) = Inl e"

lemma sync_result_eq: "sync_result t st = (if t = 0 \<and> st = Pending then None else Some (outcome_or_timeout st))"
  by (cases st) (simp_all add: sync_result_def)

lemma client_async_config: "c_config (snd (client_async_request E now p tmo c)) = c_config c"
proof -
  have "c_config (snd (async_request_begin now p tmo c)) = c_config c"
    by (simp add: async_request_begin_def ensure_watchdog_def Let_def split: sum.splits prod.splits)
  moreover have "c_config (snd (async_request_send E rid q d)) = c_config d" for rid q d
    by (auto simp: async_request_send_def split: prod.splits sum.splits) (metis client_send_fields(1) snd_conv)+
  ultimately show ?thesis
    by (auto simp: client_async_request_def and_then_def split: prod.splits sum.splits) (metis snd_conv)+
qed

lemma server_async_config: "s_config (snd (server_async_request E now h p tmo s)) = s_config s"
proof -
  have "s_config (snd (server_request_register now h p tmo s)) = s_config s"
    by (simp add: server_request_register_def Let_def split: sum.splits prod.splits)
  moreover have "s_config (snd (server_request_send E h rid q t)) = s_config t" for rid q t
    using quiet_send [of t E h q] by (auto simp: server_request_send_def quiet_def s_evolves_def split: prod.splits sum.splits)
  ultimately show ?thesis
    by (auto simp: server_async_request_def and_then_def split: prod.splits sum.splits) (metis snd_conv)+
qed

text \<open>Whatever the other threads do while it waits, a synchronous request of the client or of the server comes
  back as soon as an effective timeout is set, with the exception of \<^verbatim>\<open>async_request\<close>, the outcome the
  future then has or a timeout error; without one it returns exactly if the future is settled.\<close>

theorem sync_request_returns:
  "(case client_async_request CE now p tmo c of
        (Inl e, d) \<Rightarrow> client_sync_request CE wait now p tmo c = Some (Inl e, d)
      | (Inr pid, d) \<Rightarrow>
          let st = promises (c_requests (wait d)) ! pid in
          client_sync_request CE wait now p tmo c =
            (if effective_timeout (c_config c) tmo = 0 \<and> st = Pending then None else Some (outcome_or_timeout st, wait d)))
     \<and> (case server_async_request SE now h p tmo s of
        (Inl e, d) \<Rightarrow> server_sync_request SE swait now h p tmo s = Some (Inl e, d)
      | (Inr pid, d) \<Rightarrow>
          let st = promises (s_requests (swait d)) ! pid in
          server_sync_request SE swait now h p tmo s =
            (if effective_timeout (s_config s) tmo = 0 \<and> st = Pending then None else Some (outcome_or_timeout st, swait d)))"
proof -
  obtain r d where c: "client_async_request CE now p tmo c = (r, d)" by fastforce
  obtain r' d' where s: "server_async_request SE now h p tmo s = (r', d')" by fastforce
  have "c_config d = c_config c" "s_config d' = s_config s"
    using client_async_config [of CE now p tmo c] server_async_config [of SE now h p tmo s] c s by simp_all
  then show ?thesis
    by (cases r; cases r') (simp_all add: client_sync_request_def server_sync_request_def sync_result_eq c s Let_def)
qed

section \<open>A server without versions\<close>

lemma negotiate_no_server_versions: "negotiate vs [] = None"
  by (induction vs) simp_all

lemma no_versions_no_session:
  assumes "cfg_supported_versions (s_config s) = []" and "\<And>b. lookup_session b h s = None"
  shows "lookup_session a h (snd (server_on_message E clk h binary data s)) = None"
proof -
  have reply: "\<exists>e t. server_hello_reply E h ch u = (Inl e, t) \<and> (\<forall>b. lookup_session b h t = lookup_session b h u)"
    if "s_config u = s_config s" for ch u
    using that assms(1)
    by (auto simp: server_hello_reply_def server_respond_to_handshake_def Session_def lookup_session_def
        negotiate_no_server_versions Let_def)
  have "lookup_session a h (snd (and_then (server_hello_reply E h ch u) f)) = None"
    if "s_config u = s_config s" "sessions u = sessions s" "anon_sessions u = anon_sessions s" for ch u f
    using reply [OF that(1), of ch] lookup_sessions_only [OF that(2,3)] assms(2) by auto
  moreover have "lookup_session a h (s\<lparr>s_rate_limiter := r\<rparr>) = None" for r
    using lookup_sessions_only [of "s\<lparr>s_rate_limiter := r\<rparr>" s a h] assms(2) by simp
  ultimately have "lookup_session a h (snd (server_on_hello E clk h data s)) = None"
    unfolding on_hello_body Let_def using assms(2) by (auto split: sum.splits)
  then show ?thesis
    using assms(2) by (simp add: server_on_message_def)
qed

section \<open>A sample connection\<close>

text \<open>A server with a handler for anonymous requests, a client that connects to it, and its first
  request.\<close>

lemma linked_code [code]:
  "linked a b \<longleftrightarrow> handshake_complete a \<and> handshake_complete b
     \<and> (case (sess_keys a, sess_keys b) of
          (Some ka, Some kb) \<Rightarrow> tx ka = rx kb \<and> length (tx ka) = crypto_aead_KEYBYTES
        | _ \<Rightarrow> False)"
  by (auto simp: linked_def split: option.splits)

definition unlimited_config :: config where
  "unlimited_config = with_defaults\<lparr>rate_limit := (rate_limit with_defaults)\<lparr>rl_enabled := False\<rparr>\<rparr>"

definition demo_s0 :: server where
  "demo_s0 = register_anon_request_handler 0x1234 (Some 1) (WsServerWrapper sample_server_key unlimited_config)"

definition demo_c1 :: client where
  "demo_c1 = snd (client_on_open idle_env sample_client0)"

definition demo_s1 :: server where
  "demo_s1 = snd (server_on_message idle_server_env sample_clock 0 True (last (c_sent demo_c1)) demo_s0)"

definition demo_c2 :: client where
  "demo_c2 = snd (client_on_message idle_env True (snd (last (s_sent demo_s1))) demo_c1)"

definition demo_view :: "client \<Rightarrow> server \<Rightarrow> bool \<times> u64 \<times> u64 \<times> bool \<times> bool \<times> u32" where
  "demo_view c s = (case session_of 0 s of
     Some (auth, st) \<Rightarrow> (auth, send_counter (c_session c), send_counter (cs_session st),
       in_step (c_session c) (cs_session st), is_connected c, c_next_request_id c)
   | None \<Rightarrow> (True, 0, 0, False, False, 0))"

lemma demo_up: "demo_view demo_c2 demo_s1 = (False, 0, 0, True, True, 0)"
  by code_simp

definition cfg_view :: "client \<Rightarrow> server \<Rightarrow> bool \<times> bool \<times> nat option option" where
  "cfg_view c s = (c_config c = with_defaults, s_config s = unlimited_config, m_find (anon_request_handlers s) 0x1234)"

lemma demo_cfg: "cfg_view demo_c2 demo_s1 = (True, True, Some (Some 1))"
  by code_simp

lemma demo_session:
  "\<exists>st. session_of 0 demo_s1 = Some (False, st) \<and> in_step (c_session demo_c2) (cs_session st)
     \<and> counters_left (c_session demo_c2) \<and> counters_left (cs_session st)"
  using demo_up by (auto simp: demo_view_def counters_left_def split: option.splits prod.splits)

lemma demo_connected: "is_connected demo_c2" "c_next_request_id demo_c2 = 0"
  using demo_up demo_session by (auto simp: demo_view_def)

lemma demo_config: "c_config demo_c2 = with_defaults" "s_config demo_s1 = unlimited_config"
  "m_find (anon_request_handlers demo_s1) 0x1234 = Some (Some 1)"
  using demo_cfg by (simp_all add: cfg_view_def)

lemmas demo_defaults = demo_config unlimited_config_def with_defaults_def Config_def ReservedOpcodes_defaults_def
  MessageLimitConfig_defaults_def RateLimitConfig_defaults_def

lemma demo_served: "served idle_server_env 0 False (c_config demo_c2) demo_s1 (\<lambda>_. \<lparr>op_code = 7, parameters = []\<rparr>) sample_payload"
  by (simp add: served_def demo_defaults too_large_def is_stream_op_def sample_payload_def answers_def idle_server_env_def
      with_request_id_eq response_payload_eq framed_params_def framed_def)

lemma demo_c2_reachable: "client_step\<^sup>*\<^sup>* (WsClientWrapper sample_server_key with_defaults) demo_c2"
proof -
  have "client_step (WsClientWrapper sample_server_key with_defaults) sample_client0"
    unfolding sample_client0_def
    by (rule client_step.api [of idle_env]) (simp_all add: api_step.connect idle_env_def model_sodium_ok)
  also have "client_step\<^sup>*\<^sup>* sample_client0 demo_c2"
    unfolding demo_c2_def demo_c1_def
    by (meson callbacks_ok_idle client_step.on_message client_step.on_open r_into_rtranclp rtranclp.rtrancl_into_rtrancl)
  finally (converse_rtranclp_into_rtranclp) show ?thesis .
qed

end
