(* ===== verification/ServerInitiated.thy ===== *)
theory ServerInitiated
  imports EndToEnd
begin

text \<open>
  The other direction of \<^verbatim>\<open>EndToEnd\<close>: requests that the server makes to a client. A server that
  receives or sends a frame changes nothing but sessions, rate limiter and transport.
\<close>

section \<open>Receiving and sending leave the rest alone\<close>

lemma server_takes:
  assumes look: "session_of h s = Some (auth, st)" and "handshake_complete (cs_session st)"
    and "decrypt_packet (se_sodium E) pkt (cs_session st) = (Inr p, sess)" and "\<not> too_large (s_config s) p"
    and "rl_enabled (rate_limit (s_config s)) \<longrightarrow>
      fst (check_message_rate (se_fl E) (us (clk 0)) (rate_limiter_id st) (s_rate_limiter s))"
  shows "\<exists>t st'. server_on_message E clk h True pkt s = server_on_payload E auth h p t
     \<and> session_of h t = Some (auth, st') \<and> cs_session st' = sess \<and> undisturbed s t \<and> s_sent t = s_sent s
     \<and> s_net_calls t = s_net_calls s"
proof -
  have "lookup_session auth h s = Some st"
    using look by (auto simp: session_of_def split: option.splits)
  then obtain t where t: "server_receive E clk auth h st pkt s = (Inr (Some p), t)"
      "\<exists>st'. lookup_session auth h t = Some st' \<and> cs_session st' = sess"
      "\<And>a k. (a, k) \<noteq> (auth, h) \<Longrightarrow> lookup_session a k t = lookup_session a k s"
      "s_sent t = s_sent s" "s_net_calls t = s_net_calls s"
    using server_receives [of auth h s st E pkt p sess clk] assms(2-5) by blast
  have "undisturbed s t"
    using t(1) assms(2-5)
    by (cases auth; cases "rl_enabled (rate_limit (s_config s))")
      (auto simp: server_receive_def is_handshake_complete_def put_session_def undisturbed_def Let_def split: prod.splits)
  moreover have "\<exists>st'. session_of h t = Some (auth, st') \<and> cs_session st' = sess"
    using t(2) t(3) [of True h] look by (cases auth) (auto simp: session_of_def split: option.splits)
  moreover have "server_on_message E clk h True pkt s = server_on_payload E auth h p t"
    using look t(1) unfolding server_on_message_def session_of_def by simp
  ultimately show ?thesis using t(4,5) by blast
qed

text \<open>A payload sent on a session, of either kind.\<close>

lemma server_send_passes:
  assumes "sodium_ok (se_sodium E)" and look: "session_of h s = Some (auth, st)"
    and step: "in_step (cs_session st) a" and "counters_left (cs_session st)" and "se_transport E (s_net_calls s) = None"
  shows "\<exists>pkt t st'. server_send E h p s = (Inr (), t) \<and> server_stream_send E (h, auth) p s = (Inr (), t)
     \<and> s_sent t = s_sent s @ [(h, pkt)] \<and> undisturbed s t
     \<and> decrypt_packet (se_sodium E) pkt a = (Inr p, a\<lparr>recv_counter := send_counter (cs_session st) + 1\<rparr>)
     \<and> session_of h t = Some (auth, st') \<and> cs_session st' = (cs_session st)\<lparr>send_counter := send_counter (cs_session st) + 1\<rparr>
     \<and> rate_limiter_id st' = rate_limiter_id st \<and> s_rate_limiter t = s_rate_limiter s
     \<and> in_step (cs_session st') (a\<lparr>recv_counter := send_counter (cs_session st) + 1\<rparr>)"
proof -
  let ?sess = "(cs_session st)\<lparr>send_counter := send_counter (cs_session st) + 1\<rparr>"
  obtain pkt where pkt: "encrypt_payload (se_sodium E) (s_draws s) p (cs_session st) = (Inr pkt, ?sess)"
      "decrypt_packet (se_sodium E) pkt a = (Inr p, a\<lparr>recv_counter := send_counter (cs_session st) + 1\<rparr>)"
      "in_step ?sess (a\<lparr>recv_counter := send_counter (cs_session st) + 1\<rparr>)"
    using in_step_passes [OF assms(1) step assms(4)] by blast
  define t where "t = (put_session auth h (st\<lparr>cs_session := ?sess\<rparr>) s)\<lparr>s_draws := s_draws s + 1,
      s_net_calls := s_net_calls s + 1, s_sent := s_sent s @ [(h, pkt)]\<rparr>"
  have sent: "catch_std (and_then (server_encrypt E auth h st p s) (server_transport E h)) (\<lambda>s. (Inr (), s)) = (Inr (), t)"
    using pkt(1) assms(5) by (simp add: server_encrypt_def server_transport_def put_session_def t_def)
  have complete: "handshake_complete (cs_session st)" using in_step_complete [OF step] by simp
  then have ready: "ready_session h s = Some (auth, st)" "\<not> auth \<Longrightarrow> ready_anon h s = Some st"
    using look by (auto simp: session_of_def ready_session_def ready_anon_def lookup_session_def is_handshake_complete_def
        split: option.splits)
  have "server_send E h p s = (Inr (), t)" "server_stream_send E (h, auth) p s = (Inr (), t)"
    using ready sent by (cases auth; simp add: server_send_def server_stream_send_def send_anonymous_def)+
  moreover have "undisturbed s t" "s_sent t = s_sent s @ [(h, pkt)]" "s_rate_limiter t = s_rate_limiter s"
    by (simp_all add: undisturbed_def t_def put_session_def)
  moreover have "session_of h t = Some (auth, st\<lparr>cs_session := ?sess\<rparr>)"
    using look by (auto simp: session_of_def t_def put_session_def lookup_session_def split: option.splits)
  ultimately show ?thesis using pkt by auto
qed

lemma client_takes:
  assumes "handshake_complete (c_session c)" and "decrypt_packet (ce_sodium E) pkt (c_session c) = (Inr p, sess)"
  shows "client_on_message E True pkt c = catch_std (client_on_payload E p (c\<lparr>c_session := sess\<rparr>)) (client_disconnect True)"
  using assms by (simp add: client_on_message_def is_handshake_complete_def)

section \<open>Requests of the server\<close>

lemma server_request_passes:
  assumes "sodium_ok (se_sodium E)" and look: "session_of h s = Some (auth, st)"
    and step: "in_step (cs_session st) a" and "counters_left (cs_session st)" and "se_transport E (s_net_calls s) = None"
    and q: "with_request_id (s_next_request_id s) p = Inr q" and inv: "table_inv (s_requests s)"
  shows "\<exists>pkt t st'. server_async_request E now h p tmo s = (Inr (length (promises (s_requests s))), t)
     \<and> s_sent t = s_sent s @ [(h, pkt)] \<and> s_config t = s_config s \<and> s_rate_limiter t = s_rate_limiter s
     \<and> table_inv (s_requests t)
     \<and> m_find (pending (s_requests t)) (h, s_next_request_id s) = Some (length (promises (s_requests s)))
     \<and> decrypt_packet (se_sodium E) pkt a = (Inr q, a\<lparr>recv_counter := send_counter (cs_session st) + 1\<rparr>)
     \<and> session_of h t = Some (auth, st') \<and> rate_limiter_id st' = rate_limiter_id st
     \<and> in_step (cs_session st') (a\<lparr>recv_counter := send_counter (cs_session st) + 1\<rparr>)"
proof -
  let ?n = "length (promises (s_requests s))" and ?k = "(h, s_next_request_id s)"
  have ready: "ready_session h s \<noteq> None"
    using look in_step_complete [OF step]
    by (auto simp: session_of_def ready_session_def ready_anon_def lookup_session_def is_handshake_complete_def
        split: option.splits)
  define dl where "dl = deadline_at now (effective_timeout (s_config s) tmo)"
  define u where "u = s\<lparr>s_next_request_id := s_next_request_id s + 1,
      s_requests := snd (register_request ?k dl (s_requests s))\<rparr>"
  have reg: "server_request_register now h p tmo s = (Inr (s_next_request_id s, ?n, q), u)"
    using q register_request_new [of ?k dl "s_requests s"]
    by (simp add: server_request_register_def u_def dl_def Let_def case_prod_unfold)
  have u: "session_of h u = Some (auth, st)" "s_net_calls u = s_net_calls s" "s_sent u = s_sent s" "s_config u = s_config s"
      "s_rate_limiter u = s_rate_limiter s"
    using look session_of_cong [of u s h] by (simp_all add: u_def)
  have tab: "table_inv (s_requests u)" "m_find (pending (s_requests u)) ?k = Some ?n"
    using register_request_inv [OF inv] register_request_new [of ?k dl "s_requests s"] by (simp_all add: u_def)
  obtain pkt t st' where t: "server_send E h q u = (Inr (), t)" "s_sent t = s_sent u @ [(h, pkt)]" "undisturbed u t"
      "decrypt_packet (se_sodium E) pkt a = (Inr q, a\<lparr>recv_counter := send_counter (cs_session st) + 1\<rparr>)"
      "session_of h t = Some (auth, st')" "rate_limiter_id st' = rate_limiter_id st" "s_rate_limiter t = s_rate_limiter u"
      "in_step (cs_session st') (a\<lparr>recv_counter := send_counter (cs_session st) + 1\<rparr>)"
    using server_send_passes [OF assms(1) u(1) step assms(4), of q] assms(5) u(2) by auto
  have "server_async_request E now h p tmo s = (Inr ?n, t)"
    using ready reg t(1) by (simp add: server_async_request_def server_request_send_def)
  then show ?thesis
    using t tab u undisturbed_fields(1,2) [OF t(3)] by auto
qed

text \<open>A client callback that answers a request with these parameters by this payload.\<close>

definition client_answers :: "client_env \<Rightarrow> nat \<Rightarrow> byte_vector \<Rightarrow> payload \<Rightarrow> bool" where
  "client_answers E n ps resp \<longleftrightarrow>
     (\<forall>r c. drop (offset r) (params_data r) = ps \<longrightarrow> ce_request E n r c = (Inr resp, c))"

lemma client_serves:
  assumes "sodium_ok (ce_sodium E)" and complete: "handshake_complete (c_session c)"
    and dec: "decrypt_packet (ce_sodium E) pkt (c_session c) = (Inr q, sess)"
    and sess: "in_step sess b" "counters_left sess" and conn: "is_connected c"
    and q: "with_request_id rid p = Inr q" "\<not> too_large (c_config c) q"
    and plain: "op_code p \<noteq> RESPONSE (opcodes (c_config c))" "\<not> is_stream_op (opcodes (c_config c)) (op_code p)"
    and handler: "m_find (c_request_handlers c) (op_code p) = Some (Some n)" "client_answers E n (parameters p) answer"
    and resp: "response_payload (RESPONSE (opcodes (c_config c))) rid answer = Inr resp"
      "\<not> too_large (c_config c) resp"
    and net: "ce_transport E (c_net_calls c) = None"
  shows "\<exists>pkt' d. client_on_message E True pkt c = (Inr (), d) \<and> c_sent d = c_sent c @ [pkt']
     \<and> decrypt_packet (ce_sodium E) pkt' b = (Inr resp, b\<lparr>recv_counter := send_counter sess + 1\<rparr>)
     \<and> in_step (c_session d) (b\<lparr>recv_counter := send_counter sess + 1\<rparr>)"
proof -
  let ?c = "c\<lparr>c_session := sess\<rparr>"
  obtain r where r: "op_code q = op_code p" "read_param_uint32 (PayloadReader q) = (Inr rid, r)"
      "drop (offset r) (params_data r) = parameters p"
    using with_request_id_read [OF q(1)] by auto
  obtain pkt' d where d: "client_send E resp ?c = (Inr (), d)" "c_sent d = c_sent c @ [pkt']"
      "decrypt_packet (ce_sodium E) pkt' b = (Inr resp, b\<lparr>recv_counter := send_counter sess + 1\<rparr>)"
      "in_step (c_session d) (b\<lparr>recv_counter := send_counter sess + 1\<rparr>)"
    using client_send_passes [of E ?c b resp] assms by auto
  have "client_dispatch_payload E q ?c = (Inr (), d)"
    using handler r resp(1) d(1) by (simp add: client_dispatch_payload_def select_handler_def client_answers_def client_send_response_def)
  then have "client_on_payload E q ?c = (Inr (), d)"
    using plain r(1) q(2) by (simp add: client_on_payload_def)
  then show ?thesis using d client_takes [OF complete dec] by simp
qed

lemma server_receives_response:
  assumes look: "session_of h s = Some (auth, st)" and "handshake_complete (cs_session st)"
    and dec: "decrypt_packet (se_sodium E) pkt (cs_session st) = (Inr resp, sess)" and "\<not> too_large (s_config s) resp"
    and "rl_enabled (rate_limit (s_config s)) \<longrightarrow>
      fst (check_message_rate (se_fl E) (us (clk 0)) (rate_limiter_id st) (s_rate_limiter s))"
    and resp: "response_payload (RESPONSE (opcodes (s_config s))) rid q = Inr resp"
    and tab: "table_inv (s_requests s)" "m_find (pending (s_requests s)) (h, rid) = Some pid"
  shows "\<exists>t st'. server_on_message E clk h True pkt s = (Inr (), t)
     \<and> s_requests t = settle (h, rid) pid (Value q) (s_requests s) \<and> s_sent t = s_sent s
     \<and> session_of h t = Some (auth, st') \<and> cs_session st' = sess"
proof -
  obtain t st' where t: "server_on_message E clk h True pkt s = server_on_payload E auth h resp t"
      "session_of h t = Some (auth, st')" "cs_session st' = sess" "undisturbed s t" "s_sent t = s_sent s"
    using server_takes [where clk = clk, OF assms(1-5)] by blast
  have q: "length (parameters q) \<le> 65533"
      "resp = framed_params (RESPONSE (opcodes (s_config s))) [P_uint32 rid, P_bytes (payload_serialize q)]"
    using resp by (simp_all add: response_payload_eq split: if_splits)
  have "server_on_payload E auth h resp t = (Inr (), t\<lparr>s_requests := settle (h, rid) pid (Value q) (s_requests s)\<rparr>)"
    using parse_response_framed [OF q(1)] tab undisturbed_fields(1,2) [OF t(4)]
    by (simp add: server_on_payload_def server_on_response_def q(2) complete_request_eq framed_params_def)
  moreover have "session_of h (t\<lparr>s_requests := y\<rparr>) = Some (auth, st')" for y
    using t(2) session_of_cong [of "t\<lparr>s_requests := y\<rparr>" t h] by simp
  ultimately show ?thesis using t by auto
qed

text \<open>C17: requests of the server are answered end to end as well. Take a server in step with a client, under
  an identity or anonymous. \<^verbatim>\<open>async_request\<close> of the server sends one frame to that client, whose message
  handler answers it with one frame from the handler registered for the opcode, and the server's
  message handler completes the request's future, and no other, with the answer; no further frame is
  sent, and the two are in step again.\<close>

theorem server_request_answered_end_to_end:
  assumes fresh: "fresh_server s0" "server_step\<^sup>*\<^sup>* s0 s"
    and sodium: "sodium_ok (se_sodium SE)" "ce_sodium CE = se_sodium SE"
    and look: "session_of h s = Some (auth, st)" and conn: "is_connected c" and step: "in_step (c_session c) (cs_session st)"
    and left: "counters_left (c_session c)" "counters_left (cs_session st)"
    and net: "ce_transport CE (c_net_calls c) = None" "se_transport SE (s_net_calls s) = None"
    and q: "with_request_id (s_next_request_id s) p = Inr q" "\<not> too_large (c_config c) q"
    and op: "op_code p \<noteq> RESPONSE (opcodes (c_config c))" "\<not> is_stream_op (opcodes (c_config c)) (op_code p)"
      "RESPONSE (opcodes (c_config c)) = RESPONSE (opcodes (s_config s))"
    and rate: "rl_enabled (rate_limit (s_config s)) \<longrightarrow>
      fst (check_message_rate (se_fl SE) (us (clk 0)) (rate_limiter_id st) (s_rate_limiter s))"
    and handler: "m_find (c_request_handlers c) (op_code p) = Some (Some n)" "client_answers CE n (parameters p) answer"
    and resp: "response_payload (RESPONSE (opcodes (s_config s))) (s_next_request_id s) answer = Inr resp"
      "\<not> too_large (c_config c) resp" "\<not> too_large (s_config s) resp"
  shows "\<exists>pid s1 f1 c1 f2 s2 st2.
     server_async_request SE now h p tmo s = (Inr pid, s1) \<and> s_sent s1 = s_sent s @ [(h, f1)]
     \<and> promises (s_requests s1) ! pid = Pending
     \<and> client_on_message CE True f1 c = (Inr (), c1) \<and> c_sent c1 = c_sent c @ [f2]
     \<and> server_on_message SE clk h True f2 s1 = (Inr (), s2) \<and> s_sent s2 = s_sent s1
     \<and> promises (s_requests s2) = (promises (s_requests s1))[pid := Value answer]
     \<and> session_of h s2 = Some (auth, st2) \<and> in_step (c_session c1) (cs_session st2)"
proof -
  let ?n = "length (promises (s_requests s))" and ?rid = "s_next_request_id s"
  let ?sess = "(c_session c)\<lparr>recv_counter := send_counter (cs_session st) + 1\<rparr>"
  have inv: "table_inv (s_requests s)" using server_requests.reachable_table [OF fresh] .
  obtain f1 s1 st1 where s1: "server_async_request SE now h p tmo s = (Inr ?n, s1)" "s_sent s1 = s_sent s @ [(h, f1)]"
      "s_config s1 = s_config s" "s_rate_limiter s1 = s_rate_limiter s" "table_inv (s_requests s1)"
      "m_find (pending (s_requests s1)) (h, ?rid) = Some ?n"
      "decrypt_packet (se_sodium SE) f1 (c_session c) = (Inr q, ?sess)" "session_of h s1 = Some (auth, st1)"
      "rate_limiter_id st1 = rate_limiter_id st" "in_step (cs_session st1) ?sess"
    using server_request_passes [OF sodium(1) look in_step_sym [OF step] left(2) net(2) q(1) inv] by blast
  obtain f2 c1 where c1: "client_on_message CE True f1 c = (Inr (), c1)" "c_sent c1 = c_sent c @ [f2]"
      "decrypt_packet (se_sodium SE) f2 (cs_session st1) = (Inr resp, (cs_session st1)\<lparr>recv_counter := send_counter ?sess + 1\<rparr>)"
      "in_step (c_session c1) ((cs_session st1)\<lparr>recv_counter := send_counter ?sess + 1\<rparr>)"
    using client_serves [OF _ _ _ in_step_sym [OF s1(10)] _ conn q op(1,2) handler, of f1 resp]
      sodium in_step_complete [OF step] left(1) resp(1,2) op(3) net(1) s1(7) by (auto simp: counters_left_def)
  obtain s2 st2 where s2: "server_on_message SE clk h True f2 s1 = (Inr (), s2)" "s_sent s2 = s_sent s1"
      "s_requests s2 = settle (h, ?rid) ?n (Value answer) (s_requests s1)"
      "session_of h s2 = Some (auth, st2)" "cs_session st2 = (cs_session st1)\<lparr>recv_counter := send_counter ?sess + 1\<rparr>"
    using server_receives_response [where clk = clk and rid = ?rid and q = "answer", OF s1(8) _ c1(3) _ _ _ s1(5,6)]
      in_step_complete [OF s1(10)] resp rate s1(3,4,9) by auto
  have "promises (s_requests s1) ! ?n = Pending"
    using pending_waiting [OF s1(5,6)] by (simp add: waiting_def)
  then show ?thesis
    using s1(1,2) c1(1,2,4) s2 by (auto simp: settle_def)
qed

lemma demo_s1_reachable: "server_step\<^sup>*\<^sup>* (WsServerWrapper sample_server_key unlimited_config) demo_s1"
proof -
  have "server_step (WsServerWrapper sample_server_key unlimited_config) demo_s0"
    unfolding demo_s0_def
    by (rule server_step.api [of idle_server_env])
      (auto simp: idle_server_env_def model_sodium_ok intro!: server_api.register [where op = "0x1234" and n = "Some 1"])
  moreover have "server_step demo_s0 demo_s1"
    unfolding demo_s1_def
    by (rule server_step.on_message)
      (simp_all add: server_callbacks_ok_idle has_room_def demo_s0_def register_anon_request_handler_def WsServerWrapper_def RateLimiter_def)
  ultimately show ?thesis by auto
qed

definition demo_c3 :: client where
  "demo_c3 = client_register_request_handler 0x1234 (Some 1) demo_c2"

theorem server_request_answered_end_to_end_witness:
  "\<exists>pid s1 f1 c1 f2 s2.
     server_async_request idle_server_env 0 0 sample_payload 0 demo_s1 = (Inr pid, s1)
     \<and> promises (s_requests s1) ! pid = Pending
     \<and> client_on_message idle_env True f1 demo_c3 = (Inr (), c1) \<and> c_sent c1 = c_sent demo_c3 @ [f2]
     \<and> server_on_message idle_server_env sample_clock 0 True f2 s1 = (Inr (), s2)
     \<and> promises (s_requests s2) = (promises (s_requests s1))[pid := Value \<lparr>op_code = 0, parameters = []\<rparr>]"
proof -
  obtain st where st: "session_of 0 demo_s1 = Some (False, st)" "in_step (c_session demo_c2) (cs_session st)"
      "counters_left (c_session demo_c2)" "counters_left (cs_session st)"
    using demo_session by blast
  have c3: "c_session demo_c3 = c_session demo_c2" "is_connected demo_c3" "c_config demo_c3 = with_defaults"
      "m_find (c_request_handlers demo_c3) 0x1234 = Some (Some 1)"
    using demo_connected demo_config by (simp_all add: demo_c3_def client_register_request_handler_def)
  have "fresh_server (WsServerWrapper sample_server_key unlimited_config)" by (auto simp: fresh_server_def)
  then show ?thesis
    using server_request_answered_end_to_end [OF _ demo_s1_reachable, where CE = idle_env and SE = idle_server_env
        and h = 0 and c = demo_c3 and auth = False and st = st and p = sample_payload and n = 1
        and answer = "\<lparr>op_code = 0, parameters = []\<rparr>" and clk = sample_clock and now = 0 and tmo = 0,
        OF _ _ _ st(1) c3(2) _ _ st(4) _ _ with_request_id_eq] st(2,3)
    by (force simp: demo_defaults c3 idle_env_def idle_server_env_def model_sodium_ok too_large_def is_stream_op_def
        sample_payload_def client_answers_def response_payload_eq framed_params_def framed_def)
qed

end
