(* ===== verification/StreamTransfer.thy ===== *)
theory StreamTransfer
  imports ServerInitiated
begin

text \<open>
  What is written to a stream, from the stream object of one side to the handlers of the stream of
  that identifier on the other side, over the sessions of \<^verbatim>\<open>EndToEnd\<close>; and what becomes of it when
  the opcodes of streams are renamed.
\<close>

section \<open>What is written to a stream\<close>

text \<open>What a stream object is asked to send, the payload that goes out, and what the other side makes of it.\<close>

datatype stream_event = Data byte_vector | End | Cancel

fun stream_emit ::
  "('f \<Rightarrow> payload \<Rightarrow> 's \<Rightarrow> unit result \<times> 's) \<Rightarrow> 'f stream \<Rightarrow> stream_event \<Rightarrow> 's \<Rightarrow> exn option \<times> 's" where
  "stream_emit send st (Data data) s = stream_write send st data s"
| "stream_emit send st End s = stream_end send st s"
| "stream_emit send st Cancel s = stream_cancel send st s"

fun stream_message :: "u32 \<Rightarrow> stream_event \<Rightarrow> payload" where
  "stream_message sid (Data data) = framed_params STREAM_DATA_op [P_uint32 sid, P_bytes data]"
| "stream_message sid End = framed_params STREAM_END_op [P_uint32 sid]"
| "stream_message sid Cancel = framed_params STREAM_CANCEL_op [P_uint32 sid]"

fun event_fits :: "stream_event \<Rightarrow> bool" where
  "event_fits (Data data) \<longleftrightarrow> length data \<le> 65535"
| "event_fits _ \<longleftrightarrow> True"

text \<open>The opcodes that the stream objects use are those the receiver dispatches on.\<close>

definition stream_opcodes_agree :: "reserved_opcodes \<Rightarrow> bool" where
  "stream_opcodes_agree oc \<longleftrightarrow>
     STREAM_DATA oc = STREAM_DATA_op \<and> STREAM_END oc = STREAM_END_op \<and> STREAM_CANCEL oc = STREAM_CANCEL_op
     \<and> RESPONSE oc \<notin> {STREAM_DATA_op, STREAM_END_op, STREAM_CANCEL_op}
     \<and> STREAM_START oc \<notin> {STREAM_DATA_op, STREAM_END_op, STREAM_CANCEL_op}"

lemma stream_emit_sends:
  "event_fits ev \<Longrightarrow> stream_emit send st ev s = swallow (send (send_fn st) (stream_message (stream_id st) ev) s)"
  by (cases ev) (simp_all add: stream_write_sends stream_end_sends)

lemma stream_message_read:
  assumes "event_fits ev"
  shows "\<exists>r. read_param_uint32 (PayloadReader (stream_message sid ev)) = (Inr sid, r)
     \<and> (\<forall>data. ev = Data data \<longrightarrow> fst (read_param_bytes r) = Inr data)"
proof (cases ev)
  case (Data data)
  let ?p = "stream_message sid ev"
  obtain r' where "read_params [T_uint32, T_bytes] (PayloadReader ?p) = (Inr [P_uint32 sid, P_bytes data], r')"
    using framed_params_read [of "[P_uint32 sid, P_bytes data]" STREAM_DATA_op] Data assms by (auto simp: fits_bytes)
  then obtain r where "read_param_uint32 (PayloadReader ?p) = (Inr sid, r)"
      "read_params [T_bytes] r = (Inr [P_bytes data], r')"
    using read_params_uint32 by blast
  then show ?thesis
    using Data by (cases "fst (read_param_bytes r)") (auto simp: map_fst_def split: prod.splits sum.splits)
qed (use framed_params_read [of "[P_uint32 sid]"] read_params_uint32 [of "[]" _ sid "[]"] in fastforce)+

text \<open>The callback that the receiver runs for an event on its stream object; a cancelled stream is taken out of
  the table before.\<close>

fun server_stream_event :: "server_env \<Rightarrow> hdl \<Rightarrow> (hdl \<times> bool) stream \<Rightarrow> stream_event \<Rightarrow> server \<Rightarrow> unit result \<times> server" where
  "server_stream_event E h st (Data data) s = dispatch_data (se_stream_data E) st data s"
| "server_stream_event E h st End s = dispatch_end (se_stream_end E) st s"
| "server_stream_event E h st Cancel s = dispatch_cancel (se_stream_cancel E) st
     (s\<lparr>per_connection_streams := m_erase (h, stream_id st) (per_connection_streams s)\<rparr>)"

fun client_stream_event :: "client_env \<Rightarrow> unit stream \<Rightarrow> stream_event \<Rightarrow> client \<Rightarrow> unit result \<times> client" where
  "client_stream_event E st (Data data) c = dispatch_data (ce_stream_data E) st data c"
| "client_stream_event E st End c = dispatch_end (ce_stream_end E) st c"
| "client_stream_event E st Cancel c = dispatch_cancel (ce_stream_cancel E) st
     (c\<lparr>active_streams := m_erase (stream_id st) (active_streams c)\<rparr>)"

lemmas stream_ops = STREAM_DATA_op_def STREAM_END_op_def STREAM_CANCEL_op_def

lemma server_on_stream_event:
  assumes "event_fits ev" and "stream_opcodes_agree (opcodes (s_config s))" and "server_find_stream h (stream_id st) s = Some st"
  shows "server_on_payload E auth h (stream_message (stream_id st) ev) s = catch_std (server_stream_event E h st ev s) (\<lambda>s. (Inr (), s))"
proof -
  obtain r where r: "read_param_uint32 (PayloadReader (stream_message (stream_id st) ev)) = (Inr (stream_id st), r)"
      "\<And>data. ev = Data data \<Longrightarrow> fst (read_param_bytes r) = Inr data"
    using stream_message_read [OF assms(1)] by blast
  have "server_on_stream E auth h (stream_message (stream_id st) ev) s = server_stream_event E h st ev s"
    using r assms(2,3) by (cases ev) (auto simp: server_on_stream_def stream_opcodes_agree_def framed_params_def stream_ops Let_def)
  moreover have "op_code (stream_message (stream_id st) ev) \<noteq> RESPONSE (opcodes (s_config s))"
      "is_stream_op (opcodes (s_config s)) (op_code (stream_message (stream_id st) ev))"
    using assms(2) by (cases ev; auto simp: stream_opcodes_agree_def framed_params_def is_stream_op_def)+
  ultimately show ?thesis by (simp add: server_on_payload_def)
qed

lemma client_on_stream_event:
  assumes "event_fits ev" and "stream_opcodes_agree (opcodes (c_config c))" and "find_stream (stream_id st) c = Some st"
    and "\<not> too_large (c_config c) (stream_message (stream_id st) ev)"
  shows "client_on_payload E (stream_message (stream_id st) ev) c = client_stream_event E st ev c"
proof -
  obtain r where r: "read_param_uint32 (PayloadReader (stream_message (stream_id st) ev)) = (Inr (stream_id st), r)"
      "\<And>data. ev = Data data \<Longrightarrow> fst (read_param_bytes r) = Inr data"
    using stream_message_read [OF assms(1)] by blast
  have "client_on_stream E (stream_message (stream_id st) ev) c = client_stream_event E st ev c"
    using r assms(2,3) by (cases ev) (auto simp: client_on_stream_def stream_opcodes_agree_def framed_params_def stream_ops Let_def)
  moreover have "op_code (stream_message (stream_id st) ev) \<noteq> RESPONSE (opcodes (c_config c))"
      "is_stream_op (opcodes (c_config c)) (op_code (stream_message (stream_id st) ev))"
    using assms(2) by (cases ev; auto simp: stream_opcodes_agree_def framed_params_def is_stream_op_def)+
  ultimately show ?thesis using assms(4) by (simp add: client_on_payload_def)
qed

lemma client_event_passes:
  assumes "sodium_ok (ce_sodium E)" and "in_step (c_session c) b" and "counters_left (c_session c)" and "is_connected c"
    and "event_fits ev" and "\<not> too_large (c_config c) (stream_message (stream_id cs) ev)" and "ce_transport E (c_net_calls c) = None"
  shows "\<exists>pkt d. stream_emit (\<lambda>_. client_send E) cs ev c = (None, d) \<and> c_sent d = c_sent c @ [pkt]
     \<and> decrypt_packet (ce_sodium E) pkt b
         = (Inr (stream_message (stream_id cs) ev), b\<lparr>recv_counter := send_counter (c_session c) + 1\<rparr>)
     \<and> in_step (c_session d) (b\<lparr>recv_counter := send_counter (c_session c) + 1\<rparr>)"
  using client_send_passes [OF assms(1-4,6,7)] by (auto simp: stream_emit_sends [OF assms(5)] swallow_def)

text \<open>What a client writes to a stream reaches the handler of the server's stream of that identifier, and
  no other. \<^verbatim>\<open>write\<close>, \<^verbatim>\<open>end\<close> and \<^verbatim>\<open>cancel\<close> of the client's stream object log nothing and send one frame;
  the server's message handler does nothing but call the corresponding handler of its stream, with
  exactly the bytes written, after taking a cancelled stream out of its table. This holds as long as
  the server's configuration leaves the opcodes of streams as the library defines them.\<close>

lemma client_stream_reaches_server:
  assumes sodium: "sodium_ok (ce_sodium CE)" "se_sodium SE = ce_sodium CE"
    and look: "session_of h s = Some (auth, st)" and conn: "is_connected c" and step: "in_step (c_session c) (cs_session st)"
    and left: "counters_left (c_session c)" and net: "ce_transport CE (c_net_calls c) = None"
    and ev: "event_fits ev" "\<not> too_large (c_config c) (stream_message (stream_id cs) ev)"
      "\<not> too_large (s_config s) (stream_message (stream_id cs) ev)"
    and oc: "stream_opcodes_agree (opcodes (s_config s))"
    and ss: "server_find_stream h (stream_id cs) s = Some ss" "stream_id ss = stream_id cs"
    and rate: "rl_enabled (rate_limit (s_config s)) \<longrightarrow>
      fst (check_message_rate (se_fl SE) (us (clk 0)) (rate_limiter_id st) (s_rate_limiter s))"
  shows "\<exists>c1 f t st'.
     stream_emit (\<lambda>_. client_send CE) cs ev c = (None, c1) \<and> c_sent c1 = c_sent c @ [f]
     \<and> server_on_message SE clk h True f s = catch_std (server_stream_event SE h ss ev t) (\<lambda>s. (Inr (), s))
     \<and> undisturbed s t \<and> s_sent t = s_sent s
     \<and> session_of h t = Some (auth, st') \<and> in_step (c_session c1) (cs_session st')"
proof -
  let ?p = "stream_message (stream_id cs) ev" and ?sess = "(cs_session st)\<lparr>recv_counter := send_counter (c_session c) + 1\<rparr>"
  obtain f c1 where c1: "stream_emit (\<lambda>_. client_send CE) cs ev c = (None, c1)" "c_sent c1 = c_sent c @ [f]"
      "decrypt_packet (se_sodium SE) f (cs_session st) = (Inr ?p, ?sess)" "in_step (c_session c1) ?sess"
    using client_event_passes [OF sodium(1) step left conn ev(1,2) net] sodium(2) by auto
  obtain t st' where t: "server_on_message SE clk h True f s = server_on_payload SE auth h ?p t"
      "session_of h t = Some (auth, st')" "cs_session st' = ?sess" "undisturbed s t" "s_sent t = s_sent s"
    using server_takes [where clk = clk, OF look _ c1(3) ev(3) rate] in_step_complete [OF step] by blast
  have "server_find_stream h (stream_id ss) t = Some ss"
    using ss undisturbed_fields(4,5) [OF t(4)] by (simp add: server_find_stream_def)
  then have "server_on_payload SE auth h ?p t = catch_std (server_stream_event SE h ss ev t) (\<lambda>s. (Inr (), s))"
    using server_on_stream_event [OF ev(1), of t h ss SE auth] oc ss(2) undisturbed_fields(1) [OF t(4)] by simp
  then show ?thesis using c1(1,2,4) t by (intro exI [of _ c1] exI [of _ f] exI [of _ t] exI [of _ st']) simp
qed

text \<open>A server whose configuration renames the opcodes of streams does not see what its clients write to
  streams. If the opcode a stream object uses is none of the reserved ones of the server's
  configuration, then a frame that \<^verbatim>\<open>write\<close>, \<^verbatim>\<open>end\<close> or \<^verbatim>\<open>cancel\<close> sends is handled as an ordinary payload: no
  stream is looked up, and unless the application has a handler for that opcode (or a default one) it
  vanishes, the table of streams being what it was.\<close>

theorem renamed_stream_opcodes_lose_data:
  assumes sodium: "sodium_ok (ce_sodium CE)" "se_sodium SE = ce_sodium CE"
    and look: "session_of h s = Some (auth, st)" and conn: "is_connected c" and step: "in_step (c_session c) (cs_session st)"
    and left: "counters_left (c_session c)" and net: "ce_transport CE (c_net_calls c) = None"
    and ev: "event_fits ev" "\<not> too_large (c_config c) (stream_message (stream_id cs) ev)"
      "\<not> too_large (s_config s) (stream_message (stream_id cs) ev)"
    and op: "op = op_code (stream_message (stream_id cs) ev)"
      "op \<noteq> RESPONSE (opcodes (s_config s))" "\<not> is_stream_op (opcodes (s_config s)) op"
    and rate: "rl_enabled (rate_limit (s_config s)) \<longrightarrow>
      fst (check_message_rate (se_fl SE) (us (clk 0)) (rate_limiter_id st) (s_rate_limiter s))"
    and none: "(if auth then select_handler (s_request_handlers s) (s_op_code_handlers s) (s_default_payload_handler s) op
       else select_handler (anon_request_handlers s) (anon_op_code_handlers s) (anon_default_payload_handler s) op) = Nothing"
  shows "\<exists>c1 f t.
     stream_emit (\<lambda>_. client_send CE) cs ev c = (None, c1) \<and> c_sent c1 = c_sent c @ [f]
     \<and> server_on_message SE clk h True f s = (Inr (), t) \<and> undisturbed s t
     \<and> server_find_stream h (stream_id cs) t = server_find_stream h (stream_id cs) s"
proof -
  let ?p = "stream_message (stream_id cs) ev" and ?sess = "(cs_session st)\<lparr>recv_counter := send_counter (c_session c) + 1\<rparr>"
  obtain f c1 where c1: "stream_emit (\<lambda>_. client_send CE) cs ev c = (None, c1)" "c_sent c1 = c_sent c @ [f]"
      "decrypt_packet (se_sodium SE) f (cs_session st) = (Inr ?p, ?sess)"
    using client_event_passes [OF sodium(1) step left conn ev(1,2) net] sodium(2) by auto
  obtain t where t: "server_on_message SE clk h True f s = server_on_payload SE auth h ?p t" "undisturbed s t"
    using server_takes [where clk = clk, OF look _ c1(3) ev(3) rate] in_step_complete [OF step] by blast
  have "server_dispatch_payload SE auth h ?p t = (Inr (), t)"
    using none op(1) undisturbed_fields [OF t(2)] by (cases auth) (simp_all add: server_dispatch_payload_def)
  then have "server_on_payload SE auth h ?p t = (Inr (), t)"
    using op undisturbed_fields(1) [OF t(2)] by (simp add: server_on_payload_def)
  then show ?thesis using c1(1,2) t undisturbed_fields(4,5) [OF t(2)] by (auto simp: server_find_stream_def)
qed

text \<open>And back: what the server writes to a stream reaches the handler of the client's stream of that
  identifier, whether the client has an identity or is anonymous. One frame is sent, and the client's
  message handler does nothing but call the corresponding handler with exactly the bytes written; only
  if that handler throws does the client disconnect.\<close>

lemma server_stream_reaches_client:
  assumes sodium: "sodium_ok (se_sodium SE)" "ce_sodium CE = se_sodium SE"
    and look: "session_of h s = Some (auth, st)" and step: "in_step (c_session c) (cs_session st)"
    and left: "counters_left (cs_session st)" and net: "se_transport SE (s_net_calls s) = None"
    and ss: "send_fn ss = (h, auth)" and ev: "event_fits ev" "\<not> too_large (c_config c) (stream_message (stream_id ss) ev)"
    and oc: "stream_opcodes_agree (opcodes (c_config c))"
    and cs: "find_stream (stream_id ss) c = Some cs" "stream_id cs = stream_id ss"
  shows "\<exists>s1 f st' d.
     stream_emit (server_stream_send SE) ss ev s = (None, s1) \<and> s_sent s1 = s_sent s @ [(h, f)] \<and> undisturbed s s1
     \<and> client_on_message CE True f c = catch_std (client_stream_event CE cs ev d) (client_disconnect True)
     \<and> d = c\<lparr>c_session := c_session d\<rparr>
     \<and> session_of h s1 = Some (auth, st') \<and> in_step (c_session d) (cs_session st')"
proof -
  let ?p = "stream_message (stream_id ss) ev"
  let ?d = "c\<lparr>c_session := (c_session c)\<lparr>recv_counter := send_counter (cs_session st) + 1\<rparr>\<rparr>"
  obtain f s1 st' where s1: "server_stream_send SE (h, auth) ?p s = (Inr (), s1)" "s_sent s1 = s_sent s @ [(h, f)]"
      "undisturbed s s1" "decrypt_packet (se_sodium SE) f (c_session c) = (Inr ?p, c_session ?d)"
      "session_of h s1 = Some (auth, st')" "in_step (cs_session st') (c_session ?d)"
    using server_send_passes [OF sodium(1) look in_step_sym [OF step] left net, of ?p] by auto
  have "client_on_message CE True f c = catch_std (client_on_payload CE ?p ?d) (client_disconnect True)"
    using client_takes [of c CE f ?p "c_session ?d"] in_step_complete [OF step] s1(4) sodium(2) by simp
  moreover have "client_on_payload CE ?p ?d = client_stream_event CE cs ev ?d"
    using client_on_stream_event [OF ev(1), of ?d cs CE] ev(2) oc cs by (simp add: find_stream_def)
  moreover have "stream_emit (server_stream_send SE) ss ev s = (None, s1)"
    using s1(1) ss by (simp add: stream_emit_sends [OF ev(1)] swallow_def)
  ultimately show ?thesis
    using s1(2,3,5) in_step_sym [OF s1(6)]
    by (intro exI [of _ s1] exI [of _ f] exI [of _ st'] exI [of _ ?d]) simp
qed

definition demo_c4 :: client where
  "demo_c4 = demo_c2\<lparr>c_streams := [Stream 4 () None], active_streams := [(4, 0)]\<rparr>"


definition demo_s2 :: server where
  "demo_s2 = demo_s1\<lparr>s_streams := [set_data_handler (Some 3) (Stream 4 (0, False) None)], per_connection_streams := [((0, 4), 0)]\<rparr>"


end
