(* ===== verification/Identities.thy ===== *)
theory Identities
  imports ServerInitiated
begin

text \<open>
  Addressing a client by its identity: whom \<^verbatim>\<open>send_to_identity\<close> and the requests by identity reach, and
  what closing one of two connections under the same identity does to the other.
\<close>

section \<open>Whom an identity leads to\<close>

lemma links_identities:
  assumes "links_ok s"
  shows "m_find (hdl_to_identity s) h = Option.bind (lookup_session True h s) (\<lambda>st. peer_identity (cs_session st))"
    and "m_find (identity_to_hdl s) pk = Some h \<Longrightarrow> m_find (hdl_to_identity s) h = Some pk"
  using assms unfolding links_ok_def identities_ok_def by blast+

lemma identity_session:
  assumes "links_ok s" and "m_find (identity_to_hdl s) pk = Some h"
  shows "\<exists>st. session_of h s = Some (True, st) \<and> lookup_session True h s = Some st
     \<and> peer_identity (cs_session st) = Some pk \<and> session_inv (cs_session st) \<and> handshake_complete (cs_session st)
     \<and> ready_session h s = Some (True, st)"
proof -
  obtain st where st: "lookup_session True h s = Some st" "peer_identity (cs_session st) = Some pk"
    using links_identities(1) [OF assms(1), of h] links_identities(2) [OF assms] by (cases "lookup_session True h s") auto
  have "entry_ok True (s_rate_limiter s) st"
    using assms(1) st(1) unfolding links_ok_def sessions_ok_def by blast
  with st show ?thesis
    by (auto simp: entry_ok_def session_of_def ready_session_def lookup_session_def is_handshake_complete_def)
qed

lemma send_to_identity_effect:
  assumes "links_ok s" and "sodium_ok (se_sodium E)" and "se_transport E (s_net_calls s) = None"
    and "m_find (identity_to_hdl s) pk = Some h"
  shows "\<exists>st pkt t. lookup_session True h s = Some st \<and> peer_identity (cs_session st) = Some pk
     \<and> fst (encrypt_payload (se_sodium E) (s_draws s) p (cs_session st)) = Inr pkt
     \<and> send_to_identity E pk p s = (Inr (), t) \<and> s_sent t = s_sent s @ [(h, pkt)] \<and> undisturbed s t"
proof -
  obtain st where st: "lookup_session True h s = Some st" "peer_identity (cs_session st) = Some pk"
      "session_inv (cs_session st)" "handshake_complete (cs_session st)" "ready_session h s = Some (True, st)"
    using identity_session [OF assms(1,4)] by blast
  obtain pkt sess where "encrypt_payload (se_sodium E) (s_draws s) p (cs_session st) = (Inr pkt, sess)"
    using encrypt_payload_complete [OF assms(2) st(3,4)] by blast
  then show ?thesis
    using st(1,2,5) assms(3,4)
    by (auto simp: send_to_identity_def server_send_def server_encrypt_def server_transport_def put_session_def undisturbed_def)
qed

text \<open>C20: \<^verbatim>\<open>send_to_identity\<close> reaches the owner of the identity and nobody else. In every reachable state of
  the server it throws when the identity is not connected, changing nothing; otherwise the connection
  it picks has a session whose handshake verified a signature under exactly that identity, the payload
  is encrypted under that session's keys, and the one frame sent goes to that connection.\<close>

theorem identity_reaches_its_owner:
  assumes "fresh_server s0" and "server_step\<^sup>*\<^sup>* s0 s" and "sodium_ok (se_sodium E)"
    and "se_transport E (s_net_calls s) = None"
  shows "case m_find (identity_to_hdl s) pk of
      None \<Rightarrow> send_to_identity E pk p s = (Inl (LogicError ''Identity is not connected.''), s)
    | Some h \<Rightarrow> \<exists>st pkt t. lookup_session True h s = Some st \<and> peer_identity (cs_session st) = Some pk
        \<and> fst (encrypt_payload (se_sodium E) (s_draws s) p (cs_session st)) = Inr pkt
        \<and> send_to_identity E pk p s = (Inr (), t) \<and> s_sent t = s_sent s @ [(h, pkt)] \<and> undisturbed s t"
  using send_to_identity_effect [OF _ assms(3,4)] reachable_links [OF assms(1,2)]
  by (auto simp: send_to_identity_def split: option.split)

theorem identity_reaches_its_owner_witness:
  "\<exists>st t pkt. lookup_session True 0 sample_server3 = Some st \<and> peer_identity (cs_session st) = Some (publicKey sample_identity)
     \<and> send_to_identity idle_server_env (publicKey sample_identity) sample_payload sample_server3 = (Inr (), t)
     \<and> s_sent t = s_sent sample_server3 @ [(0, pkt)]"
proof -
  have "m_find (identity_to_hdl sample_server3) (publicKey sample_identity) = Some 0"
    using sample_maps by (simp add: sample_server3_def server_request_register_def with_request_id_eq Let_def split: prod.splits)
  then show ?thesis
    using identity_reaches_its_owner [OF sample_server0_fresh sample_server3_reachable, of idle_server_env
        "publicKey sample_identity" sample_payload]
    by (auto simp: idle_server_env_def model_sodium_ok)
qed

section \<open>Two connections of one client\<close>

text \<open>A client that connects again under its identity is lost when its old connection closes. If two
  connections are identified by the same key and the identity leads to the newer one, then \<^verbatim>\<open>on_close\<close> of
  the older one leaves the newer session as it was, still identified by that key, but removes the entry
  of the identity: every \<^verbatim>\<open>send_to_identity\<close> and \<^verbatim>\<open>async_request_to_identity\<close> then throws that the
  identity is not connected.\<close>

theorem reconnected_identity_lost:
  assumes "fresh_server s0" and "server_step\<^sup>*\<^sup>* s0 s" and "on_close_callback s = None" and "old \<noteq> new"
    and "lookup_session True old s = Some st" and "peer_identity (cs_session st) = Some pk"
    and "m_find (identity_to_hdl s) pk = Some new"
  shows "\<exists>t st'. server_on_close E old s = (Inr (), t) \<and> lookup_session True new s = Some st'
     \<and> lookup_session True new t = Some st' \<and> m_find (hdl_to_identity t) new = Some pk
     \<and> send_to_identity E' pk p t = (Inl (LogicError ''Identity is not connected.''), t)
     \<and> async_request_to_identity E' now pk p t = (Inl (LogicError ''Identity is not connected.''), t)"
proof -
  have ok: "links_ok s" "table_inv (s_requests s)" using reachable_links [OF assms(1,2)] by simp_all
  have ids: "m_find (hdl_to_identity s) old = Some pk" "m_find (hdl_to_identity s) new = Some pk"
    using links_identities [OF ok(1)] assms(5-7) by simp_all
  obtain st' where st': "lookup_session True new s = Some st'" using identity_session [OF ok(1) assms(7)] by blast
  obtain u where "fail_where (\<lambda>(h', rid). h' = old) (RuntimeError ''Client disconnected'') (s_requests s) = (Inr (), u)"
    using fail_where_effect [OF ok(2)] by blast
  then have run: "server_on_close E old s = (Inr (), (without_connection old s)
      \<lparr>s_requests := u, handshake_open_time := m_erase old (handshake_open_time s)\<rparr>)"
    using assms(3) by (simp add: server_on_close_def server_cleanup_eq call_if_def)
  have "identity_to_hdl (without_connection old s) = m_erase pk (identity_to_hdl s)"
      "hdl_to_identity (without_connection old s) = m_erase old (hdl_to_identity s)"
    using ids(1) by (simp_all add: without_connection_def drop_identity_def drop_session_def Let_def split: option.split)
  then show ?thesis
    using st' ids(2) assms(4) lookup_sessions_only [of "(without_connection old s)
      \<lparr>s_requests := u, handshake_open_time := m_erase old (handshake_open_time s)\<rparr>" "without_connection old s" True new]
    unfolding run by (simp add: send_to_identity_def async_request_to_identity_def)
qed

text \<open>A second connection, 2, of the client that is connected as 0.\<close>

definition twice_server :: server where
  "twice_server = snd (server_on_message idle_server_env sample_clock 2 True
     (hello_bytes (snd (set_client_identity_key sample_identity sample_client))) sample_server1)"

definition twice_view :: "server \<Rightarrow> public_key option option \<times> hdl option \<times> bool" where
  "twice_view s = (map_option (\<lambda>st. peer_identity (cs_session st)) (lookup_session True 0 s),
     m_find (identity_to_hdl s) (publicKey sample_identity), on_close_callback s = None)"

lemma twice_server_view: "twice_view twice_server = (Some (Some (publicKey sample_identity)), Some 2, True)"
  by code_simp

lemma twice_server_reachable: "server_step\<^sup>*\<^sup>* sample_server0 twice_server"
proof -
  note sample_server1_reachable
  moreover have "server_step sample_server1 twice_server"
    unfolding twice_server_def
    by (rule server_step.on_message) (use sample_maps in \<open>simp_all add: server_callbacks_ok_idle has_room_def\<close>)
  ultimately show ?thesis by (meson r_into_rtranclp rtranclp.rtrancl_into_rtrancl)
qed

theorem reconnected_identity_lost_witness:
  "\<exists>t st'. server_on_close idle_server_env 0 twice_server = (Inr (), t) \<and> lookup_session True 2 t = Some st'
     \<and> send_to_identity idle_server_env (publicKey sample_identity) sample_payload t
         = (Inl (LogicError ''Identity is not connected.''), t)"
proof -
  obtain st where st: "lookup_session True 0 twice_server = Some st" "peer_identity (cs_session st) = Some (publicKey sample_identity)"
      "m_find (identity_to_hdl twice_server) (publicKey sample_identity) = Some 2" "on_close_callback twice_server = None"
    using twice_server_view by (auto simp: twice_view_def)
  show ?thesis
    using reconnected_identity_lost [OF sample_server0_fresh twice_server_reachable st(4) _ st(1-3)] by fastforce
qed

section \<open>A hello is worth as much twice\<close>

text \<open>How the server answers the hello of an honest client with an identity, whoever delivers it.\<close>

lemma honest_hello_answered:
  assumes "sodium_ok S" and "key_pair_ok S kp" and "length vs < 65536" and "key_pair_ok S k" and "negotiate vs ws = Some v"
    and "client_initiate_handshake S rnd ((Session CLIENT key vs)\<lparr>client_identity_kp := Some kp\<rparr>) = (Inr ch, c1)"
  shows "client_hello_deserialize (client_hello_serialize ch) = Inr ch \<and> has_client_identity ch
     \<and> (\<exists>sh sess. server_respond_to_handshake S r ch (Session SERVER k ws) = (Inr sh, sess)
          \<and> peer_identity sess = Some (publicKey kp))"
proof -
  let ?c = "(Session CLIENT key vs)\<lparr>client_identity_kp := Some kp\<rparr>"
  have ch: "client_hello_ok ch" "supported_versions ch = vs" "ephemeral_pk ch = publicKey (generate_kx_keypair S rnd)"
      "has_client_identity ch" "verify S (identity_sig ch) (pk_data (ephemeral_pk ch)) (identity_pk ch)" "identity_pk ch = publicKey kp"
    using client_initiate_ok [OF assms(1), of ?c rnd] assms(2,3,6) by (auto simp: Session_def)
  obtain keys where "server_compute_session_keys S (generate_kx_keypair S r) (ephemeral_pk ch) = Inr keys"
    using session_keys_agree [OF assms(1), of rnd r] ch(3) by auto
  then show ?thesis
    using server_respond_ok [OF assms(1), of "Session SERVER k ws" ch v r keys] ch assms(4,5) client_hello_codec.dec_enc [OF ch(1)]
    by (auto simp: Session_def)
qed


definition replay_view :: "server \<Rightarrow> bool \<times> version list \<times> bool \<times> bool \<times> bool \<times> bool" where
  "replay_view s = (s_sign_key s = sample_server_key, cfg_supported_versions (s_config s), lookup_session True 2 s = None,
     lookup_session False 2 s = None, client_identity_handler s = None,
     fst (check_handshake_rate (ms (sample_clock 0)) (get_remote_ip idle_server_env 2) (s_rate_limiter s)))"

lemma sample_server1_replay: "replay_view sample_server1 = (True, [V1_1, V1_0], True, True, True, True)"
  by code_simp


end
