(* ===== verification/Examples.thy ===== *)
theory Examples
  imports StreamTransfer Identities
begin

text \<open>
  The programs of \<^verbatim>\<open>src/examples\<close>: the whole of \<^verbatim>\<open>basic_encryption_example.cpp\<close>, and of the others the
  set-up of the server and the callbacks, as callbacks of the environments that the models of the
  wrappers are parametrised by. Output to the terminal, sleeps and the waiting for one another are
  left out.
\<close>

section \<open>Building payloads\<close>

text \<open>A chain \<^verbatim>\<open>PayloadBuilder(op).add_param(..).add_param(..).build()\<close>.\<close>

fun build_chain :: "payload_builder \<Rightarrow> (payload_builder \<Rightarrow> payload_builder result) list \<Rightarrow> payload result" where
  "build_chain b [] = Inr (fst (build b))"
| "build_chain b (add # adds) = (case add b of Inl e \<Rightarrow> Inl e | Inr b \<Rightarrow> build_chain b adds)"

lemma build_chain_framed:
  assumes "list_all2 (\<lambda>add x. fits x \<and> (\<forall>b. add b = add_param b x)) adds xs"
  shows "build_chain b adds = Inr \<lparr>op_code = op_code (builder_payload b),
     parameters = parameters (builder_payload b) @ concat (map (\<lambda>x. framed (param_bytes x)) xs)\<rparr>"
  using assms
  by (induction adds xs arbitrary: b rule: list_all2_induct)
    (simp_all add: build_def add_param_framed insert_end_def)

section \<open>\<^verbatim>\<open>basic_encryption_example.cpp\<close>\<close>

text \<open>How a program ends: with an exit code, by a failed \<^verbatim>\<open>assert\<close>, by an exception nobody catches.\<close>

datatype run = Exit int | Abort | Uncaught exn

definition login_payload :: "payload result" where
  "login_payload = build_chain (PayloadBuilder 0x1001)
     [\<lambda>b. add_param_cstr b ''my_username'', \<lambda>b. add_param_cstr b ''my_very_secret_password'',
      \<lambda>b. add_param_uint64 b 1678886400000]"

text \<open>The \<^verbatim>\<open>try\<close> block in which the server decrypts and reads what it received.\<close>

definition receive_login :: "sodium \<Rightarrow> payload \<Rightarrow> byte_vector \<Rightarrow> session \<Rightarrow> run" where
  "receive_login S client_payload packet server =
     (let failed = (\<lambda>e. if is_std_exception e then Exit 1 else Uncaught e) in
      case decrypt_packet S packet server of
        (Inl e, _) \<Rightarrow> failed e
      | (Inr p, _) \<Rightarrow>
          if op_code p \<noteq> op_code client_payload then Abort
          else (case read_param_string (PayloadReader p) of
            (Inl e, _) \<Rightarrow> failed e
          | (Inr username, reader) \<Rightarrow> (case read_param_string reader of
            (Inl e, _) \<Rightarrow> failed e
          | (Inr password, reader) \<Rightarrow> (case read_param_uint64 reader of
            (Inl e, _) \<Rightarrow> failed e
          | (Inr timestamp, reader) \<Rightarrow>
              if username = ''my_username'' \<and> password = ''my_very_secret_password'' \<and> timestamp = 1678886400000
              then Exit 0 else Abort))))"

text \<open>\<^verbatim>\<open>main\<close>, given the flag of \<^verbatim>\<open>Crypto::init\<close> and the randomness of the calls of libsodium.\<close>

definition basic_encryption_main :: "sodium \<Rightarrow> bool \<Rightarrow> (nat \<Rightarrow> nat) \<Rightarrow> run" where
  "basic_encryption_main S g_sodium_initialized rnd =
     (if fst (crypto_init S g_sodium_initialized) \<noteq> 0 then Exit 1
      else
        let server_key = generate_sign_keypair S (rnd 0);
            client_view = \<lparr>publicKey = publicKey server_key, privateKey = PrivateKey []\<rparr>;
            server = Session SERVER server_key SUPPORTED_VERSIONS;
            client = Session CLIENT client_view SUPPORTED_VERSIONS in
        case client_initiate_handshake S (rnd 1) client of
          (Inl e, _) \<Rightarrow> Uncaught e
        | (Inr client_hello, client) \<Rightarrow> (case server_respond_to_handshake S (rnd 2) client_hello server of
          (Inl e, _) \<Rightarrow> Uncaught e
        | (Inr server_hello, server) \<Rightarrow>
            if \<not> is_handshake_complete server then Abort
            else (case client_finalize_handshake S server_hello client of
              (Inl e, _) \<Rightarrow> Uncaught e
            | (Inr _, client) \<Rightarrow>
                if \<not> is_handshake_complete client then Abort
                else (case login_payload of
                  Inl e \<Rightarrow> Uncaught e
                | Inr payload \<Rightarrow> (case encrypt_payload S (rnd 3) payload client of
                  (Inl e, _) \<Rightarrow> Uncaught e
                | (Inr packet, client) \<Rightarrow> receive_login S payload packet server)))))"

abbreviation (input) login_params :: "param list" where
  "login_params \<equiv> [P_string ''my_username'', P_string ''my_very_secret_password'', P_uint64 1678886400000]"

lemma login_payload_eq: "login_payload = Inr (framed_params 0x1001 login_params)"
  unfolding login_payload_def
  by (subst build_chain_framed [of _ login_params])
    (simp_all add: framed_params_def PayloadBuilder_def fits_def add_param_cstr_def bytes_of_string_def)

lemma read_params_string:
  assumes "read_params (T_string # ts) r = (Inr (P_string x # xs), r')"
  shows "\<exists>r1. read_param_string r = (Inr x, r1) \<and> read_params ts r1 = (Inr xs, r')"
proof (cases "read_param_string r")
  case (Pair y r1)
  then show ?thesis
    using assms by (cases y; cases "read_params ts r1"; cases "fst (read_params ts r1)") (auto simp: map_fst_def)
qed

lemma read_params_uint64:
  assumes "read_params (T_uint64 # ts) r = (Inr (P_uint64 x # xs), r')"
  shows "\<exists>r1. read_param_uint64 r = (Inr x, r1) \<and> read_params ts r1 = (Inr xs, r')"
proof (cases "read_param_uint64 r")
  case (Pair y r1)
  then show ?thesis
    using assms by (cases y; cases "read_params ts r1"; cases "fst (read_params ts r1)") (auto simp: map_fst_def)
qed

lemma receive_login_reads:
  assumes "decrypt_packet S packet server = (Inr (framed_params 0x1001 login_params), server')"
  shows "receive_login S (framed_params 0x1001 login_params) packet server = Exit 0"
proof -
  have "list_all fits login_params" by (simp add: fits_def bytes_of_string_def)
  then obtain r where "read_params [T_string, T_string, T_uint64] (PayloadReader (framed_params 0x1001 login_params))
      = (Inr login_params, r)"
    using framed_params_read [of login_params "0x1001"] by auto
  then obtain r1 r2 r3 where "read_param_string (PayloadReader (framed_params 0x1001 login_params)) = (Inr ''my_username'', r1)"
      "read_param_string r1 = (Inr ''my_very_secret_password'', r2)" "read_param_uint64 r2 = (Inr 1678886400000, r3)"
    by (blast dest: read_params_string read_params_uint64)
  then show ?thesis
    using assms by (simp add: receive_login_def)
qed

theorem basic_encryption_succeeds:
  assumes "sodium_ok S"
  shows "basic_encryption_main S g rnd = (if fst (crypto_init S g) = 0 then Exit 0 else Exit 1)"
proof (cases "fst (crypto_init S g) = 0")
  case True
  let ?k = "generate_sign_keypair S (rnd 0)"
  let ?s = "Session SERVER ?k SUPPORTED_VERSIONS"
  let ?c = "Session CLIENT \<lparr>publicKey = publicKey ?k, privateKey = PrivateKey []\<rparr> SUPPORTED_VERSIONS"
  have neg: "negotiate SUPPORTED_VERSIONS SUPPORTED_VERSIONS = Some V1_1" by (simp add: SUPPORTED_VERSIONS_def)
  have f: "role ?c = CLIENT" "role ?s = SERVER" "sess_supported_versions ?c = SUPPORTED_VERSIONS" "client_identity_kp ?c = None"
      "sess_supported_versions ?s = SUPPORTED_VERSIONS" "server_sign_key ?s = ?k" "publicKey (server_sign_key ?c) = publicKey ?k"
      "send_counter ?c = 0" "recv_counter ?s = 0"
    by (simp_all add: Session_def)
  obtain c s where hs: "handshake_over_wire S (rnd 1) (rnd 2) ?c ?s = (Inr (), c, s)" "linked c s"
      "send_counter c = 0" "recv_counter s = 0"
    using handshake_agreement [OF assms f(1,2), of V1_1 "rnd 1" "rnd 2"] neg f generate_sign_keypair_ok [OF assms, of "rnd 0"]
    by (auto simp: SUPPORTED_VERSIONS_def)
  obtain ch c1 ch' sh sh' where m: "client_initiate_handshake S (rnd 1) ?c = (Inr ch, c1)"
      "client_hello_deserialize (client_hello_serialize ch) = Inr ch'"
      "server_respond_to_handshake S (rnd 2) ch' ?s = (Inr sh, s)"
      "server_hello_deserialize (server_hello_serialize sh) = Inr sh'" "client_finalize_handshake S sh' c1 = (Inr (), c)"
    by (rule handshake_messages [OF hs(1)])
  have "client_hello_ok ch"
    using client_initiate_ok [OF assms f(1), of "rnd 1"] f(3,4) m(1) by (auto simp: SUPPORTED_VERSIONS_def)
  then have ch: "ch' = ch" using client_hello_codec.dec_enc [of ch] m(2) by simp
  have "server_hello_ok sh"
    using m(3) assms generate_kx_keypair_sizes [OF assms, of "rnd 2"]
    by (auto simp: server_respond_to_handshake_def server_hello_ok_def sign_def Let_def split: if_splits option.splits sum.splits)
  then have sh: "sh' = sh" using server_hello_codec.dec_enc [of sh] m(4) by simp
  obtain pkt s1 where "encrypt_payload S (rnd 3) (framed_params 0x1001 login_params) c = (Inr pkt, c\<lparr>send_counter := send_counter c + 1\<rparr>)"
      "decrypt_packet S pkt s = (Inr (framed_params 0x1001 login_params), s1)"
    using linked_round_trip [OF assms hs(2), of "rnd 3" "framed_params 0x1001 login_params"] hs(3,4) by auto
  then show ?thesis
    using True m(1,3,5) hs(2) unfolding ch sh
    by (simp add: basic_encryption_main_def Let_def login_payload_eq is_handshake_complete_def linked_def receive_login_reads)
qed (simp add: basic_encryption_main_def)

section \<open>\<^verbatim>\<open>request_response_example.cpp\<close>\<close>

definition OP_C2S_ECHO_REQUEST :: OpCode where "OP_C2S_ECHO_REQUEST = 0x3001"
definition OP_C2S_ECHO_RESPONSE :: OpCode where "OP_C2S_ECHO_RESPONSE = 0x3002"
definition OP_S2C_TIME_REQUEST :: OpCode where "OP_S2C_TIME_REQUEST = 0x4001"
definition OP_S2C_TIME_RESPONSE :: OpCode where "OP_S2C_TIME_RESPONSE = 0x4002"

text \<open>The server's handler; the thread it detaches sends the request of the time and reports the answer.\<close>

definition echo_request_handler :: "payload_reader \<Rightarrow> server \<Rightarrow> payload result \<times> server" where
  "echo_request_handler reader s =
     (case read_param_string reader of
        (Inl e, _) \<Rightarrow> (Inl e, s)
      | (Inr message, _) \<Rightarrow>
          (build_chain (PayloadBuilder OP_C2S_ECHO_RESPONSE) [\<lambda>b. add_param_string b (''Echoing back: '' @ message)], s))"

definition time_request :: "payload result" where
  "time_request = build_chain (PayloadBuilder OP_S2C_TIME_REQUEST) []"

text \<open>What either side makes of its future once it has waited: a report on the terminal.\<close>

datatype report = Received string | Other_opcode | Caught exn | Timed_out

definition response_report :: "OpCode \<Rightarrow> promise_state \<Rightarrow> report" where
  "response_report op st =
     (case st of
        Pending \<Rightarrow> Timed_out
      | Failed e \<Rightarrow> Caught e
      | Value p \<Rightarrow>
          if op_code p = op
          then (case fst (read_param_string (PayloadReader p)) of Inl e \<Rightarrow> Caught e | Inr msg \<Rightarrow> Received msg)
          else Other_opcode)"

text \<open>The thread the server's handler detaches, given what the others do while it waits for the future; what it
  does not catch ends the program. And the client's request.\<close>

definition time_thread ::
  "server_env \<Rightarrow> (server \<Rightarrow> server) \<Rightarrow> int \<Rightarrow> hdl \<Rightarrow> server \<Rightarrow> report result \<times> server" where
  "time_thread E wait now h s =
     (case time_request of
        Inl e \<Rightarrow> (Inl e, s)
      | Inr q \<Rightarrow>
          and_then (server_async_request E now h q 0 s)
            (\<lambda>pid s. let s = wait s in (Inr (response_report OP_S2C_TIME_RESPONSE (promises (s_requests s) ! pid)), s)))"

definition echo_request :: "payload result" where
  "echo_request = build_chain (PayloadBuilder OP_C2S_ECHO_REQUEST) [\<lambda>b. add_param_cstr b ''Hello, world!'']"

definition echo_client :: "client_env \<Rightarrow> (client \<Rightarrow> client) \<Rightarrow> int \<Rightarrow> client \<Rightarrow> report result \<times> client" where
  "echo_client E wait now c =
     (case echo_request of
        Inl e \<Rightarrow> (Inl e, c)
      | Inr q \<Rightarrow>
          and_then (client_async_request E now q 0 c)
            (\<lambda>pid c. let c = wait c in (Inr (response_report OP_C2S_ECHO_RESPONSE (promises (c_requests c) ! pid)), c)))"

text \<open>The client's handler, given what \<^verbatim>\<open>std::ctime\<close> returns.\<close>

definition time_request_handler :: "string \<Rightarrow> payload_reader \<Rightarrow> client \<Rightarrow> payload result \<times> client" where
  "time_request_handler ctime reader c =
     (let time_str = butlast ctime in
      (build_chain (PayloadBuilder OP_S2C_TIME_RESPONSE) [\<lambda>b. add_param_string b (''The time is: '' @ time_str)], c))"

definition echo_server :: "key_pair \<Rightarrow> server" where
  "echo_server k = register_anon_request_handler OP_C2S_ECHO_REQUEST (Some 1) (WsServerWrapper k with_defaults)"

definition echo_env :: "server_env \<Rightarrow> server_env" where
  "echo_env E = E\<lparr>se_request := \<lambda>n h reader s. if n = 1 then echo_request_handler reader s else se_request E n h reader s\<rparr>"

lemma build_chain_string:
  assumes "length msg \<le> 65535"
  shows "build_chain (PayloadBuilder op) [\<lambda>b. add_param_string b msg] = Inr (framed_params op [P_string msg])"
  using build_chain_framed [of "[\<lambda>b. add_param_string b msg]" "[P_string msg]" "PayloadBuilder op"] assms
  by (simp add: fits_def bytes_of_string_def framed_params_def PayloadBuilder_def)

lemma read_string_at:
  assumes "drop (offset r) (params_data r) = parameters (framed_params op [P_string msg])" and "length msg \<le> 65535"
  shows "\<exists>r'. read_param_string r = (Inr msg, r')"
proof -
  have "r = \<lparr>params_data = take (offset r) (params_data r) @ framed (bytes_of_string msg) @ [], offset = offset r\<rparr>"
    using assms(1) append_take_drop_id [of "offset r" "params_data r"] by (simp add: framed_params_def)
  moreover have "length (take (offset r) (params_data r)) = offset r"
  proof -
    have "drop (offset r) (params_data r) \<noteq> []" using assms(1) by (simp add: framed_params_def framed_def)
    then show ?thesis by simp
  qed
  ultimately show ?thesis
    using string_param.rd_framed [of msg "take (offset r) (params_data r)" "[]"] assms(2)
    by (metis bytes_of_string_def length_map)
qed

lemma framed_string_reads:
  "length msg \<le> 65535 \<Longrightarrow> fst (read_param_string (PayloadReader (framed_params op [P_string msg]))) = Inr msg"
  using read_string_at [of "PayloadReader (framed_params op [P_string msg])" op msg] by (auto simp: PayloadReader_def)

lemma echo_request_eq: "echo_request = Inr (framed_params OP_C2S_ECHO_REQUEST [P_string ''Hello, world!''])"
  using build_chain_framed [of "[\<lambda>b. add_param_cstr b ''Hello, world!'']" "[P_string ''Hello, world!'']" "PayloadBuilder OP_C2S_ECHO_REQUEST"]
  by (simp add: echo_request_def fits_def bytes_of_string_def framed_params_def PayloadBuilder_def add_param_cstr_def)

lemma echo_answers:
  "answers (echo_env E) 1 h (parameters (framed_params op [P_string ''Hello, world!'']))
     (framed_params OP_C2S_ECHO_RESPONSE [P_string ''Echoing back: Hello, world!''])"
proof -
  have "echo_request_handler r s = (Inr (framed_params OP_C2S_ECHO_RESPONSE [P_string ''Echoing back: Hello, world!'']), s)"
    if here: "drop (offset r) (params_data r) = parameters (framed_params op [P_string ''Hello, world!''])" for r s
    using read_string_at [OF here] build_chain_string [of "''Echoing back: Hello, world!''" OP_C2S_ECHO_RESPONSE]
    by (auto simp: echo_request_handler_def)
  then show ?thesis by (simp add: answers_def echo_env_def)
qed

text \<open>Whatever the client's handler answers to the request of the time, the server reports it.\<close>

lemma time_answer_reported:
  assumes "length ctime \<le> 60000" and "time_request_handler ctime reader c = (Inr p, c')"
  shows "response_report OP_S2C_TIME_RESPONSE (Value p) = Received (''The time is: '' @ butlast ctime)"
proof -
  have "length (''The time is: '' @ butlast ctime) \<le> 65535" using assms(1) by simp
  then show ?thesis
    using assms(2) build_chain_string [of "''The time is: '' @ butlast ctime" OP_S2C_TIME_RESPONSE]
      framed_string_reads [of "''The time is: '' @ butlast ctime" OP_S2C_TIME_RESPONSE]
    by (auto simp: time_request_handler_def response_report_def)
qed

text \<open>A client that is connected to a server set up as in the example gets the echo of its message.\<close>

theorem echo_example:
  assumes "fresh_client c0" "client_step\<^sup>*\<^sup>* c0 c" and "sodium_ok (ce_sodium CE)" "se_sodium SE = ce_sodium CE"
    and "session_of h s = Some (False, st)" "is_connected c" "in_step (c_session c) (cs_session st)"
    and "counters_left (c_session c)" "counters_left (cs_session st)"
    and "ce_transport CE (c_net_calls c) = None" "se_transport SE (s_net_calls s) = None"
    and "c_config c = with_defaults" "s_config s = with_defaults"
    and "fst (check_message_rate (se_fl SE) (us (clk 0)) (rate_limiter_id st) (s_rate_limiter s))"
    and "anon_request_handlers s = anon_request_handlers (echo_server k)"
  shows "fst (echo_client CE (round_trip CE (echo_env SE) clk h s) now c) = Inr (Received ''Echoing back: Hello, world!'')"
proof -
  let ?resp = "framed_params OP_C2S_ECHO_RESPONSE [P_string ''Echoing back: Hello, world!'']"
  note defaults = with_defaults_def Config_def ReservedOpcodes_defaults_def MessageLimitConfig_defaults_def
  define p where "p = framed_params OP_C2S_ECHO_REQUEST [P_string ''Hello, world!'']"
  have env: "se_sodium (echo_env SE) = ce_sodium CE" "se_transport (echo_env SE) = se_transport SE" "se_fl (echo_env SE) = se_fl SE"
    using assms(4) by (simp_all add: echo_env_def)
  have handler: "m_find (anon_request_handlers s) (op_code p) = Some (Some 1)"
    using assms(15) by (simp add: p_def echo_server_def register_anon_request_handler_def)
  have rep: "response_report OP_C2S_ECHO_RESPONSE (Value ?resp) = Received ''Echoing back: Hello, world!''"
    using framed_string_reads [of "''Echoing back: Hello, world!''" OP_C2S_ECHO_RESPONSE] by (simp add: response_report_def)
  obtain pid c1 f1 s1 f2 c2 where r: "client_async_request CE now p 0 c = (Inr pid, c1)" "c_sent c1 = c_sent c @ [f1]"
      "pid < length (promises (c_requests c1))"
      "server_on_message (echo_env SE) clk h True f1 s = (Inr (), s1)" "s_sent s1 = s_sent s @ [(h, f2)]"
      "client_on_message CE True f2 c1 = (Inr (), c2)"
      "promises (c_requests c2) = (promises (c_requests c1))[pid := Value ?resp]"
    using request_answered [where CE = CE and SE = "echo_env SE" and clk = clk and resp = ?resp and p = p,
        OF client_requests.reachable_table [OF assms(1,2)] assms(3) env(1) assms(5-10) _ with_request_id_eq] assms(11-14) handler echo_answers [of SE h OP_C2S_ECHO_REQUEST, folded p_def]
    by (force simp: p_def env defaults too_large_def is_stream_op_def OP_C2S_ECHO_REQUEST_def framed_params_def framed_def
        bytes_of_string_def response_payload_eq)
  have req: "echo_request = Inr p" unfolding echo_request_eq p_def ..
  have "round_trip CE (echo_env SE) clk h s c1 = c2" using r by (simp add: round_trip_def)
  then show ?thesis using r rep unfolding echo_client_def req by simp
qed

section \<open>\<^verbatim>\<open>streaming_example.cpp\<close>\<close>

definition OP_TEXT_STREAM :: OpCode where "OP_TEXT_STREAM = 0x6001"
definition OP_BINARY_STREAM :: OpCode where "OP_BINARY_STREAM = 0x6002"

text \<open>The server's handlers of new streams. The callbacks they set capture the stream: its reference is part
  of their number, doubled for the data handlers, where the odd numbers are the binary one.\<close>

definition text_stream_handler :: "nat \<Rightarrow> server \<Rightarrow> unit result \<times> server" where
  "text_stream_handler ref s =
     (Inr (), s\<lparr>s_streams := (s_streams s)[ref := set_cancel_handler (Some ref) (set_end_handler (Some ref)
        (set_data_handler (Some (2 * ref)) (s_streams s ! ref)))]\<rparr>)"

definition binary_stream_handler :: "nat \<Rightarrow> server \<Rightarrow> unit result \<times> server" where
  "binary_stream_handler ref s =
     (Inr (), s\<lparr>s_streams := (s_streams s)[ref := set_end_handler (Some ref)
        (set_data_handler (Some (2 * ref + 1)) (s_streams s ! ref))]\<rparr>)"

definition text_data_handler :: "server_env \<Rightarrow> nat \<Rightarrow> byte_vector \<Rightarrow> server \<Rightarrow> unit result \<times> server" where
  "text_data_handler E ref data s =
     (let response = bytes_of_string ''Echo: '' @ data
      in (Inr (), snd (stream_write (server_stream_send E) (s_streams s ! ref) response s)))"

definition stream_end_handler :: "server_env \<Rightarrow> nat \<Rightarrow> server \<Rightarrow> unit result \<times> server" where
  "stream_end_handler E ref s = (Inr (), snd (stream_end (server_stream_send E) (s_streams s ! ref) s))"

definition streaming_server :: "key_pair \<Rightarrow> server" where
  "streaming_server k =
     server_register_incoming_stream_handler (Some 3)
       (server_register_stream_handler OP_BINARY_STREAM (Some 2)
         (server_register_stream_handler OP_TEXT_STREAM (Some 1) (WsServerWrapper k with_defaults)))"

definition streaming_env :: "server_env \<Rightarrow> server_env" where
  "streaming_env E = E\<lparr>
     se_stream := \<lambda>n ref s. if n = 1 then text_stream_handler ref s
                            else if n = 2 then binary_stream_handler ref s else (Inr (), s),
     se_stream_data := \<lambda>n data s. if even n then text_data_handler E (n div 2) data s else (Inr (), s),
     se_stream_end := stream_end_handler E,
     se_stream_cancel := \<lambda>_ s. (Inr (), s)\<rparr>"

text \<open>The example does not do what it announces: its client has no identity, and the handlers that
  \<^verbatim>\<open>register_stream_handler\<close> registers serve identified clients only. The stream goes to the generic
  handler, which only logs, and keeps no handlers: nothing written to it is ever echoed.\<close>

theorem streaming_example_falls_back:
  assumes "session_of h s = Some (False, st)" "in_step a (cs_session st)"
    and "decrypt_packet (se_sodium E) pkt (cs_session st) = (Inr (start_message (opcodes with_defaults) sid (Some OP_TEXT_STREAM)), sess)"
    and "s_config s = with_defaults"
    and "fst (check_message_rate (se_fl E) (us (clk 0)) (rate_limiter_id st) (s_rate_limiter s))"
    and "anon_stream_handlers s = anon_stream_handlers (streaming_server k)"
    and "s_incoming_stream_handler s = s_incoming_stream_handler (streaming_server k)"
  shows "\<exists>t. server_on_message (streaming_env E) clk h True pkt s = (Inr (), t)
     \<and> server_find_stream h sid t = Some (Stream sid (h, False) (Some OP_TEXT_STREAM))
     \<and> (\<forall>ev u. fst (server_stream_event (streaming_env E) h (Stream sid (h, False) (Some OP_TEXT_STREAM)) ev u) = Inr ()
          \<and> s_sent (snd (server_stream_event (streaming_env E) h (Stream sid (h, False) (Some OP_TEXT_STREAM)) ev u)) = s_sent u)"
proof -
  let ?q = "start_message (opcodes with_defaults) sid (Some OP_TEXT_STREAM)"
  note defaults = with_defaults_def Config_def ReservedOpcodes_defaults_def MessageLimitConfig_defaults_def
  have env: "se_sodium (streaming_env E) = se_sodium E" "se_fl (streaming_env E) = se_fl E"
      "se_stream (streaming_env E) 3 ref s = (Inr (), s)" for ref s
    by (simp_all add: streaming_env_def)
  have hs: "m_find (anon_stream_handlers s) OP_TEXT_STREAM = None" "s_incoming_stream_handler s = Some 3"
    using assms(6,7) by (simp_all add: streaming_server_def server_register_incoming_stream_handler_def
        server_register_stream_handler_def WsServerWrapper_def)
  have q: "?q = start_message (opcodes (s_config s)) sid (Some OP_TEXT_STREAM)"
      "STREAM_START (opcodes (s_config s)) \<noteq> RESPONSE (opcodes (s_config s))" "\<not> too_large (s_config s) ?q"
    unfolding assms(4) by (simp_all add: defaults too_large_def framed_params_def framed_def)
  obtain t where "server_on_message (streaming_env E) clk h True pkt s =
       catch_std (call_if (select_stream_handler (anon_stream_handlers s) (s_incoming_stream_handler s) (Some OP_TEXT_STREAM))
         (\<lambda>n. se_stream (streaming_env E) n (length (s_streams s))) t) (\<lambda>s. (Inr (), s))"
      "server_find_stream h sid t = Some (Stream sid (h, False) (Some OP_TEXT_STREAM))"
    using server_opens_stream [where E = "streaming_env E" and clk = clk, OF assms(1,2) _ q(1,3,2)] assms(3,5) env(1,2)
    by auto
  then have "server_on_message (streaming_env E) clk h True pkt s = (Inr (), t)"
      "server_find_stream h sid t = Some (Stream sid (h, False) (Some OP_TEXT_STREAM))"
    using hs env(3) by (simp_all add: select_stream_handler_def call_if_def)
  moreover have "fst (server_stream_event (streaming_env E) h (Stream sid (h, False) (Some OP_TEXT_STREAM)) ev u) = Inr ()
      \<and> s_sent (snd (server_stream_event (streaming_env E) h (Stream sid (h, False) (Some OP_TEXT_STREAM)) ev u)) = s_sent u" for ev u
    by (cases ev) (simp_all add: dispatch_data_def dispatch_end_def dispatch_cancel_def Stream_def)
  ultimately show ?thesis by blast
qed

section \<open>\<^verbatim>\<open>client_identity_example.cpp\<close>\<close>

definition OP_REGISTER_KEY :: OpCode where "OP_REGISTER_KEY = 0x7001"
definition OP_GREETING :: OpCode where "OP_GREETING = 0x7003"

text \<open>The handlers share the variable \<^verbatim>\<open>registered_key\<close>: the answer to a registration and the variable
  afterwards, and the check of an identity against it.\<close>

definition register_key_handler :: "payload_reader \<Rightarrow> public_key \<Rightarrow> payload result \<times> public_key" where
  "register_key_handler reader registered_key =
     (case fst (read_param_bytes reader) of
        Inl e \<Rightarrow> (Inl e, registered_key)
      | Inr pk_bytes \<Rightarrow>
          let new_key = PublicKey pk_bytes in
          if length (pk_data new_key) < 6
          then (build_chain (PayloadBuilder OP_REGISTER_KEY) [\<lambda>b. add_param_bool b False], registered_key)
          else (build_chain (PayloadBuilder OP_REGISTER_KEY) [\<lambda>b. add_param_bool b True], new_key))"

definition identity_check :: "public_key \<Rightarrow> public_key \<Rightarrow> bool" where
  "identity_check registered_key pk \<longleftrightarrow> length (pk_data registered_key) > 0 \<and> pk_data pk = pk_data registered_key"

definition greeting_handler :: "server_env \<Rightarrow> hdl \<Rightarrow> payload \<Rightarrow> server \<Rightarrow> unit result \<times> server" where
  "greeting_handler E h p s =
     (case get_client_identity h s of
        Inl e \<Rightarrow> (Inl e, s)
      | Inr client_pk \<Rightarrow>
          (case build_chain (PayloadBuilder OP_GREETING) [\<lambda>b. add_param_string b ''Hello, authenticated client!''] of
             Inl e \<Rightarrow> (Inl e, s)
           | Inr q \<Rightarrow> send_to_identity E client_pk q s))"

definition registration_request :: "key_pair \<Rightarrow> payload result" where
  "registration_request client_device_key =
     build_chain (PayloadBuilder OP_REGISTER_KEY) [\<lambda>b. add_param_bytes b (pk_data (publicKey client_device_key))]"

text \<open>The client's reading of the answer.\<close>

definition registration_succeeded :: "payload \<Rightarrow> bool result" where
  "registration_succeeded reg_response = fst (read_param_bool (PayloadReader reg_response))"

lemma build_chain_one:
  "fits x \<Longrightarrow> (\<And>b. add b = add_param b x) \<Longrightarrow> build_chain (PayloadBuilder op) [add] = Inr (framed_params op [x])"
  using build_chain_framed [of "[add]" "[x]" "PayloadBuilder op"] by (simp add: framed_params_def PayloadBuilder_def)

lemma read_one:
  assumes "fits x"
  shows "fst (read_param_at (type_of x) (PayloadReader (framed_params op [x]))) = Inr x"
  using read_param_at_framed [OF assms, of "[]" "[]"] by (simp add: PayloadReader_def framed_params_def)

text \<open>Registering a device key with a server that knows none succeeds, and from then on exactly the clients
  with that key are admitted; before it, nobody is.\<close>

theorem registration_admits_the_key:
  assumes "sodium_ok S" and "kp = generate_sign_keypair S rnd" and "registration_request kp = Inr q"
  shows "\<exists>answer. register_key_handler (PayloadReader q) (PublicKey []) = (Inr answer, publicKey kp)
     \<and> registration_succeeded answer = Inr True
     \<and> (\<forall>pk. \<not> identity_check (PublicKey []) pk \<and> (identity_check (publicKey kp) pk \<longleftrightarrow> pk = publicKey kp))"
proof -
  have len: "length (pk_data (publicKey kp)) = 32"
    using key_pair_ok_sizes [OF assms(1) generate_sign_keypair_ok [OF assms(1)]] assms(2) by auto
  then have "q = framed_params OP_REGISTER_KEY [P_bytes (pk_data (publicKey kp))]"
    using build_chain_one [of "P_bytes (pk_data (publicKey kp))"] assms(3) by (simp add: registration_request_def fits_def)
  then have "fst (read_param_bytes (PayloadReader q)) = Inr (pk_data (publicKey kp))"
    using read_one [of "P_bytes (pk_data (publicKey kp))" OP_REGISTER_KEY] len
    by (cases "fst (read_param_bytes (PayloadReader q))") (auto simp: map_fst_def fits_def split: prod.splits)
  moreover have "build_chain (PayloadBuilder OP_REGISTER_KEY) [\<lambda>b. add_param_bool b True] = Inr (framed_params OP_REGISTER_KEY [P_bool True])"
    by (rule build_chain_one) (simp_all add: fits_def)
  moreover have "registration_succeeded (framed_params OP_REGISTER_KEY [P_bool True]) = Inr True"
    using read_one [of "P_bool True" OP_REGISTER_KEY] unfolding registration_succeeded_def
    by (cases "fst (read_param_bool (PayloadReader (framed_params OP_REGISTER_KEY [P_bool True])))")
      (auto simp: map_fst_def fits_def split: prod.splits)
  ultimately show ?thesis
    using len by (auto simp: register_key_handler_def identity_check_def public_key.expand)
qed

text \<open>The greeting of an identified client is answered on its connection, unless a newer one has its identity.\<close>

lemma greeting_answered:
  assumes "links_ok s" and "sodium_ok (se_sodium E)" and "se_transport E (s_net_calls s) = None"
    and "lookup_session True h s = Some st" and "peer_identity (cs_session st) = Some pk"
    and "m_find (identity_to_hdl s) pk = Some h"
  shows "\<exists>t pkt. greeting_handler E h p s = (Inr (), t) \<and> s_sent t = s_sent s @ [(h, pkt)]"
proof -
  have "build_chain (PayloadBuilder OP_GREETING) [\<lambda>b. add_param_string b ''Hello, authenticated client!'']
      = Inr (framed_params OP_GREETING [P_string ''Hello, authenticated client!''])"
    by (rule build_chain_one) (simp_all add: fits_def bytes_of_string_def)
  moreover have "get_client_identity h s = Inr pk"
    using assms(4,5) by (simp add: get_client_identity_def lookup_session_def get_peer_identity_def)
  ultimately show ?thesis
    using send_to_identity_effect [OF assms(1-3,6)] by (fastforce simp: greeting_handler_def)
qed

section \<open>\<^verbatim>\<open>opcode_callbacks_example.cpp\<close>\<close>

definition OP_GET_STATUS :: OpCode where "OP_GET_STATUS = 0x5001"
definition OP_ECHO :: OpCode where "OP_ECHO = 0x5002"
definition OP_UNHANDLED :: OpCode where "OP_UNHANDLED = 0x5003"

text \<open>The callbacks 1 (status), 2 (echo) and 3 (default), with the counter \<^verbatim>\<open>server_messages_received\<close> beside the
  server; what throws in \<^verbatim>\<open>send\<close> does not count.\<close>

definition opcode_callback :: "server_env \<Rightarrow> nat \<Rightarrow> hdl \<Rightarrow> payload \<Rightarrow> int \<times> server \<Rightarrow> unit result \<times> int \<times> server" where
  "opcode_callback E n h p cs =
     (case cs of (seen, s) \<Rightarrow>
        let count = (\<lambda>x. case x of (Inl e, s) \<Rightarrow> (Inl e, seen, s) | (Inr _, s) \<Rightarrow> (Inr (), seen + 1, s)) in
        if n = 1
        then (case build_chain (PayloadBuilder 0x6001) [\<lambda>b. add_param_cstr b ''Server is OK''] of
                Inl e \<Rightarrow> (Inl e, seen, s)
              | Inr response \<Rightarrow> count (server_send E h response s))
        else if n = 2 then count (server_send E h p s)
        else count (Inr (), s))"

definition opcode_server :: "key_pair \<Rightarrow> server" where
  "opcode_server k =
     set_anon_default_payload_handler (Some 3)
       (register_anon_op_handler OP_ECHO (Some 2)
         (register_anon_op_handler OP_GET_STATUS (Some 1) (WsServerWrapper k with_defaults)))"

text \<open>Each of the three messages of the client has its callback, and every call that returns is counted.\<close>

lemma opcode_callbacks_selected:
  "select_handler (anon_request_handlers (opcode_server k)) (anon_op_code_handlers (opcode_server k))
     (anon_default_payload_handler (opcode_server k)) op =
   Op_handler (if op = OP_GET_STATUS then 1 else if op = OP_ECHO then 2 else 3)"
  by (simp add: select_handler_def opcode_server_def set_anon_default_payload_handler_def register_anon_op_handler_def
      WsServerWrapper_def OP_GET_STATUS_def OP_ECHO_def)

lemma opcode_callback_counts:
  "opcode_callback E n h p (seen, s) = (r, seen', t) \<Longrightarrow>
     seen' = seen + (case r of Inl _ \<Rightarrow> 0 | Inr _ \<Rightarrow> 1)"
  by (auto simp: opcode_callback_def Let_def split: if_splits sum.splits prod.splits)

section \<open>\<^verbatim>\<open>websocket_example.cpp\<close>\<close>

text \<open>\<^verbatim>\<open>print_payload\<close>: the parameters it prints (of unknown payloads their bytes, whose number is shown) and the
  error it reports, if any.\<close>

function print_rest :: "payload_reader \<Rightarrow> param list \<times> exn option" where
  "print_rest r =
     (if \<not> has_more r then ([], None)
      else case read_param_bytes r of
             (Inl e, _) \<Rightarrow> ([], Some e)
           | (Inr bytes, r') \<Rightarrow> (case print_rest r' of (ps, err) \<Rightarrow> (P_bytes bytes # ps, err)))"
  by pat_completeness auto

lemma read_param_bytes_advances:
  "read_param_bytes r = (Inr bs, r') \<Longrightarrow> params_data r' = params_data r \<and> offset r < offset r'"
  by (auto simp: read_param_bytes_def Let_def split: if_splits)

termination print_rest
  by (relation "measure (\<lambda>r. length (params_data r) - offset r)")
    (auto simp: has_more_def dest!: read_param_bytes_advances [OF sym])

declare print_rest.simps [simp del]

fun print_params :: "ptype list \<Rightarrow> payload_reader \<Rightarrow> param list \<times> exn option" where
  "print_params [] r = ([], None)"
| "print_params (t # ts) r =
     (case read_param_at t r of
        (Inl e, _) \<Rightarrow> ([], Some e)
      | (Inr x, r') \<Rightarrow> (case print_params ts r' of (xs, err) \<Rightarrow> (x # xs, err)))"

definition print_payload :: "payload \<Rightarrow> param list \<times> exn option" where
  "print_payload p =
     (let reader = PayloadReader p in
      if op_code p = 0x1001 then print_params [T_string, T_string, T_uint32] reader
      else if op_code p = 0x2002 then print_params [T_string] reader
      else print_rest reader)"

text \<open>The server's default callback; the client's message.\<close>

definition websocket_default_handler :: "server_env \<Rightarrow> hdl \<Rightarrow> payload \<Rightarrow> server \<Rightarrow> unit result \<times> server" where
  "websocket_default_handler E h p s =
     (case build_chain (PayloadBuilder 0x2002) [\<lambda>b. add_param_cstr b ''Hello from server!''] of
        Inl e \<Rightarrow> (Inl e, s)
      | Inr reply \<Rightarrow> server_send E h reply s)"

definition websocket_login :: "payload result" where
  "websocket_login = build_chain (PayloadBuilder 0x1001)
     [\<lambda>b. add_param_cstr b ''my_username'', \<lambda>b. add_param_cstr b ''my_password'', \<lambda>b. add_param_uint32 b 3]"

lemma print_params_read: "read_params ts r = (Inr xs, r') \<Longrightarrow> print_params ts r = (xs, None)"
proof (induction ts arbitrary: r xs r')
  case (Cons t ts)
  obtain y r1 where t: "read_param_at t r = (y, r1)" by fastforce
  obtain z r2 where ts: "read_params ts r1 = (z, r2)" by fastforce
  show ?case
    using Cons.prems Cons.IH [of r1 _ r2] t ts by (cases y; cases z) (auto simp: map_fst_def)
qed simp

text \<open>What the server prints of the client's message is what the client put in, and an unknown payload built
  from byte vectors is printed in full, too.\<close>

lemma login_printed:
  assumes "websocket_login = Inr p"
  shows "print_payload p = ([P_string ''my_username'', P_string ''my_password'', P_uint32 3], None)"
proof -
  let ?xs = "[P_string ''my_username'', P_string ''my_password'', P_uint32 3]"
  have fit: "list_all fits ?xs" by (simp add: fits_def bytes_of_string_def)
  have "websocket_login = Inr (framed_params 0x1001 ?xs)"
    unfolding websocket_login_def
    by (subst build_chain_framed [of _ ?xs])
      (simp_all add: framed_params_def PayloadBuilder_def fits_def add_param_cstr_def bytes_of_string_def)
  then have "p = framed_params 0x1001 ?xs" using assms by (metis sum.inject(2))
  moreover obtain r where "read_params [T_string, T_string, T_uint32] (PayloadReader (framed_params 0x1001 ?xs)) = (Inr ?xs, r)"
    using framed_params_read [OF fit, of "0x1001"] by auto
  ultimately show ?thesis
    unfolding print_payload_def by (simp only: op_code_framed Let_def if_True simp_thms print_params_read)
qed

lemma print_rest_framed:
  "list_all (\<lambda>bs. length bs \<le> 65535) bss \<Longrightarrow>
     print_rest \<lparr>params_data = pre @ concat (map framed bss), offset = length pre\<rparr> = (map P_bytes bss, None)"
proof (induction bss arbitrary: pre)
  case Nil
  then show ?case by (simp add: print_rest.simps has_more_def)
next
  case (Cons bs bss)
  show ?case
    using Cons.IH [of "pre @ framed bs"] Cons.prems read_param_bytes_framed [of bs pre "concat (map framed bss)"]
    by (subst print_rest.simps) (simp add: has_more_def add.assoc)
qed

end
