(* ===== verification/Messages.thy ===== *)
theory Messages
  imports ServerInitiated
begin

text \<open>
  Messages without a response, end to end: what \<^verbatim>\<open>send\<close> of one side sends is what the opcode handler, or the
  default one, of the other side is called with.
\<close>

section \<open>Either direction\<close>

lemma client_message_reaches_handler:
  assumes sodium: "sodium_ok (ce_sodium CE)" "se_sodium SE = ce_sodium CE"
    and look: "session_of h s = Some (auth, st)" and conn: "is_connected c" and step: "in_step (c_session c) (cs_session st)"
    and left: "counters_left (c_session c)" and net: "ce_transport CE (c_net_calls c) = None"
    and p: "\<not> too_large (c_config c) p" "\<not> too_large (s_config s) p"
      "op_code p \<noteq> RESPONSE (opcodes (s_config s))" "\<not> is_stream_op (opcodes (s_config s)) (op_code p)"
    and rate: "rl_enabled (rate_limit (s_config s)) \<longrightarrow>
      fst (check_message_rate (se_fl SE) (us (clk 0)) (rate_limiter_id st) (s_rate_limiter s))"
    and handler: "(if auth then select_handler (s_request_handlers s) (s_op_code_handlers s) (s_default_payload_handler s) (op_code p)
      else select_handler (anon_request_handlers s) (anon_op_code_handlers s) (anon_default_payload_handler s) (op_code p)) = Op_handler n"
  shows "\<exists>c1 f t st'. client_send CE p c = (Inr (), c1) \<and> c_sent c1 = c_sent c @ [f]
     \<and> server_on_message SE clk h True f s = catch_std (se_payload SE n h p t) (\<lambda>s. (Inr (), s))
     \<and> undisturbed s t \<and> s_sent t = s_sent s \<and> s_net_calls t = s_net_calls s
     \<and> session_of h t = Some (auth, st') \<and> in_step (c_session c1) (cs_session st')
     \<and> send_counter (cs_session st') = send_counter (cs_session st) \<and> peer_identity (cs_session st') = peer_identity (cs_session st)"
proof -
  let ?sess = "(cs_session st)\<lparr>recv_counter := send_counter (c_session c) + 1\<rparr>"
  obtain f c1 where c1: "client_send CE p c = (Inr (), c1)" "c_sent c1 = c_sent c @ [f]"
      "decrypt_packet (se_sodium SE) f (cs_session st) = (Inr p, ?sess)" "in_step (c_session c1) ?sess"
    using client_send_passes [OF sodium(1) step left conn p(1) net] sodium(2) by auto
  obtain t st' where t: "server_on_message SE clk h True f s = server_on_payload SE auth h p t"
      "session_of h t = Some (auth, st')" "cs_session st' = ?sess" "undisturbed s t" "s_sent t = s_sent s" "s_net_calls t = s_net_calls s"
    using server_takes [where clk = clk, OF look _ c1(3) p(2) rate] in_step_complete [OF step] by blast
  have "server_on_payload SE auth h p t = catch_std (se_payload SE n h p t) (\<lambda>s. (Inr (), s))"
    using handler p(3,4) undisturbed_fields [OF t(4)]
    by (auto simp: server_on_payload_def server_dispatch_payload_def split: if_splits)
  then show ?thesis using c1(1,2,4) t by (intro exI [of _ c1] exI [of _ f] exI [of _ t] exI [of _ st']) simp
qed

lemma server_message_reaches_handler:
  assumes sodium: "sodium_ok (se_sodium SE)" "ce_sodium CE = se_sodium SE"
    and look: "session_of h s = Some (auth, st)" and step: "in_step (c_session c) (cs_session st)"
    and left: "counters_left (cs_session st)" and net: "se_transport SE (s_net_calls s) = None"
    and p: "\<not> too_large (c_config c) p" "op_code p \<noteq> RESPONSE (opcodes (c_config c))" "\<not> is_stream_op (opcodes (c_config c)) (op_code p)"
    and handler: "select_handler (c_request_handlers c) (c_op_code_handlers c) (c_default_payload_handler c) (op_code p) = Op_handler n"
  shows "\<exists>s1 f st' d. server_send SE h p s = (Inr (), s1) \<and> s_sent s1 = s_sent s @ [(h, f)] \<and> undisturbed s s1
     \<and> client_on_message CE True f c = catch_std (ce_payload CE n p d) (client_disconnect True)
     \<and> d = c\<lparr>c_session := c_session d\<rparr>
     \<and> session_of h s1 = Some (auth, st') \<and> in_step (c_session d) (cs_session st')"
proof -
  let ?d = "c\<lparr>c_session := (c_session c)\<lparr>recv_counter := send_counter (cs_session st) + 1\<rparr>\<rparr>"
  obtain f s1 st' where s1: "server_send SE h p s = (Inr (), s1)" "s_sent s1 = s_sent s @ [(h, f)]" "undisturbed s s1"
      "decrypt_packet (se_sodium SE) f (c_session c) = (Inr p, c_session ?d)" "session_of h s1 = Some (auth, st')"
      "in_step (cs_session st') (c_session ?d)"
    using server_send_passes [OF sodium(1) look in_step_sym [OF step] left net, of p] by auto
  have "client_on_message CE True f c = catch_std (client_on_payload CE p ?d) (client_disconnect True)"
    using client_takes [of c CE f p "c_session ?d"] in_step_complete [OF step] s1(4) sodium(2) by simp
  moreover have "client_on_payload CE p ?d = ce_payload CE n p ?d"
    using p handler by (simp add: client_on_payload_def client_dispatch_payload_def)
  ultimately show ?thesis
    using s1(1,2,3,5) in_step_sym [OF s1(6)] by (intro exI [of _ s1] exI [of _ f] exI [of _ st'] exI [of _ ?d]) simp
qed

text \<open>C19: messages without a response reach their handlers, in both directions. Take a client and its session on
  the server in step, under an identity or anonymous, and a payload within the limits of both whose opcode is
  not reserved and is handled, by an opcode handler or the default one, on the receiving side. \<^verbatim>\<open>send\<close> of the
  client returns and sends one frame, on which the server's message handler calls exactly that handler
  with exactly that payload, the server being as it was but for the session and the rate limiter; and
  \<^verbatim>\<open>send\<close> of the server sends one frame to that client, whose message handler calls exactly the client's.\<close>

theorem messages_reach_handlers:
  assumes sodium: "sodium_ok (ce_sodium CE)" "se_sodium SE = ce_sodium CE"
    and look: "session_of h s = Some (auth, st)" and conn: "is_connected c" and step: "in_step (c_session c) (cs_session st)"
    and left: "counters_left (c_session c)" "counters_left (cs_session st)"
    and net: "ce_transport CE (c_net_calls c) = None" "se_transport SE (s_net_calls s) = None"
    and p: "\<not> too_large (c_config c) p" "\<not> too_large (s_config s) p"
      "op_code p \<noteq> RESPONSE (opcodes (s_config s))" "\<not> is_stream_op (opcodes (s_config s)) (op_code p)"
      "op_code p \<noteq> RESPONSE (opcodes (c_config c))" "\<not> is_stream_op (opcodes (c_config c)) (op_code p)"
    and rate: "rl_enabled (rate_limit (s_config s)) \<longrightarrow>
      fst (check_message_rate (se_fl SE) (us (clk 0)) (rate_limiter_id st) (s_rate_limiter s))"
    and srv: "(if auth then select_handler (s_request_handlers s) (s_op_code_handlers s) (s_default_payload_handler s) (op_code p)
      else select_handler (anon_request_handlers s) (anon_op_code_handlers s) (anon_default_payload_handler s) (op_code p)) = Op_handler n"
    and cli: "select_handler (c_request_handlers c) (c_op_code_handlers c) (c_default_payload_handler c) (op_code p) = Op_handler m"
  shows "(\<exists>c1 f t st'. client_send CE p c = (Inr (), c1) \<and> c_sent c1 = c_sent c @ [f]
       \<and> server_on_message SE clk h True f s = catch_std (se_payload SE n h p t) (\<lambda>s. (Inr (), s))
       \<and> undisturbed s t \<and> s_sent t = s_sent s
       \<and> session_of h t = Some (auth, st') \<and> in_step (c_session c1) (cs_session st'))
    \<and> (\<exists>s1 f st' d. server_send SE h p s = (Inr (), s1) \<and> s_sent s1 = s_sent s @ [(h, f)] \<and> undisturbed s s1
       \<and> client_on_message CE True f c = catch_std (ce_payload CE m p d) (client_disconnect True)
       \<and> d = c\<lparr>c_session := c_session d\<rparr>
       \<and> session_of h s1 = Some (auth, st') \<and> in_step (c_session d) (cs_session st'))"
proof -
  have "sodium_ok (se_sodium SE)" "ce_sodium CE = se_sodium SE" using sodium by simp_all
  then show ?thesis
    using client_message_reaches_handler [where clk = clk, OF sodium look conn step left(1) net(1) p(1-4) rate srv]
      server_message_reaches_handler [OF _ _ look step left(2) net(2) p(1,5,6) cli] by blast
qed

theorem messages_reach_handlers_witness:
  "\<exists>c1 f t. client_send idle_env sample_payload (client_set_default_payload_handler (Some 4) demo_c2) = (Inr (), c1)
     \<and> c_sent c1 = c_sent demo_c2 @ [f]
     \<and> server_on_message idle_server_env sample_clock 0 True f (demo_s1\<lparr>anon_request_handlers := [], anon_default_payload_handler := Some 5\<rparr>)
         = catch_std (se_payload idle_server_env 5 0 sample_payload t) (\<lambda>s. (Inr (), s))"
proof -
  let ?s = "demo_s1\<lparr>anon_request_handlers := [], anon_default_payload_handler := Some 5\<rparr>"
  let ?c = "client_set_default_payload_handler (Some 4) demo_c2"
  obtain st where st: "session_of 0 demo_s1 = Some (False, st)" "in_step (c_session demo_c2) (cs_session st)"
      "counters_left (c_session demo_c2)" "counters_left (cs_session st)"
    using demo_session by blast
  have look: "session_of 0 ?s = Some (False, st)"
    using st(1) session_of_cong [of ?s demo_s1 0] by simp
  have c: "c_session ?c = c_session demo_c2" "is_connected ?c" "c_config ?c = with_defaults" "c_sent ?c = c_sent demo_c2"
    using demo_connected demo_config by (simp_all add: client_set_default_payload_handler_def)
  have handlers: "select_handler [] (anon_op_code_handlers demo_s1) (Some 5) 0x1234 = Op_handler 5"
      "select_handler (c_request_handlers ?c) (c_op_code_handlers ?c) (Some 4) 0x1234 = Op_handler 4"
    by code_simp+
  show ?thesis
    using messages_reach_handlers [where CE = idle_env and SE = idle_server_env and clk = sample_clock and h = 0 and p = sample_payload
        and n = 5 and m = 4, OF _ _ look c(2), unfolded c(1)] st(2-4) handlers
    by (force simp: demo_defaults c idle_env_def idle_server_env_def model_sodium_ok too_large_def is_stream_op_def
        sample_payload_def client_set_default_payload_handler_def)
qed

text \<open>A message whose handler on the server answers with a message of its own, which the client handles.\<close>

lemma message_answered:
  assumes sodium: "sodium_ok (ce_sodium CE)" "se_sodium SE' = ce_sodium CE" "se_sodium SE = ce_sodium CE"
    and look: "session_of h s = Some (auth, st)" and conn: "is_connected c" and step: "in_step (c_session c) (cs_session st)"
    and left: "counters_left (c_session c)" "counters_left (cs_session st)"
    and net: "ce_transport CE (c_net_calls c) = None" "se_transport SE (s_net_calls s) = None"
    and p: "\<not> too_large (c_config c) p" "\<not> too_large (s_config s) p"
      "op_code p \<noteq> RESPONSE (opcodes (s_config s))" "\<not> is_stream_op (opcodes (s_config s)) (op_code p)"
    and r: "\<not> too_large (c_config c) r" "op_code r \<noteq> RESPONSE (opcodes (c_config c))"
      "\<not> is_stream_op (opcodes (c_config c)) (op_code r)"
    and rate: "rl_enabled (rate_limit (s_config s)) \<longrightarrow>
      fst (check_message_rate (se_fl SE') (us (clk 0)) (rate_limiter_id st) (s_rate_limiter s))"
    and srv: "(if auth then select_handler (s_request_handlers s) (s_op_code_handlers s) (s_default_payload_handler s) (op_code p)
      else select_handler (anon_request_handlers s) (anon_op_code_handlers s) (anon_default_payload_handler s) (op_code p)) = Op_handler n"
    and cli: "select_handler (c_request_handlers c) (c_op_code_handlers c) (c_default_payload_handler c) (op_code r) = Op_handler m"
    and call: "\<And>t st'. undisturbed s t \<Longrightarrow> session_of h t = Some (auth, st') \<Longrightarrow>
      peer_identity (cs_session st') = peer_identity (cs_session st) \<Longrightarrow> se_payload SE' n h p t = server_send SE h r t"
  shows "\<exists>c1 f1 s1 f2 d st'. client_send CE p c = (Inr (), c1) \<and> c_sent c1 = c_sent c @ [f1]
     \<and> server_on_message SE' clk h True f1 s = (Inr (), s1) \<and> s_sent s1 = s_sent s @ [(h, f2)]
     \<and> client_on_message CE True f2 c1 = catch_std (ce_payload CE m r d) (client_disconnect True)
     \<and> d = c1\<lparr>c_session := c_session d\<rparr>
     \<and> session_of h s1 = Some (auth, st') \<and> in_step (c_session d) (cs_session st')"
proof -
  obtain c1 f1 t st1 where t: "client_send CE p c = (Inr (), c1)" "c_sent c1 = c_sent c @ [f1]"
      "server_on_message SE' clk h True f1 s = catch_std (se_payload SE' n h p t) (\<lambda>s. (Inr (), s))"
      "undisturbed s t" "s_sent t = s_sent s" "s_net_calls t = s_net_calls s" "session_of h t = Some (auth, st1)"
      "in_step (c_session c1) (cs_session st1)" "send_counter (cs_session st1) = send_counter (cs_session st)"
      "peer_identity (cs_session st1) = peer_identity (cs_session st)"
    using client_message_reaches_handler [where clk = clk, OF sodium(1,2) look conn step left(1) net(1) p rate srv] by blast
  have c1: "c_config c1 = c_config c" "c_request_handlers c1 = c_request_handlers c" "c_op_code_handlers c1 = c_op_code_handlers c"
      "c_default_payload_handler c1 = c_default_payload_handler c"
    using t(1) by (auto simp: client_send_unfold split: prod.splits sum.splits option.splits if_splits)
  have rest: "counters_left (cs_session st1)" "se_transport SE (s_net_calls t) = None" "ce_sodium CE = se_sodium SE"
      "sodium_ok (se_sodium SE)"
    using t(6,9) left(2) net(2) sodium by (simp_all add: counters_left_def)
  have out: "\<not> too_large (c_config c1) r" "op_code r \<noteq> RESPONSE (opcodes (c_config c1))"
      "\<not> is_stream_op (opcodes (c_config c1)) (op_code r)"
      "select_handler (c_request_handlers c1) (c_op_code_handlers c1) (c_default_payload_handler c1) (op_code r) = Op_handler m"
    using r cli c1 by simp_all
  from server_message_reaches_handler [OF rest(4,3) t(7,8) rest(1,2) out]
  obtain s1 f2 st2 d where "server_send SE h r t = (Inr (), s1)" "s_sent s1 = s_sent t @ [(h, f2)]"
      "client_on_message CE True f2 c1 = catch_std (ce_payload CE m r d) (client_disconnect True)"
      "d = c1\<lparr>c_session := c_session d\<rparr>" "session_of h s1 = Some (auth, st2)" "in_step (c_session d) (cs_session st2)"
    by blast
  then show ?thesis
    using t(1-3,5) call [OF t(4,7,10)] by (intro exI [of _ c1] exI [of _ f1] exI [of _ s1] exI [of _ f2] exI [of _ d] exI [of _ st2]) simp
qed

end
