(* ===== verification/ExampleRuns.thy ===== *)
theory ExampleRuns
  imports Examples Messages
begin

text \<open>
  The clients of \<^verbatim>\<open>src/examples\<close> and what passes between them and their servers once they are connected: the
  set-up of either side, the callbacks of the clients, and for each program the messages exchanged and
  what is printed of them. \<^verbatim>\<open>basic_encryption_example\<close> and \<^verbatim>\<open>request_response_example\<close> are in \<^verbatim>\<open>Examples\<close>.
\<close>

section \<open>Set-up of the clients and servers\<close>

text \<open>What the client of every example knows of the server's key.\<close>

definition client_view :: "key_pair \<Rightarrow> key_pair" where
  "client_view server_key = \<lparr>publicKey = publicKey server_key, privateKey = PrivateKey []\<rparr>"

definition websocket_server :: "key_pair \<Rightarrow> server" where
  "websocket_server k = set_anon_default_payload_handler (Some 1) (WsServerWrapper k with_defaults)"

definition websocket_env :: "server_env \<Rightarrow> server_env" where
  "websocket_env E = E\<lparr>se_payload := \<lambda>n. websocket_default_handler E\<rparr>"

definition websocket_client :: "key_pair \<Rightarrow> client" where
  "websocket_client k =
     set_on_disconnect_callback (Some 1)
       (client_register_op_handler 0x2002 (Some 1) (set_on_ready_callback (Some 1) (WsClientWrapper (client_view k) with_defaults)))"

text \<open>The callbacks of the opcode example with the counter as it is when they are called.\<close>

definition opcode_env :: "int \<Rightarrow> server_env \<Rightarrow> server_env" where
  "opcode_env seen E = E\<lparr>se_payload := \<lambda>n h p s. case opcode_callback E n h p (seen, s) of (r, _, s) \<Rightarrow> (r, s)\<rparr>"

definition opcode_client :: "key_pair \<Rightarrow> client" where
  "opcode_client k =
     client_set_default_payload_handler (Some 1) (set_on_ready_callback (Some 1) (WsClientWrapper (client_view k) with_defaults))"

definition opcode_messages :: "payload result list" where
  "opcode_messages =
     [build_chain (PayloadBuilder OP_GET_STATUS) [], build_chain (PayloadBuilder OP_ECHO) [\<lambda>b. add_param_cstr b ''echo this!''],
      build_chain (PayloadBuilder OP_UNHANDLED) []]"

text \<open>The identity example: the server, its callbacks with the registered key as it is when they are called, and
  its two clients; the second sends its greeting from the ready callback.\<close>

definition identity_server :: "key_pair \<Rightarrow> server" where
  "identity_server k =
     server_register_op_handler OP_GREETING (Some 1)
       (set_client_identity_handler (Some 1)
         (register_anon_request_handler OP_REGISTER_KEY (Some 1) (WsServerWrapper k with_defaults)))"

definition identity_env :: "public_key \<Rightarrow> server_env \<Rightarrow> server_env" where
  "identity_env registered_key E =
     E\<lparr>se_request := \<lambda>n h reader s. (fst (register_key_handler reader registered_key), s),
       se_identity := \<lambda>n h pk s. (Inr (identity_check registered_key pk), s),
       se_payload := \<lambda>n. greeting_handler E\<rparr>"

definition anon_client :: "key_pair \<Rightarrow> client" where
  "anon_client k = set_on_ready_callback (Some 1) (WsClientWrapper (client_view k) with_defaults)"

definition send_greeting :: "client_env \<Rightarrow> client \<Rightarrow> unit result \<times> client" where
  "send_greeting E c =
     (case build_chain (PayloadBuilder OP_GREETING) [] of Inl e \<Rightarrow> (Inl e, c) | Inr p \<Rightarrow> client_send E p c)"

definition auth_client :: "key_pair \<Rightarrow> key_pair \<Rightarrow> client" where
  "auth_client k client_device_key =
     client_register_op_handler OP_GREETING (Some 1)
       (set_on_ready_callback (Some 1)
         (set_client_identity client_device_key (WsClientWrapper (client_view k) with_defaults)))"

section \<open>The conversations\<close>

lemmas default_limits = with_defaults_def Config_def ReservedOpcodes_defaults_def MessageLimitConfig_defaults_def
  too_large_def is_stream_op_def

lemma build_nil: "fst (build (PayloadBuilder op)) = framed_params op []"
  by (simp add: framed_params_def PayloadBuilder_def build_def)

text \<open>\<^verbatim>\<open>websocket_example\<close>: a connected client and server with the handlers of the example exchange the login and its
  answer, and either side prints what the other put in.\<close>

theorem websocket_example_answers:
  assumes "sodium_ok (ce_sodium CE)" and "se_sodium SE = ce_sodium CE"
    and "session_of h s = Some (False, st)" "is_connected c" "in_step (c_session c) (cs_session st)"
    and "counters_left (c_session c)" "counters_left (cs_session st)"
    and "ce_transport CE (c_net_calls c) = None" "se_transport SE (s_net_calls s) = None"
    and "c_config c = with_defaults" "s_config s = with_defaults"
    and "fst (check_message_rate (se_fl SE) (us (clk 0)) (rate_limiter_id st) (s_rate_limiter s))"
    and "anon_request_handlers s = anon_request_handlers (websocket_server k)"
      "anon_op_code_handlers s = anon_op_code_handlers (websocket_server k)"
      "anon_default_payload_handler s = anon_default_payload_handler (websocket_server k)"
    and "c_request_handlers c = c_request_handlers (websocket_client k)"
      "c_op_code_handlers c = c_op_code_handlers (websocket_client k)"
  shows "\<exists>p c1 f1 s1 f2 reply d. websocket_login = Inr p \<and> client_send CE p c = (Inr (), c1) \<and> c_sent c1 = c_sent c @ [f1]
     \<and> print_payload p = ([P_string ''my_username'', P_string ''my_password'', P_uint32 3], None)
     \<and> server_on_message (websocket_env SE) clk h True f1 s = (Inr (), s1) \<and> s_sent s1 = s_sent s @ [(h, f2)]
     \<and> client_on_message CE True f2 c1 = catch_std (ce_payload CE 1 reply d) (client_disconnect True)
     \<and> print_payload reply = ([P_string ''Hello from server!''], None)"
proof -
  let ?r = "framed_params 0x2002 [P_string ''Hello from server!'']"
  let ?xs = "[P_string ''my_username'', P_string ''my_password'', P_uint32 3]"
  have login: "websocket_login = Inr (framed_params 0x1001 ?xs)"
    unfolding websocket_login_def
    by (subst build_chain_framed [of _ ?xs])
      (simp_all add: framed_params_def PayloadBuilder_def fits_def add_param_cstr_def bytes_of_string_def)
  have reply: "build_chain (PayloadBuilder 0x2002) [\<lambda>b. add_param_cstr b ''Hello from server!''] = Inr ?r"
    by (rule build_chain_one) (simp_all add: fits_def bytes_of_string_def add_param_cstr_def)
  have env: "se_sodium (websocket_env SE) = ce_sodium CE" "se_fl (websocket_env SE) = se_fl SE"
      "se_payload (websocket_env SE) n h p t = server_send SE h ?r t" for n p t
    using assms(2) reply by (simp_all add: websocket_env_def websocket_default_handler_def)
  have handlers: "select_handler (anon_request_handlers s) (anon_op_code_handlers s) (anon_default_payload_handler s) 0x1001 = Op_handler 1"
      "select_handler (c_request_handlers c) (c_op_code_handlers c) (c_default_payload_handler c) 0x2002 = Op_handler 1"
    by (simp_all add: assms(13-17) select_handler_def websocket_server_def websocket_client_def set_anon_default_payload_handler_def
        WsServerWrapper_def client_register_op_handler_def set_on_disconnect_callback_def set_on_ready_callback_def WsClientWrapper_def)
  have printed: "print_payload ?r = ([P_string ''Hello from server!''], None)"
  proof -
    obtain rest where "read_params [T_string] (PayloadReader ?r) = (Inr [P_string ''Hello from server!''], rest)"
      using framed_params_read [of "[P_string ''Hello from server!'']" "0x2002"] by (auto simp: fits_def bytes_of_string_def)
    moreover have "print_payload ?r = print_params [T_string] (PayloadReader ?r)"
      by (simp add: print_payload_def del: print_params.simps)
    ultimately show ?thesis using print_params_read by metis
  qed
  show ?thesis
    using message_answered [where p = "framed_params 0x1001 ?xs" and r = ?r and n = 1 and m = 1 and clk = clk,
        OF assms(1) env(1) assms(2-9)] assms(10-12) handlers env login_printed [OF login] printed login
    by (force simp: default_limits framed_params_def framed_def bytes_of_string_def)
qed

text \<open>\<^verbatim>\<open>opcode_callbacks_example\<close>: the request of the status and the echo are answered, and counted.\<close>

theorem opcode_example_answers:
  assumes "sodium_ok (ce_sodium CE)" and "se_sodium SE = ce_sodium CE"
    and "session_of h s = Some (False, st)" "is_connected c" "in_step (c_session c) (cs_session st)"
    and "counters_left (c_session c)" "counters_left (cs_session st)"
    and "ce_transport CE (c_net_calls c) = None" "se_transport SE (s_net_calls s) = None"
    and "c_config c = with_defaults" "s_config s = with_defaults"
    and "fst (check_message_rate (se_fl SE) (us (clk 0)) (rate_limiter_id st) (s_rate_limiter s))"
    and "anon_request_handlers s = anon_request_handlers (opcode_server k)"
      "anon_op_code_handlers s = anon_op_code_handlers (opcode_server k)"
      "anon_default_payload_handler s = anon_default_payload_handler (opcode_server k)"
    and "c_request_handlers c = c_request_handlers (opcode_client k)" "c_op_code_handlers c = c_op_code_handlers (opcode_client k)"
      "c_default_payload_handler c = c_default_payload_handler (opcode_client k)"
    and pr: "(p, r) \<in> {(framed_params OP_GET_STATUS [], framed_params 0x6001 [P_string ''Server is OK'']),
      (framed_params OP_ECHO [P_string ''echo this!''], framed_params OP_ECHO [P_string ''echo this!''])}"
  shows "\<exists>c1 f1 s1 f2 d. Inr p \<in> set opcode_messages \<and> client_send CE p c = (Inr (), c1) \<and> c_sent c1 = c_sent c @ [f1]
     \<and> server_on_message (opcode_env seen SE) clk h True f1 s = (Inr (), s1) \<and> s_sent s1 = s_sent s @ [(h, f2)]
     \<and> client_on_message CE True f2 c1 = catch_std (ce_payload CE 1 r d) (client_disconnect True)"
proof -
  define n :: nat where "n = (if op_code p = OP_GET_STATUS then 1 else 2)"
  have status: "build_chain (PayloadBuilder 0x6001) [\<lambda>b. add_param_cstr b ''Server is OK''] = Inr (framed_params 0x6001 [P_string ''Server is OK''])"
    and echo: "build_chain (PayloadBuilder OP_ECHO) [\<lambda>b. add_param_cstr b ''echo this!''] = Inr (framed_params OP_ECHO [P_string ''echo this!''])"
    by (rule build_chain_one; simp add: fits_def bytes_of_string_def add_param_cstr_def)+
  have ops: "OP_GET_STATUS \<noteq> OP_ECHO" by (simp add: OP_GET_STATUS_def OP_ECHO_def)
  have env: "se_sodium (opcode_env seen SE) = ce_sodium CE" "se_fl (opcode_env seen SE) = se_fl SE"
    using assms(2) by (simp_all add: opcode_env_def)
  have "se_payload (opcode_env seen SE) n h p t = server_send SE h r t" for t
    using pr status ops by (cases "server_send SE h r t"; cases "fst (server_send SE h r t)")
      (auto simp: opcode_env_def opcode_callback_def n_def Let_def)
  moreover have "select_handler (anon_request_handlers s) (anon_op_code_handlers s) (anon_default_payload_handler s) (op_code p) = Op_handler n"
    using pr ops unfolding assms(13-15) opcode_callbacks_selected by (auto simp: n_def)
  moreover have "select_handler (c_request_handlers c) (c_op_code_handlers c) (c_default_payload_handler c) (op_code r) = Op_handler 1"
    by (simp add: assms(16-18) select_handler_def opcode_client_def client_set_default_payload_handler_def
        set_on_ready_callback_def WsClientWrapper_def)
  moreover have "Inr p \<in> set opcode_messages"
    using pr echo by (auto simp del: build_chain.simps(2) simp: opcode_messages_def build_nil)
  ultimately show ?thesis
    using message_answered [where p = p and r = r and n = n and m = 1 and clk = clk, OF assms(1) env(1) assms(2-9)] assms(10-12) env(2) pr
    by (force simp: default_limits framed_params_def framed_def bytes_of_string_def OP_GET_STATUS_def OP_ECHO_def)
qed

text \<open>\<^verbatim>\<open>client_identity_example\<close>: the greeting that the second client sends once it is ready is answered to it, and to
  nobody else, by the text it prints.\<close>

theorem identity_example_greets:
  assumes "sodium_ok (ce_sodium CE)" and "se_sodium SE = ce_sodium CE"
    and "session_of h s = Some (True, st)" "is_connected c" "in_step (c_session c) (cs_session st)"
    and "counters_left (c_session c)" "counters_left (cs_session st)"
    and "ce_transport CE (c_net_calls c) = None" "se_transport SE (s_net_calls s) = None"
    and "c_config c = with_defaults" "s_config s = with_defaults"
    and "fst (check_message_rate (se_fl SE) (us (clk 0)) (rate_limiter_id st) (s_rate_limiter s))"
    and "peer_identity (cs_session st) = Some (publicKey kp)" "m_find (identity_to_hdl s) (publicKey kp) = Some h"
    and "s_request_handlers s = s_request_handlers (identity_server k)" "s_op_code_handlers s = s_op_code_handlers (identity_server k)"
    and "c_request_handlers c = c_request_handlers (auth_client k kp)" "c_op_code_handlers c = c_op_code_handlers (auth_client k kp)"
  shows "\<exists>c1 f1 s1 f2 reply d. send_greeting CE c = (Inr (), c1) \<and> c_sent c1 = c_sent c @ [f1]
     \<and> server_on_message (identity_env registered_key SE) clk h True f1 s = (Inr (), s1) \<and> s_sent s1 = s_sent s @ [(h, f2)]
     \<and> client_on_message CE True f2 c1 = catch_std (ce_payload CE 1 reply d) (client_disconnect True)
     \<and> fst (read_param_string (PayloadReader reply)) = Inr ''Hello, authenticated client!''"
proof -
  let ?r = "framed_params OP_GREETING [P_string ''Hello, authenticated client!'']"
  have reply: "build_chain (PayloadBuilder OP_GREETING) [\<lambda>b. add_param_string b ''Hello, authenticated client!''] = Inr ?r"
    by (rule build_chain_one) (simp_all add: fits_def bytes_of_string_def)
  have env: "se_sodium (identity_env registered_key SE) = ce_sodium CE" "se_fl (identity_env registered_key SE) = se_fl SE"
    using assms(2) by (simp_all add: identity_env_def)
  have call: "se_payload (identity_env registered_key SE) 1 h p t = server_send SE h ?r t"
    if "undisturbed s t" "session_of h t = Some (True, st')" "peer_identity (cs_session st') = peer_identity (cs_session st)" for p t st'
  proof -
    have "get_client_identity h t = Inr (publicKey kp)"
      using that(2,3) assms(13) by (auto simp: get_client_identity_def session_of_def lookup_session_def get_peer_identity_def
          split: option.splits)
    moreover have "m_find (identity_to_hdl t) (publicKey kp) = Some h" using undisturbed_fields [OF that(1)] assms(14) by simp
    ultimately show ?thesis using reply by (simp add: identity_env_def greeting_handler_def send_to_identity_def)
  qed
  have handlers: "select_handler (s_request_handlers s) (s_op_code_handlers s) (s_default_payload_handler s) OP_GREETING = Op_handler 1"
      "select_handler (c_request_handlers c) (c_op_code_handlers c) (c_default_payload_handler c) OP_GREETING = Op_handler 1"
    by (simp_all add: assms(15-18) select_handler_def identity_server_def auth_client_def server_register_op_handler_def
        set_client_identity_handler_def register_anon_request_handler_def WsServerWrapper_def client_register_op_handler_def
        set_on_ready_callback_def set_client_identity_def WsClientWrapper_def)
  have sent: "send_greeting CE c = client_send CE (framed_params OP_GREETING []) c"
    by (simp add: send_greeting_def build_nil)
  show ?thesis
    using message_answered [where p = "framed_params OP_GREETING []" and r = ?r and n = 1 and m = 1 and clk = clk,
        OF assms(1) env(1) assms(2-9)] assms(10-12) handlers env(2) call framed_string_reads [of "''Hello, authenticated client!''" OP_GREETING]
    unfolding sent
    by (force simp: default_limits framed_params_def framed_def bytes_of_string_def OP_GREETING_def)
qed

text \<open>\<^verbatim>\<open>client_identity_example\<close>, the first client: its request registers the device key, whatever was registered
  before, and it is told so.\<close>

lemma read_bytes_at:
  assumes "drop (offset r) (params_data r) = parameters (framed_params op [P_bytes bs])" and "length bs \<le> 65535"
  shows "\<exists>r'. read_param_bytes r = (Inr bs, r')"
proof -
  have "r = \<lparr>params_data = take (offset r) (params_data r) @ framed bs @ [], offset = length (take (offset r) (params_data r))\<rparr>"
    using assms(1) append_take_drop_id [of "offset r" "params_data r"] drop_all [of "params_data r" "offset r"]
    by (cases "offset r \<le> length (params_data r)") (auto simp: framed_params_def framed_def)
  then show ?thesis
    using read_param_bytes_framed [OF assms(2), of "take (offset r) (params_data r)" "[]"] by metis
qed

theorem identity_example_registers:
  assumes "fresh_client c0" "client_step\<^sup>*\<^sup>* c0 c" and "sodium_ok (ce_sodium CE)" "se_sodium SE = ce_sodium CE"
    and "session_of h s = Some (False, st)" "is_connected c" "in_step (c_session c) (cs_session st)"
    and "counters_left (c_session c)" "counters_left (cs_session st)"
    and "ce_transport CE (c_net_calls c) = None" "se_transport SE (s_net_calls s) = None"
    and "c_config c = with_defaults" "s_config s = with_defaults"
    and "fst (check_message_rate (se_fl SE) (us (clk 0)) (rate_limiter_id st) (s_rate_limiter s))"
    and "anon_request_handlers s = anon_request_handlers (identity_server k)"
    and "kp = generate_sign_keypair (ce_sodium CE) rnd"
  shows "\<exists>q answer c2. registration_request kp = Inr q
     \<and> client_sync_request CE (round_trip CE (identity_env registered_key SE) clk h s) now q 0 c = Some (Inr answer, c2)
     \<and> registration_succeeded answer = Inr True
     \<and> (\<forall>reader. drop (offset reader) (params_data reader) = parameters q \<longrightarrow>
          snd (register_key_handler reader registered_key) = publicKey kp)"
proof -
  let ?resp = "framed_params OP_REGISTER_KEY [P_bool True]"
  define p where "p = framed_params OP_REGISTER_KEY [P_bytes (pk_data (publicKey kp))]"
  have len: "length (pk_data (publicKey kp)) = 32"
    using key_pair_ok_sizes [OF assms(3) generate_sign_keypair_ok [OF assms(3)]] assms(16) by auto
  have yes: "build_chain (PayloadBuilder OP_REGISTER_KEY) [\<lambda>b. add_param_bool b True] = Inr ?resp"
    by (rule build_chain_one) (simp_all add: fits_def)
  have req: "registration_request kp = Inr p"
    unfolding registration_request_def p_def by (rule build_chain_one) (simp_all add: fits_def len)
  have run: "register_key_handler r registered_key = (Inr ?resp, publicKey kp)"
    if "drop (offset r) (params_data r) = parameters p" for r
    using read_bytes_at [OF that [unfolded p_def]] len yes by (auto simp: register_key_handler_def public_key.expand)
  have env: "se_sodium (identity_env registered_key SE) = ce_sodium CE" "se_transport (identity_env registered_key SE) = se_transport SE"
      "se_fl (identity_env registered_key SE) = se_fl SE" "answers (identity_env registered_key SE) 1 h (parameters p) ?resp"
    using assms(4) run by (simp_all add: identity_env_def answers_def)
  have handler: "m_find (anon_request_handlers s) (op_code p) = Some (Some 1)"
    using assms(15) by (simp add: p_def identity_server_def server_register_op_handler_def set_client_identity_handler_def
        register_anon_request_handler_def)
  have small: "length (parameters ?resp) \<le> 65533" "op_code p = OP_REGISTER_KEY" "length (parameters p) \<le> 100"
    by (simp_all add: framed_params_def framed_def p_def len)
  obtain pid c1 f1 s1 f2 c2 where r: "client_async_request CE now p 0 c = (Inr pid, c1)" "c_sent c1 = c_sent c @ [f1]"
      "pid < length (promises (c_requests c1))"
      "server_on_message (identity_env registered_key SE) clk h True f1 s = (Inr (), s1)" "s_sent s1 = s_sent s @ [(h, f2)]"
      "client_on_message CE True f2 c1 = (Inr (), c2)"
      "promises (c_requests c2) = (promises (c_requests c1))[pid := Value ?resp]"
    using request_answered [where CE = CE and SE = "identity_env registered_key SE" and clk = clk and resp = ?resp and p = p,
        OF client_requests.reachable_table [OF assms(1,2)] assms(3) env(1) assms(5-10) _ with_request_id_eq]
      assms(11-14) handler env small
    by (force simp: default_limits OP_REGISTER_KEY_def framed_params_def framed_def response_payload_eq)
  have "round_trip CE (identity_env registered_key SE) clk h s c1 = c2" using r by (simp add: round_trip_def)
  then have "client_sync_request CE (round_trip CE (identity_env registered_key SE) clk h s) now p 0 c = Some (Inr ?resp, c2)"
    using r by (simp add: client_sync_request_def sync_result_def Let_def)
  moreover have "registration_succeeded ?resp = Inr True"
    using read_one [of "P_bool True" OP_REGISTER_KEY] unfolding registration_succeeded_def
    by (cases "fst (read_param_bool (PayloadReader ?resp))") (auto simp: map_fst_def fits_def split: prod.splits)
  ultimately show ?thesis using req run by (intro exI [of _ p] exI [of _ ?resp] exI [of _ c2]) simp
qed

section \<open>The streams of \<^verbatim>\<open>streaming_example.cpp\<close>\<close>

text \<open>The ready callback of the client: it opens both streams, sets their handlers, writes and ends them. The
  errors that the methods of a stream log are dropped; what \<^verbatim>\<open>start_stream\<close> throws leaves the callback.\<close>

definition on_stream :: "nat \<Rightarrow> (unit stream \<Rightarrow> unit stream) \<Rightarrow> client \<Rightarrow> client" where
  "on_stream ref f c = c\<lparr>c_streams := (c_streams c)[ref := f (c_streams c ! ref)]\<rparr>"

definition write_to :: "client_env \<Rightarrow> nat \<Rightarrow> byte_vector \<Rightarrow> client \<Rightarrow> client" where
  "write_to E ref data c = snd (stream_write (\<lambda>_. client_send E) (c_streams c ! ref) data c)"

definition end_of :: "client_env \<Rightarrow> nat \<Rightarrow> client \<Rightarrow> client" where
  "end_of E ref c = snd (stream_end (\<lambda>_. client_send E) (c_streams c ! ref) c)"

definition start_text :: "client_env \<Rightarrow> client \<Rightarrow> nat result \<times> client" where
  "start_text E c =
     and_then (client_start_stream_op E OP_TEXT_STREAM c) (\<lambda>text_stream c.
       let c = on_stream text_stream (set_data_handler (Some 1)) c;
           c = on_stream text_stream (set_end_handler (Some 1)) c;
           c = write_to E text_stream (bytes_of_string ''Hello'') c;
           c = write_to E text_stream (bytes_of_string ''World'') c in
       (Inr text_stream, c))"

definition start_binary :: "client_env \<Rightarrow> client \<Rightarrow> nat result \<times> client" where
  "start_binary E c =
     and_then (client_start_stream_op E OP_BINARY_STREAM c) (\<lambda>binary_stream c.
       let c = on_stream binary_stream (set_end_handler (Some 2)) c;
           c = write_to E binary_stream [0x00, 0x01, 0x02, 0x03, 0x04] c;
           c = end_of E binary_stream c in
       (Inr binary_stream, c))"

definition streaming_ready :: "client_env \<Rightarrow> client \<Rightarrow> unit result \<times> client" where
  "streaming_ready E c =
     and_then (start_text E c) (\<lambda>text_stream c.
       and_then (start_binary E c) (\<lambda>_ c. (Inr (), end_of E text_stream c)))"

definition streaming_client :: "key_pair \<Rightarrow> client" where
  "streaming_client k = set_on_ready_callback (Some 1) (WsClientWrapper (client_view k) with_defaults)"

text \<open>A client with room for \<open>k\<close> more messages, in step with the session \<open>b\<close>.\<close>

definition can_send :: "nat \<Rightarrow> client \<Rightarrow> session \<Rightarrow> bool" where
  "can_send k c b \<longleftrightarrow> in_step (c_session c) b \<and> is_connected c \<and> c_config c = with_defaults
     \<and> unat (send_counter (c_session c)) + k < 2 ^ 64"

definition sent_of :: "client \<Rightarrow> byte_vector list \<times> unit stream list \<times> u32 \<times> version option" where
  "sent_of c = (c_sent c, c_streams c, c_next_outgoing_stream_id c, get_selected_version (c_session c))"

lemma send_one:
  assumes "sodium_ok (ce_sodium E)" and "\<And>n. ce_transport E n = None" and "can_send (Suc k) c b"
    and "length (parameters p) \<le> 100" and "sent_of c = (fs, ss, n, v)"
  shows "\<exists>f d b'. client_send E p c = (Inr (), d) \<and> sent_of d = (fs @ [f], ss, n, v)
     \<and> decrypt_packet (ce_sodium E) f b = (Inr p, b') \<and> can_send k d b'"
proof -
  have "in_step (c_session c) b" "counters_left (c_session c)" "is_connected c" "\<not> too_large (c_config c) p"
    using assms(3,4) by (simp_all add: can_send_def counters_left_def default_limits)
  then obtain f d where d: "client_send E p c = (Inr (), d)" "c_sent d = c_sent c @ [f]"
      "c_session d = (c_session c)\<lparr>send_counter := send_counter (c_session c) + 1\<rparr>"
      "decrypt_packet (ce_sodium E) f b = (Inr p, b\<lparr>recv_counter := send_counter (c_session c) + 1\<rparr>)"
      "in_step (c_session d) (b\<lparr>recv_counter := send_counter (c_session c) + 1\<rparr>)"
    using client_send_passes [OF assms(1) _ _ _ _ assms(2)] by blast
  have "unat (send_counter (c_session c) + 1) = unat (send_counter (c_session c)) + 1"
    using succ_counter [of "send_counter (c_session c)"] assms(3) by (simp add: can_send_def)
  then show ?thesis
    using d assms(3,5) client_send_fields [of E p c]
    by (intro exI [of _ f] exI [of _ d] exI [of _ "b\<lparr>recv_counter := send_counter (c_session c) + 1\<rparr>"])
      (auto simp: can_send_def sent_of_def get_selected_version_def)
qed

lemma on_stream_same:
  "sent_of c = (fs, ss, n, v) \<Longrightarrow> sent_of (on_stream ref f c) = (fs, ss[ref := f (ss ! ref)], n, v)"
  "can_send k (on_stream ref f c) b = can_send k c b"
  by (auto simp: sent_of_def on_stream_def can_send_def)

lemma write_one:
  assumes "sodium_ok (ce_sodium E)" and "\<And>n. ce_transport E n = None" and "can_send (Suc k) c b"
    and "sent_of c = (fs, ss, n, v)" and "length data \<le> 50"
  shows "\<exists>f b'. sent_of (write_to E ref data c) = (fs @ [f], ss, n, v)
     \<and> decrypt_packet (ce_sodium E) f b = (Inr (framed_params STREAM_DATA_op [P_uint32 (stream_id (ss ! ref)), P_bytes data]), b')
     \<and> can_send k (write_to E ref data c) b'"
proof -
  let ?p = "framed_params STREAM_DATA_op [P_uint32 (stream_id (ss ! ref)), P_bytes data]"
  have "length (parameters ?p) \<le> 100" using assms(5) by (simp add: framed_params_def framed_def)
  then obtain f d b' where "client_send E ?p c = (Inr (), d)" "sent_of d = (fs @ [f], ss, n, v)"
      "decrypt_packet (ce_sodium E) f b = (Inr ?p, b')" "can_send k d b'"
    using send_one [OF assms(1-3) _ assms(4)] by blast
  moreover have "c_streams c = ss" using assms(4) by (simp add: sent_of_def)
  ultimately show ?thesis using assms(5) by (auto simp: write_to_def stream_write_sends swallow_def)
qed

lemma end_one:
  assumes "sodium_ok (ce_sodium E)" and "\<And>n. ce_transport E n = None" and "can_send (Suc k) c b"
    and "sent_of c = (fs, ss, n, v)"
  shows "\<exists>f b'. sent_of (end_of E ref c) = (fs @ [f], ss, n, v)
     \<and> decrypt_packet (ce_sodium E) f b = (Inr (framed_params STREAM_END_op [P_uint32 (stream_id (ss ! ref))]), b')
     \<and> can_send k (end_of E ref c) b'"
proof -
  let ?p = "framed_params STREAM_END_op [P_uint32 (stream_id (ss ! ref))]"
  have "length (parameters ?p) \<le> 100" by (simp add: framed_params_def framed_def)
  then obtain f d b' where "client_send E ?p c = (Inr (), d)" "sent_of d = (fs @ [f], ss, n, v)"
      "decrypt_packet (ce_sodium E) f b = (Inr ?p, b')" "can_send k d b'"
    using send_one [OF assms(1-3) _ assms(4)] by blast
  moreover have "c_streams c = ss" using assms(4) by (simp add: sent_of_def)
  ultimately show ?thesis by (auto simp: end_of_def stream_end_sends swallow_def)
qed

abbreviation opening_of :: "u32 \<Rightarrow> version option \<Rightarrow> OpCode \<Rightarrow> payload" where
  "opening_of sid v op \<equiv> start_message (opcodes with_defaults) sid (if supports_stream_op v then Some op else None)"

lemma start_one:
  assumes "sodium_ok (ce_sodium E)" and "\<And>n. ce_transport E n = None" and "can_send (Suc k) c b"
    and "sent_of c = (fs, ss, n, v)"
  shows "\<exists>f d b'. client_start_stream_op E op c = (Inr (length ss), d)
     \<and> sent_of d = (fs @ [f], ss @ [Stream (n * 2) () (Some op)], n + 1, v)
     \<and> decrypt_packet (ce_sodium E) f b = (Inr (opening_of (n * 2) v op), b') \<and> can_send k d b'"
proof -
  let ?c = "c\<lparr>c_next_outgoing_stream_id := n + 1, c_streams := ss @ [Stream (n * 2) () (Some op)],
      active_streams := m_put (n * 2) (length ss) (active_streams c)\<rparr>"
  have c: "c_streams c = ss" "c_next_outgoing_stream_id c = n" "c_config c = with_defaults" "get_selected_version (c_session c) = v"
    using assms(3,4) by (simp_all add: sent_of_def can_send_def)
  have "can_send (Suc k) ?c b" "sent_of ?c = (fs, ss @ [Stream (n * 2) () (Some op)], n + 1, v)"
    using assms(3,4) by (simp_all add: sent_of_def can_send_def)
  moreover have "length (parameters (opening_of (n * 2) v op)) \<le> 100" by (simp add: framed_params_def framed_def)
  ultimately obtain f d b' where "client_send E (opening_of (n * 2) v op) ?c = (Inr (), d)"
      "sent_of d = (fs @ [f], ss @ [Stream (n * 2) () (Some op)], n + 1, v)"
      "decrypt_packet (ce_sodium E) f b = (Inr (opening_of (n * 2) v op), b')" "can_send k d b'"
    using send_one [OF assms(1,2)] by blast
  moreover have "client_start_stream_op E op c = and_then (client_send E (opening_of (n * 2) v op) ?c) (\<lambda>_ c. (Inr (length ss), c))"
    by (simp add: client_start_stream_op_def client_add_stream_def wire_simps c Let_def)
  ultimately show ?thesis by auto
qed

abbreviation data_message :: "u32 \<Rightarrow> byte_vector \<Rightarrow> payload" where
  "data_message sid data \<equiv> framed_params STREAM_DATA_op [P_uint32 sid, P_bytes data]"

abbreviation end_message :: "u32 \<Rightarrow> payload" where
  "end_message sid \<equiv> framed_params STREAM_END_op [P_uint32 sid]"

lemma start_text_sends:
  assumes sodium: "sodium_ok (ce_sodium E)" and net: "\<And>n. ce_transport E n = None" and room: "can_send 7 c b"
    and fresh: "sent_of c = (fs, [], 0, v)"
  shows "\<exists>d gs b' st. start_text E c = (Inr 0, d) \<and> sent_of d = (fs @ gs, [st], 1, v) \<and> stream_id st = 0
     \<and> decrypt_all (ce_sodium E) gs b = (map Inr [opening_of 0 v OP_TEXT_STREAM, data_message 0 (bytes_of_string ''Hello''),
          data_message 0 (bytes_of_string ''World'')], b') \<and> can_send 4 d b'"
proof -
  obtain f1 c1 b1 where 1: "client_start_stream_op E OP_TEXT_STREAM c = (Inr 0, c1)"
      "sent_of c1 = (fs @ [f1], [Stream 0 () (Some OP_TEXT_STREAM)], 1, v)"
      "decrypt_packet (ce_sodium E) f1 b = (Inr (opening_of 0 v OP_TEXT_STREAM), b1)" "can_send 6 c1 b1"
    using start_one [OF sodium net _ fresh, of 6 b OP_TEXT_STREAM] room by auto
  let ?t = "(Stream 0 () (Some OP_TEXT_STREAM))\<lparr>on_data := Some 1, on_end := Some 1\<rparr>"
  define c2 where "c2 = on_stream 0 (set_end_handler (Some 1)) (on_stream 0 (set_data_handler (Some 1)) c1)"
  have 2: "sent_of c2 = (fs @ [f1], [?t], 1, v)" "can_send (Suc 5) c2 b1"
    using on_stream_same(1) [OF on_stream_same(1) [OF 1(2)]] 1(4)
    by (simp_all add: c2_def on_stream_same(2) set_data_handler_def set_end_handler_def)
  define c3 where "c3 = write_to E 0 (bytes_of_string ''Hello'') c2"
  obtain f3 b3 where 3: "sent_of c3 = (fs @ [f1, f3], [?t], 1, v)" "can_send (Suc 4) c3 b3"
      "decrypt_packet (ce_sodium E) f3 b1 = (Inr (data_message 0 (bytes_of_string ''Hello'')), b3)"
    using write_one [OF sodium net 2(2,1), of "bytes_of_string ''Hello''" 0] by (auto simp: c3_def Stream_def bytes_of_string_def)
  define c4 where "c4 = write_to E 0 (bytes_of_string ''World'') c3"
  obtain f4 b4 where 4: "sent_of c4 = (fs @ [f1, f3, f4], [?t], 1, v)" "can_send 4 c4 b4"
      "decrypt_packet (ce_sodium E) f4 b3 = (Inr (data_message 0 (bytes_of_string ''World'')), b4)"
    using write_one [OF sodium net 3(2,1), of "bytes_of_string ''World''" 0] by (auto simp: c4_def Stream_def bytes_of_string_def)
  have "start_text E c = (Inr 0, c4)"
    using 1(1) by (simp add: start_text_def Let_def c2_def c3_def c4_def)
  then show ?thesis
    using 1(3) 3(3) 4 by (intro exI [of _ c4] exI [of _ "[f1, f3, f4]"] exI [of _ b4] exI [of _ ?t]) (simp add: Stream_def)
qed

lemma start_binary_sends:
  assumes sodium: "sodium_ok (ce_sodium E)" and net: "\<And>n. ce_transport E n = None" and room: "can_send 4 c b"
    and one: "sent_of c = (fs, [t], 1, v)"
  shows "\<exists>d gs b' st. start_binary E c = (Inr 1, d) \<and> sent_of d = (fs @ gs, [t, st], 2, v)
     \<and> decrypt_all (ce_sodium E) gs b = (map Inr [opening_of 2 v OP_BINARY_STREAM,
          data_message 2 [0x00, 0x01, 0x02, 0x03, 0x04], end_message 2], b') \<and> can_send (Suc 0) d b'"
proof -
  obtain f5 c5 b5 where 5: "client_start_stream_op E OP_BINARY_STREAM c = (Inr 1, c5)"
      "sent_of c5 = (fs @ [f5], [t, Stream 2 () (Some OP_BINARY_STREAM)], 2, v)"
      "decrypt_packet (ce_sodium E) f5 b = (Inr (opening_of 2 v OP_BINARY_STREAM), b5)" "can_send (Suc 2) c5 b5"
    using start_one [OF sodium net _ one, of 3 b OP_BINARY_STREAM] room by (auto simp: eval_nat_numeral)
  let ?b = "(Stream 2 () (Some OP_BINARY_STREAM))\<lparr>on_end := Some 2\<rparr>"
  define c6 where "c6 = on_stream 1 (set_end_handler (Some 2)) c5"
  have 6: "sent_of c6 = (fs @ [f5], [t, ?b], 2, v)" "can_send (Suc 2) c6 b5"
    using on_stream_same(1) [OF 5(2)] 5(4) by (simp_all add: c6_def on_stream_same(2) set_end_handler_def)
  define c7 where "c7 = write_to E 1 [0x00, 0x01, 0x02, 0x03, 0x04] c6"
  obtain f7 b7 where 7: "sent_of c7 = (fs @ [f5, f7], [t, ?b], 2, v)" "can_send (Suc (Suc 0)) c7 b7"
      "decrypt_packet (ce_sodium E) f7 b5 = (Inr (data_message 2 [0x00, 0x01, 0x02, 0x03, 0x04]), b7)"
    using write_one [OF sodium net, of "Suc 1" c6 b5, OF _ 6(1), of "[0x00, 0x01, 0x02, 0x03, 0x04]" 1] 6(2)
    by (auto simp: c7_def Stream_def eval_nat_numeral)
  define c8 where "c8 = end_of E 1 c7"
  obtain f8 b8 where 8: "sent_of c8 = (fs @ [f5, f7, f8], [t, ?b], 2, v)" "can_send (Suc 0) c8 b8"
      "decrypt_packet (ce_sodium E) f8 b7 = (Inr (end_message 2), b8)"
    using end_one [OF sodium net 7(2,1), of 1] by (auto simp: c8_def Stream_def)
  have "start_binary E c = (Inr 1, c8)"
    using 5(1) by (simp add: start_binary_def Let_def c6_def c7_def c8_def)
  then show ?thesis
    using 5(3) 7(3) 8 by (intro exI [of _ c8] exI [of _ "[f5, f7, f8]"] exI [of _ b8] exI [of _ ?b]) simp
qed

lemma decrypt_all_append:
  "decrypt_all S (xs @ ys) b = (fst (decrypt_all S xs b) @ fst (decrypt_all S ys (snd (decrypt_all S xs b))),
     snd (decrypt_all S ys (snd (decrypt_all S xs b))))"
  by (induction xs arbitrary: b) (simp_all add: split_beta)

text \<open>What the server receives of the callback: seven messages on two streams, with the identifiers 0 and 2.\<close>

theorem streaming_example_sends:
  assumes sodium: "sodium_ok (ce_sodium E)" and net: "\<And>n. ce_transport E n = None" and room: "can_send 7 c b"
    and fresh: "sent_of c = (fs, [], 0, v)"
  shows "\<exists>d gs. streaming_ready E c = (Inr (), d) \<and> c_sent d = fs @ gs
     \<and> received (ce_sodium E) gs b =
         [opening_of 0 v OP_TEXT_STREAM, data_message 0 (bytes_of_string ''Hello''), data_message 0 (bytes_of_string ''World''),
          opening_of 2 v OP_BINARY_STREAM, data_message 2 [0x00, 0x01, 0x02, 0x03, 0x04], end_message 2, end_message 0]"
proof -
  obtain c1 g1 b1 t where 1: "start_text E c = (Inr 0, c1)" "sent_of c1 = (fs @ g1, [t], 1, v)" "stream_id t = 0"
      "decrypt_all (ce_sodium E) g1 b = (map Inr [opening_of 0 v OP_TEXT_STREAM, data_message 0 (bytes_of_string ''Hello''),
          data_message 0 (bytes_of_string ''World'')], b1)" "can_send 4 c1 b1"
    using start_text_sends [OF sodium net room fresh] by blast
  obtain c2 g2 b2 st where 2: "start_binary E c1 = (Inr 1, c2)" "sent_of c2 = ((fs @ g1) @ g2, [t, st], 2, v)"
      "decrypt_all (ce_sodium E) g2 b1 = (map Inr [opening_of 2 v OP_BINARY_STREAM,
          data_message 2 [0x00, 0x01, 0x02, 0x03, 0x04], end_message 2], b2)" "can_send (Suc 0) c2 b2"
    using start_binary_sends [OF sodium net 1(5,2)] by blast
  obtain f b3 where 3: "sent_of (end_of E 0 c2) = (((fs @ g1) @ g2) @ [f], [t, st], 2, v)"
      "decrypt_packet (ce_sodium E) f b2 = (Inr (end_message 0), b3)"
    using end_one [OF sodium net 2(4,2), of 0] 1(3) by auto
  have "streaming_ready E c = (Inr (), end_of E 0 c2)" using 1(1) 2(1) by (simp add: streaming_ready_def)
  moreover have "c_sent (end_of E 0 c2) = fs @ g1 @ g2 @ [f]" using 3(1) by (simp add: sent_of_def)
  moreover have "decrypt_all (ce_sodium E) (g2 @ [f]) b1 = (map Inr [opening_of 2 v OP_BINARY_STREAM,
          data_message 2 [0x00, 0x01, 0x02, 0x03, 0x04], end_message 2, end_message 0], b3)"
    using 3(2) by (simp add: decrypt_all_append 2(3))
  ultimately show ?thesis
    by (intro exI [of _ "end_of E 0 c2"] exI [of _ "g1 @ g2 @ [f]"]) (simp add: received_def decrypt_all_append 1(4))
qed

end
