(* ===== verification/SecureBuffer.thy ===== *)
theory SecureBuffer
  imports Prelude
begin

text \<open>
  \<^verbatim>\<open>SecureBuffer\<close> (\<^verbatim>\<open>secure_buffer.hpp\<close>), the owner of one guarded allocation, with the memory it
  manages made explicit: a heap of blocks, and objects that hold a pointer into it. libsodium's
  allocator is a parameter: \<open>M n sz\<close> is the block, with whatever it contains, that the \<open>n\<close>-th call
  of \<^verbatim>\<open>sodium_malloc\<close> returns, or \<open>None\<close> when it fails; a block is named by the number of its call.
  \<open>released\<close> records every block as it was when it was handed to \<^verbatim>\<open>sodium_free\<close>.

  The other theories treat the buffer as the byte string it contains; the refinement below is what
  justifies that.
\<close>

section \<open>Memory\<close>

type_synonym malloc = "nat \<Rightarrow> nat \<Rightarrow> byte_vector option"

record heap =
  allocated :: "(nat, byte_vector) amap"
  released :: "byte_vector list"
  mallocs :: nat

text \<open>What the manual of libsodium says of the allocator.\<close>

definition malloc_ok :: "malloc \<Rightarrow> bool" where
  "malloc_ok M \<longleftrightarrow> (\<forall>n sz bs. M n sz = Some bs \<longrightarrow> length bs = sz)"

definition block :: "heap \<Rightarrow> nat \<Rightarrow> byte_vector" where
  "block h a = (case m_find (allocated h) a of Some bs \<Rightarrow> bs | None \<Rightarrow> [])"

text \<open>\<^verbatim>\<open>std::memcpy\<close> to the start of a block, and \<^verbatim>\<open>sodium_memzero\<close>.\<close>

definition memcpy :: "nat \<Rightarrow> byte_vector \<Rightarrow> heap \<Rightarrow> heap" where
  "memcpy a src h = h\<lparr>allocated := m_put a (write_at 0 src (block h a)) (allocated h)\<rparr>"

definition sodium_memzero :: "nat \<Rightarrow> nat \<Rightarrow> heap \<Rightarrow> heap" where
  "sodium_memzero a n h = memcpy a (zeros n) h"

definition sodium_free :: "nat \<Rightarrow> heap \<Rightarrow> heap" where
  "sodium_free a h = h\<lparr>allocated := m_erase a (allocated h), released := released h @ [block h a]\<rparr>"

section \<open>One buffer\<close>

record secure_buffer =
  sb_data :: "nat option"
  sb_size :: nat

definition SecureBuffer :: secure_buffer where
  "SecureBuffer = \<lparr>sb_data = None, sb_size = 0\<rparr>"

definition allocate :: "malloc \<Rightarrow> nat \<Rightarrow> secure_buffer \<times> heap \<Rightarrow> unit result \<times> secure_buffer \<times> heap" where
  "allocate M sz = (\<lambda>(b, h).
     let a = mallocs h; h = h\<lparr>mallocs := mallocs h + 1\<rparr> in
     case M a sz of
       None \<Rightarrow> (Inl (StdException ''std::bad_alloc''), b\<lparr>sb_data := None\<rparr>, h)
     | Some bs \<Rightarrow>
         let h = h\<lparr>allocated := m_put a bs (allocated h)\<rparr>;
             h = sodium_memzero a sz h
         in (Inr (), b\<lparr>sb_data := Some a, sb_size := sz\<rparr>, h))"

definition clear :: "secure_buffer \<times> heap \<Rightarrow> secure_buffer \<times> heap" where
  "clear = (\<lambda>(b, h).
     case sb_data b of
       None \<Rightarrow> (b, h)
     | Some a \<Rightarrow>
         let h = sodium_free a (sodium_memzero a (sb_size b) h)
         in (b\<lparr>sb_data := None, sb_size := 0\<rparr>, h))"

text \<open>The bytes a buffer shows: those of its block, up to its size.\<close>

definition bytes :: "secure_buffer \<Rightarrow> heap \<Rightarrow> byte_vector" where
  "bytes b h = (case sb_data b of None \<Rightarrow> [] | Some a \<Rightarrow> take (sb_size b) (block h a))"

text \<open>\<^verbatim>\<open>allocate(n); memcpy(data_, src, n)\<close> unless \<open>n\<close> is 0, as the copying methods do it.\<close>

definition fill :: "malloc \<Rightarrow> byte_vector \<Rightarrow> secure_buffer \<times> heap \<Rightarrow> unit result \<times> secure_buffer \<times> heap" where
  "fill M src s =
     (if length src > 0
      then and_then (allocate M (length src) s)
             (\<lambda>_ (b, h). (Inr (), b, case sb_data b of Some a \<Rightarrow> memcpy a src h | None \<Rightarrow> h))
      else (Inr (), s))"

definition SecureBuffer_size :: "malloc \<Rightarrow> nat \<Rightarrow> heap \<Rightarrow> unit result \<times> secure_buffer \<times> heap" where
  "SecureBuffer_size M sz h =
     (if sz > 0 then allocate M sz (SecureBuffer, h) else (Inr (), SecureBuffer, h))"

definition resize :: "malloc \<Rightarrow> nat \<Rightarrow> secure_buffer \<times> heap \<Rightarrow> unit result \<times> secure_buffer \<times> heap" where
  "resize M new_size = (\<lambda>(b, h).
     if new_size = sb_size b then (Inr (), b, h)
     else case SecureBuffer_size M new_size h of
            (Inl e, tmp, h) \<Rightarrow> (Inl e, b, h)
          | (Inr _, tmp, h) \<Rightarrow>
              let copy_size = (if new_size < sb_size b then new_size else sb_size b);
                  h = (case (sb_data tmp, sb_data b) of
                         (Some t, Some d) \<Rightarrow> if copy_size > 0 then memcpy t (take copy_size (block h d)) h else h
                       | _ \<Rightarrow> h)
              in (Inr (), tmp, snd (clear (b, h))))"

section \<open>Objects\<close>

text \<open>The buffers of a program, by object. A copy or a move can have its own target as its source.\<close>

record memory =
  objects :: "(nat, secure_buffer) amap"
  heap :: heap

definition buf :: "memory \<Rightarrow> nat \<Rightarrow> secure_buffer" where
  "buf m i = (case m_find (objects m) i of Some b \<Rightarrow> b | None \<Rightarrow> SecureBuffer)"

definition put :: "nat \<Rightarrow> unit result \<times> secure_buffer \<times> heap \<Rightarrow> memory \<Rightarrow> unit result \<times> memory" where
  "put i x m = (case x of (r, b, h) \<Rightarrow> (r, m\<lparr>objects := m_put i b (objects m), heap := h\<rparr>))"

text \<open>A constructor that throws leaves no object.\<close>

definition construct :: "nat \<Rightarrow> unit result \<times> secure_buffer \<times> heap \<Rightarrow> memory \<Rightarrow> unit result \<times> memory" where
  "construct i x m =
     (case x of
        (Inl e, b, h) \<Rightarrow> (Inl e, m\<lparr>heap := h\<rparr>)
      | (Inr _, b, h) \<Rightarrow> (Inr (), m\<lparr>objects := m_put i b (objects m), heap := h\<rparr>))"

datatype sb_op =
    New nat
  | New_size nat nat
  | New_copy nat nat
  | Copy_assign nat nat
  | New_move nat nat
  | Move_assign nat nat
  | Resize nat nat
  | Assign nat byte_vector
  | Clear nat
  | Destroy nat
  | Set_byte nat nat u8

text \<open>The bytes \<^verbatim>\<open>assign\<close> copies are taken from memory that is not the buffer's own. The source of a
  copy is read at the call of \<^verbatim>\<open>memcpy\<close>, after the target was cleared; for
  different objects that is what it held before.\<close>

fun run_op :: "malloc \<Rightarrow> sb_op \<Rightarrow> memory \<Rightarrow> unit result \<times> memory" where
  "run_op M (New i) m = construct i (Inr (), SecureBuffer, heap m) m"
| "run_op M (New_size i n) m = construct i (SecureBuffer_size M n (heap m)) m"
| "run_op M (New_copy i j) m = construct i (fill M (bytes (buf m j) (heap m)) (SecureBuffer, heap m)) m"
| "run_op M (Copy_assign i j) m =
     (if i = j then (Inr (), m)
      else case clear (buf m i, heap m) of
             (b, h) \<Rightarrow> put i (fill M (bytes (buf m j) h) (b, h)) m)"
| "run_op M (New_move i j) m =
     (Inr (), m\<lparr>objects := m_put j SecureBuffer (m_put i (buf m j) (objects m))\<rparr>)"
| "run_op M (Move_assign i j) m =
     (if i = j then (Inr (), m)
      else case clear (buf m i, heap m) of
             (b, h) \<Rightarrow>
               (Inr (), m\<lparr>objects := m_put j SecureBuffer (m_put i (buf m j) (objects m)), heap := h\<rparr>))"
| "run_op M (Resize i n) m = put i (resize M n (buf m i, heap m)) m"
| "run_op M (Assign i src) m = put i (fill M src (clear (buf m i, heap m))) m"
| "run_op M (Clear i) m = put i (Inr (), clear (buf m i, heap m)) m"
| "run_op M (Destroy i) m =
     (Inr (), m\<lparr>objects := m_erase i (objects m), heap := snd (clear (buf m i, heap m))\<rparr>)"
| "run_op M (Set_byte i k v) m =
     (Inr (), case sb_data (buf m i) of
        Some a \<Rightarrow> m\<lparr>heap := (heap m)\<lparr>allocated := m_put a ((block (heap m) a)[k := v]) (allocated (heap m))\<rparr>\<rparr>
      | None \<Rightarrow> m)"

text \<open>Objects are constructed once and used while they live; an index is within the buffer.\<close>

fun op_ok :: "sb_op \<Rightarrow> memory \<Rightarrow> bool" where
  "op_ok (New i) m \<longleftrightarrow> m_find (objects m) i = None"
| "op_ok (New_size i n) m \<longleftrightarrow> m_find (objects m) i = None"
| "op_ok (New_copy i j) m \<longleftrightarrow> m_find (objects m) i = None \<and> m_find (objects m) j \<noteq> None"
| "op_ok (Copy_assign i j) m \<longleftrightarrow> m_find (objects m) i \<noteq> None \<and> m_find (objects m) j \<noteq> None"
| "op_ok (New_move i j) m \<longleftrightarrow> m_find (objects m) i = None \<and> m_find (objects m) j \<noteq> None"
| "op_ok (Move_assign i j) m \<longleftrightarrow> m_find (objects m) i \<noteq> None \<and> m_find (objects m) j \<noteq> None"
| "op_ok (Resize i n) m \<longleftrightarrow> m_find (objects m) i \<noteq> None"
| "op_ok (Assign i src) m \<longleftrightarrow> m_find (objects m) i \<noteq> None"
| "op_ok (Clear i) m \<longleftrightarrow> m_find (objects m) i \<noteq> None"
| "op_ok (Destroy i) m \<longleftrightarrow> m_find (objects m) i \<noteq> None"
| "op_ok (Set_byte i k v) m \<longleftrightarrow> m_find (objects m) i \<noteq> None \<and> k < sb_size (buf m i)"

section \<open>The abstract store\<close>

text \<open>Objects that are byte strings: what a user of the class sees, with and without memory to spare.\<close>

type_synonym store = "nat \<rightharpoonup> byte_vector"

fun spec_op :: "sb_op \<Rightarrow> store \<Rightarrow> store" where
  "spec_op (New i) f = f(i \<mapsto> [])"
| "spec_op (New_size i n) f = f(i \<mapsto> zeros n)"
| "spec_op (New_copy i j) f = f(i \<mapsto> the (f j))"
| "spec_op (Copy_assign i j) f = f(i \<mapsto> the (f j))"
| "spec_op (New_move i j) f = f(i \<mapsto> the (f j), j \<mapsto> [])"
| "spec_op (Move_assign i j) f = (if i = j then f else f(i \<mapsto> the (f j), j \<mapsto> []))"
| "spec_op (Resize i n) f = f(i \<mapsto> take n (the (f i)) @ zeros (n - length (the (f i))))"
| "spec_op (Assign i src) f = f(i \<mapsto> src)"
| "spec_op (Clear i) f = f(i \<mapsto> [])"
| "spec_op (Destroy i) f = f(i := None)"
| "spec_op (Set_byte i k v) f = f(i \<mapsto> (the (f i))[k := v])"

text \<open>When memory runs out, an assignment has already given up the old contents; everything else is
  as before the call.\<close>

fun fail_op :: "sb_op \<Rightarrow> store \<Rightarrow> store" where
  "fail_op (Copy_assign i j) f = f(i \<mapsto> [])"
| "fail_op (Assign i src) f = f(i \<mapsto> [])"
| "fail_op _ f = f"

definition contents :: "memory \<Rightarrow> store" where
  "contents m = (\<lambda>i. map_option (\<lambda>b. bytes b (heap m)) (m_find (objects m) i))"

section \<open>The invariant\<close>

definition own :: "heap \<Rightarrow> secure_buffer \<Rightarrow> bool" where
  "own h b \<longleftrightarrow>
     (case sb_data b of
        None \<Rightarrow> sb_size b = 0
      | Some a \<Rightarrow> 0 < sb_size b \<and> (\<exists>bs. m_find (allocated h) a = Some bs \<and> length bs = sb_size b))"

definition wiped :: "heap \<Rightarrow> bool" where
  "wiped h \<longleftrightarrow> (\<forall>bs \<in> set (released h). bs = zeros (length bs))"

text \<open>Every object owns its block alone, every block has an owner, and what was freed was wiped. The
  objects are seen as a function here, so that creating, moving and destroying them are updates of it.\<close>

definition owners :: "(nat \<rightharpoonup> secure_buffer) \<Rightarrow> heap \<Rightarrow> bool" where
  "owners F h \<longleftrightarrow>
     (\<forall>i b. F i = Some b \<longrightarrow> own h b)
     \<and> (\<forall>i j b c a. F i = Some b \<longrightarrow> F j = Some c \<longrightarrow> sb_data b = Some a \<longrightarrow> sb_data c = Some a \<longrightarrow> i = j)
     \<and> (\<forall>a bs. m_find (allocated h) a = Some bs \<longrightarrow>
          a < mallocs h \<and> (\<exists>i b. F i = Some b \<and> sb_data b = Some a))
     \<and> wiped h"

definition memory_inv :: "memory \<Rightarrow> bool" where
  "memory_inv m \<longleftrightarrow> owners (m_find (objects m)) (heap m)"

lemma ownersD:
  assumes "owners F h"
  shows "F i = Some b \<Longrightarrow> own h b"
    and "F i = Some b \<Longrightarrow> F j = Some c \<Longrightarrow> sb_data b = Some a \<Longrightarrow> sb_data c = Some a \<Longrightarrow> i = j"
    and "m_find (allocated h) a = Some bs \<Longrightarrow> a < mallocs h"
    and "m_find (allocated h) a = Some bs \<Longrightarrow> \<exists>i b. F i = Some b \<and> sb_data b = Some a"
    and "wiped h"
  using assms unfolding owners_def by blast+

lemma owner_below:
  assumes "owners F h" and "F j = Some c" and "sb_data c = Some a"
  shows "a < mallocs h"
proof -
  have "own h c" using ownersD(1) assms(1,2) .
  then obtain bs where "m_find (allocated h) a = Some bs" using assms(3) by (auto simp: own_def)
  then show ?thesis using ownersD(3) [OF assms(1)] by blast
qed

text \<open>What an operation on one buffer does to the heap: it leaves the other blocks alone, uses its own
  or a new one, and has freed its old one if it uses it no longer.\<close>

definition turns :: "secure_buffer \<Rightarrow> heap \<Rightarrow> secure_buffer \<Rightarrow> heap \<Rightarrow> bool" where
  "turns b h b' h' \<longleftrightarrow>
     (\<forall>a. sb_data b \<noteq> Some a \<longrightarrow> sb_data b' \<noteq> Some a \<longrightarrow> m_find (allocated h') a = m_find (allocated h) a)
     \<and> (\<forall>a. sb_data b' = Some a \<longrightarrow> sb_data b = Some a \<or> mallocs h \<le> a \<and> a < mallocs h')
     \<and> (\<forall>a. sb_data b = Some a \<longrightarrow> sb_data b' \<noteq> Some a \<longrightarrow> m_find (allocated h') a = None)
     \<and> mallocs h \<le> mallocs h' \<and> (wiped h \<longrightarrow> wiped h')"

lemma turns_refl [simp]: "turns b h b h"
  by (simp add: turns_def)

lemma turns_trans:
  "turns b h b' h' \<Longrightarrow> sb_data b' = None \<Longrightarrow> turns b' h' b'' h'' \<Longrightarrow> turns b h b'' h''"
  unfolding turns_def by (intro conjI allI impI) (auto dest: le_trans)

lemma own_empty [simp]: "own h SecureBuffer"
  by (simp add: own_def SecureBuffer_def)

lemma bytes_empty [simp]: "bytes SecureBuffer h = []" "sb_data b = None \<Longrightarrow> bytes b h = []"
  by (simp_all add: bytes_def SecureBuffer_def)

lemma own_bytes: "own h b \<Longrightarrow> sb_data b = Some a \<Longrightarrow> m_find (allocated h) a = Some (bytes b h) \<and> block h a = bytes b h"
  by (auto simp: own_def bytes_def block_def)

lemma own_length: "own h b \<Longrightarrow> length (bytes b h) = sb_size b"
  by (auto simp: own_def bytes_def block_def split: option.splits)

section \<open>Operations on one buffer\<close>

lemma clear_effect:
  assumes "own h b"
  shows "turns b h (fst (clear (b, h))) (snd (clear (b, h))) \<and> fst (clear (b, h)) = SecureBuffer
     \<and> (\<forall>a. sb_data b \<noteq> Some a \<longrightarrow> m_find (allocated (snd (clear (b, h)))) a = m_find (allocated h) a)"
proof (cases "sb_data b")
  case None
  then show ?thesis using assms by (cases b) (simp add: clear_def own_def SecureBuffer_def)
next
  case (Some a)
  then have "block h a = bytes b h" "length (bytes b h) = sb_size b"
    using own_bytes [OF assms] own_length [OF assms] by simp_all
  then have "block (sodium_memzero a (sb_size b) h) a = zeros (sb_size b)"
    by (simp add: sodium_memzero_def memcpy_def block_def write_at_def)
  then show ?thesis
    using Some by (cases b)
      (auto simp: clear_def turns_def wiped_def sodium_free_def sodium_memzero_def memcpy_def SecureBuffer_def Let_def)
qed

lemma allocate_effect:
  assumes "malloc_ok M" and "0 < n" and "sb_data b = None"
  shows "case allocate M n (b, h) of
      (Inr _, b', h') \<Rightarrow> turns b h b' h' \<and> own h' b' \<and> bytes b' h' = zeros n
        \<and> sb_data b' = Some (mallocs h) \<and> sb_size b' = n
    | (Inl e, b', h') \<Rightarrow> e = StdException ''std::bad_alloc'' \<and> b' = b \<and> turns b h b h' \<and> allocated h' = allocated h
        \<and> released h' = released h"
proof (cases "M (mallocs h) n")
  case None
  then show ?thesis
    using assms(3) by (cases b) (auto simp: allocate_def turns_def wiped_def Let_def)
next
  case (Some bs)
  then have "length bs = n" using assms(1) by (simp add: malloc_ok_def)
  then show ?thesis
    using Some assms(2,3)
    by (auto simp: allocate_def turns_def own_def bytes_def block_def sodium_memzero_def memcpy_def wiped_def
        write_at_def Let_def)
qed

lemma SecureBuffer_size_effect:
  assumes "malloc_ok M"
  shows "case SecureBuffer_size M n h of
      (Inr _, b', h') \<Rightarrow> turns SecureBuffer h b' h' \<and> own h' b' \<and> bytes b' h' = zeros n
    | (Inl e, b', h') \<Rightarrow> e = StdException ''std::bad_alloc'' \<and> b' = SecureBuffer \<and> turns SecureBuffer h SecureBuffer h'
        \<and> allocated h' = allocated h"
proof (cases "n = 0")
  case False
  then show ?thesis
    using allocate_effect [OF assms, of n SecureBuffer h]
    by (auto simp: SecureBuffer_size_def SecureBuffer_def split: prod.splits sum.splits)
qed (simp add: SecureBuffer_size_def zeros_def)

lemma fill_effect:
  assumes "malloc_ok M"
  shows "case fill M src (SecureBuffer, h) of
      (Inr _, b', h') \<Rightarrow> turns SecureBuffer h b' h' \<and> own h' b' \<and> bytes b' h' = src
    | (Inl e, b', h') \<Rightarrow> e = StdException ''std::bad_alloc'' \<and> b' = SecureBuffer \<and> turns SecureBuffer h SecureBuffer h'
        \<and> allocated h' = allocated h"
proof (cases "src = []")
  case True
  then show ?thesis by (simp add: fill_def)
next
  case False
  have none: "sb_data SecureBuffer = None" by (simp add: SecureBuffer_def)
  obtain r b h1 where a: "allocate M (length src) (SecureBuffer, h) = (r, b, h1)" by (metis prod.exhaust)
  show ?thesis
  proof (cases r)
    case (Inl e)
    then show ?thesis
      using allocate_effect [OF assms _ none, of "length src" h] False a by (simp add: fill_def)
  next
    case (Inr u)
    have e: "turns SecureBuffer h b h1" "own h1 b" "sb_data b = Some (mallocs h)" "sb_size b = length src"
      using allocate_effect [OF assms _ none, of "length src" h] False a Inr by simp_all
    then have "block h1 (mallocs h) = bytes b h1" "length (bytes b h1) = length src"
      using own_bytes [OF e(2,3)] own_length [OF e(2)] by simp_all
    then have "write_at 0 src (block h1 (mallocs h)) = src"
      by (simp add: write_at_def)
    then show ?thesis
      using e False a Inr
      by (auto simp: fill_def turns_def own_def bytes_def block_def memcpy_def wiped_def)
  qed
qed

lemma mallocs_clear [simp]: "mallocs (snd (clear (b, h))) = mallocs h"
  by (simp add: clear_def sodium_free_def sodium_memzero_def memcpy_def Let_def split: option.splits)

lemma resize_copies:
  assumes M: "malloc_ok M" and own: "own h b" and d: "sb_data b = Some d" "d < mallocs h"
    and n: "0 < n" "n \<noteq> sb_size b" and alloc: "allocate M n (SecureBuffer, h) = (Inr (), tmp, h1)"
  shows "\<exists>h3. resize M n (b, h) = (Inr (), tmp, h3) \<and> turns b h tmp h3 \<and> own h3 tmp
     \<and> bytes tmp h3 = take n (bytes b h) @ zeros (n - length (bytes b h))"
proof -
  let ?t = "mallocs h" and ?c = "if n < sb_size b then n else sb_size b"
  have none: "sb_data SecureBuffer = None" by (simp add: SecureBuffer_def)
  have tmp: "turns SecureBuffer h tmp h1" "own h1 tmp" "bytes tmp h1 = zeros n" "sb_data tmp = Some ?t" "sb_size tmp = n"
    using allocate_effect [OF M n(1) none, of h] alloc by simp_all
  have bs: "block h d = bytes b h" "m_find (allocated h) d = Some (bytes b h)" "length (bytes b h) = sb_size b" "0 < sb_size b"
    using own_bytes [OF own d(1)] own_length [OF own] own d(1) by (auto simp: own_def)
  have d1: "m_find (allocated h1) d = Some (bytes b h)" "block h1 d = bytes b h"
    using tmp(1,4) d(2) bs(2) none by (auto simp: turns_def block_def)
  define h2 where "h2 = memcpy ?t (take ?c (bytes b h)) h1"
  have t1: "m_find (allocated h1) ?t = Some (zeros n)"
    using own_bytes [OF tmp(2,4)] tmp(3) by simp
  have h2: "m_find (allocated h2) a = (if a = ?t then Some (take ?c (bytes b h) @ zeros (n - ?c)) else m_find (allocated h1) a)"
      "wiped h2 = wiped h1" "mallocs h2 = mallocs h1" for a
    using t1 bs(3) by (auto simp: h2_def memcpy_def block_def write_at_def zeros_def wiped_def)
  have "own h2 b" using d bs d1 h2(1) by (auto simp: own_def)
  note cl = clear_effect [OF this]
  let ?h3 = "snd (clear (b, h2))"
  have run: "resize M n (b, h) = (Inr (), tmp, ?h3)"
    using n alloc tmp(4) d(1) d1(2) bs(4) by (simp add: resize_def SecureBuffer_size_def h2_def Let_def)
  have t3: "m_find (allocated ?h3) ?t = Some (take ?c (bytes b h) @ zeros (n - ?c))"
    using cl h2(1) d by auto
  have old: "m_find (allocated ?h3) a = m_find (allocated h) a" if "a \<noteq> d" "a \<noteq> ?t" for a
    using cl h2(1) [of a] tmp(1,4) none that d(1) by (auto simp: turns_def)
  have gone: "m_find (allocated ?h3) d = None"
    using cl d(1) none by (simp add: turns_def)
  have "wiped h \<longrightarrow> wiped ?h3"
    using cl tmp(1) h2(2) by (simp add: turns_def)
  moreover have "mallocs h < mallocs h1"
    using tmp(1,4) none by (auto simp: turns_def)
  ultimately have "turns b h tmp ?h3"
    using old gone tmp(4) d by (auto simp: turns_def h2(3))
  moreover have "own ?h3 tmp"
    using t3 tmp(4,5) n bs(3) by (simp add: own_def zeros_def)
  moreover have "bytes tmp ?h3 = take n (bytes b h) @ zeros (n - length (bytes b h))"
    using t3 tmp(4,5) bs(3) n(2) by (auto simp: bytes_def block_def zeros_def)
  ultimately show ?thesis using run by blast
qed

lemma resize_effect:
  assumes M: "malloc_ok M" and own: "own h b" and low: "\<And>a. sb_data b = Some a \<Longrightarrow> a < mallocs h"
  shows "case resize M n (b, h) of
      (Inr _, b', h') \<Rightarrow> turns b h b' h' \<and> own h' b' \<and> bytes b' h' = take n (bytes b h) @ zeros (n - length (bytes b h))
    | (Inl e, b', h') \<Rightarrow> e = StdException ''std::bad_alloc'' \<and> b' = b \<and> turns b h b h' \<and> allocated h' = allocated h"
proof (cases "n = sb_size b")
  case True
  then show ?thesis using own own_length [OF own] by (simp add: resize_def zeros_def)
next
  case differs: False
  have none: "sb_data SecureBuffer = None" by (simp add: SecureBuffer_def)
  show ?thesis
  proof (cases "n = 0")
    case True
    then show ?thesis
      using differs clear_effect [OF own]
      by (auto simp: resize_def SecureBuffer_size_def SecureBuffer_def zeros_def turns_def own_def bytes_def Let_def
          split: option.splits)
  next
    case False
    obtain r tmp h1 where alloc: "allocate M n (SecureBuffer, h) = (r, tmp, h1)" by (metis prod.exhaust)
    note eff = allocate_effect [OF M _ none, of n h]
    show ?thesis
    proof (cases r)
      case (Inl e)
      then have "e = StdException ''std::bad_alloc''" "turns SecureBuffer h SecureBuffer h1" "allocated h1 = allocated h"
        using eff False alloc by simp_all
      then show ?thesis
        using differs False alloc Inl by (simp add: resize_def SecureBuffer_size_def turns_def)
    next
      case (Inr u)
      show ?thesis
      proof (cases "sb_data b")
        case None
        then have "b = SecureBuffer" using own by (cases b) (simp add: own_def SecureBuffer_def)
        then show ?thesis
          using eff False alloc Inr
          by (simp add: resize_def SecureBuffer_size_def none clear_def SecureBuffer_def Let_def)
      next
        case (Some d)
        obtain h3 where "resize M n (b, h) = (Inr (), tmp, h3)" "turns b h tmp h3" "own h3 tmp"
            "bytes tmp h3 = take n (bytes b h) @ zeros (n - length (bytes b h))"
          using resize_copies [OF M own Some low [OF Some], of n tmp h1] False differs alloc Inr by auto
        then show ?thesis by simp
      qed
    qed
  qed
qed

section \<open>Operations on objects\<close>

lemma turns_bytes:
  "turns b h b' h' \<Longrightarrow> (sb_data c = None \<or> sb_data c \<noteq> sb_data b \<and> sb_data c \<noteq> sb_data b') \<Longrightarrow>
     bytes c h' = bytes c h \<and> (own h c \<longrightarrow> own h' c)"
  by (cases "sb_data c") (auto simp: turns_def bytes_def block_def own_def)

text \<open>An object's buffer, or an unborn object's empty one, replaced by the result of an operation.\<close>

abbreviation buf_of :: "(nat \<rightharpoonup> secure_buffer) \<Rightarrow> nat \<Rightarrow> secure_buffer" where
  "buf_of F i \<equiv> (case F i of Some b \<Rightarrow> b | None \<Rightarrow> SecureBuffer)"

lemma buf_of_data: "sb_data (buf_of F i) = Some a \<Longrightarrow> F i = Some (buf_of F i)"
  by (auto simp: SecureBuffer_def split: option.splits)

lemma owners_apart:
  assumes inv: "owners F h" and turn: "turns (buf_of F i) h b' h'" and c: "F j = Some c" "j \<noteq> i"
  shows "sb_data c = None \<or> sb_data c \<noteq> sb_data (buf_of F i) \<and> sb_data c \<noteq> sb_data b'"
proof (cases "sb_data c")
  case (Some a)
  have "sb_data (buf_of F i) \<noteq> Some a"
    using ownersD(2) [OF inv c(1) buf_of_data [of F i a] Some] c(2) by blast
  moreover from this have "sb_data b' \<noteq> Some a"
    using turn owner_below [OF inv c(1) Some] by (auto simp: turns_def)
  ultimately show ?thesis using Some by metis
qed simp

lemma owners_keep:
  assumes inv: "owners F h" and turn: "turns (buf_of F i) h b' h'" and c: "F j = Some c" "j \<noteq> i"
  shows "bytes c h' = bytes c h" and "own h' c"
  using turns_bytes [OF turn owners_apart [OF assms]] ownersD(1) [OF inv c(1)] by simp_all

text \<open>A block of the new heap is the operation's own, or has the owner it had.\<close>

lemma owners_block:
  assumes inv: "owners F h" and turn: "turns (buf_of F i) h b' h'" and a: "m_find (allocated h') a = Some bs"
  shows "a < mallocs h' \<and> (sb_data b' = Some a \<or> (\<exists>j c. j \<noteq> i \<and> F j = Some c \<and> sb_data c = Some a))"
proof (cases "sb_data b' = Some a")
  case True
  then have "sb_data (buf_of F i) = Some a \<or> mallocs h \<le> a \<and> a < mallocs h'" and le: "mallocs h \<le> mallocs h'"
    using turn by (simp_all add: turns_def)
  then have "a < mallocs h'" using owner_below [OF inv buf_of_data [of F i a]] le by force
  then show ?thesis using True by simp
next
  case False
  have nb: "sb_data (buf_of F i) \<noteq> Some a" using turn False a by (auto simp: turns_def)
  then have old: "m_find (allocated h) a = Some bs" using turn False a by (simp add: turns_def)
  obtain j c where j: "F j = Some c" "sb_data c = Some a" using ownersD(4) [OF inv old] by blast
  have "a < mallocs h'" using ownersD(3) [OF inv old] turn by (simp add: turns_def)
  moreover have "j \<noteq> i" using nb j by auto
  ultimately show ?thesis using j by blast
qed

lemma owners_update:
  assumes inv: "owners F h" and turn: "turns (buf_of F i) h b' h'" and own': "own h' b'"
  shows "owners (F(i \<mapsto> b')) h'"
  unfolding owners_def
proof (intro conjI allI impI)
  show "own h' c" if "(F(i \<mapsto> b')) j = Some c" for j c
    using that own' owners_keep(2) [OF inv turn, of j c] by (cases "j = i") auto
  show "j = k" if "(F(i \<mapsto> b')) j = Some b" "(F(i \<mapsto> b')) k = Some c" "sb_data b = Some a" "sb_data c = Some a" for j k b c a
    using that owners_apart [OF inv turn, of k c] owners_apart [OF inv turn, of j b]
    by (auto split: if_splits intro: ownersD(2) [OF inv])
  show "a < mallocs h'" if "m_find (allocated h') a = Some bs" for a bs
    using owners_block [OF inv turn that] by simp
  show "\<exists>j c. (F(i \<mapsto> b')) j = Some c \<and> sb_data c = Some a" if "m_find (allocated h') a = Some bs" for a bs
    using owners_block [OF inv turn that] by (metis fun_upd_same fun_upd_other)
  show "wiped h'" using ownersD(5) [OF inv] turn by (simp add: turns_def)
qed

lemma owners_erase:
  assumes inv: "owners F h" and turn: "turns (buf_of F i) h b' h'" and b': "sb_data b' = None"
  shows "owners (F(i := None)) h'"
  unfolding owners_def
proof (intro conjI allI impI)
  show "own h' c" if "(F(i := None)) j = Some c" for j c
    using that owners_keep(2) [OF inv turn, of j c] by (cases "j = i") auto
  show "j = k" if "(F(i := None)) j = Some b" "(F(i := None)) k = Some c" "sb_data b = Some a" "sb_data c = Some a" for j k b c a
    using that by (auto split: if_splits intro: ownersD(2) [OF inv])
  show "a < mallocs h'" if "m_find (allocated h') a = Some bs" for a bs
    using owners_block [OF inv turn that] by simp
  show "\<exists>j c. (F(i := None)) j = Some c \<and> sb_data c = Some a" if "m_find (allocated h') a = Some bs" for a bs
    using owners_block [OF inv turn that] b' by (metis fun_upd_other option.distinct(1))
  show "wiped h'" using ownersD(5) [OF inv] turn by (simp add: turns_def)
qed

text \<open>Handing a buffer over: the target must own nothing when it takes the source's block.\<close>

lemma owners_move:
  assumes inv: "owners F h" and j: "F j = Some b" and i: "i \<noteq> j" "sb_data (buf_of F i) = None"
  shows "owners (F(i \<mapsto> b, j \<mapsto> SecureBuffer)) h"
  unfolding owners_def
proof (intro conjI allI impI)
  show "own h c" if "(F(i \<mapsto> b, j \<mapsto> SecureBuffer)) k = Some c" for k c
    using that ownersD(1) [OF inv] j by (auto split: if_splits)
  show "k = l" if "(F(i \<mapsto> b, j \<mapsto> SecureBuffer)) k = Some c" "(F(i \<mapsto> b, j \<mapsto> SecureBuffer)) l = Some d"
      "sb_data c = Some a" "sb_data d = Some a" for k l c d a
    using that j by (auto simp: SecureBuffer_def split: if_splits intro: ownersD(2) [OF inv] dest: ownersD(2) [OF inv])
  show "a < mallocs h" if "m_find (allocated h) a = Some bs" for a bs
    using ownersD(3) [OF inv that] .
  show "\<exists>k c. (F(i \<mapsto> b, j \<mapsto> SecureBuffer)) k = Some c \<and> sb_data c = Some a" if a: "m_find (allocated h) a = Some bs" for a bs
  proof -
    obtain k c where k: "F k = Some c" "sb_data c = Some a" using ownersD(4) [OF inv a] by blast
    then have "k \<noteq> i" using i(2) by auto
    then show ?thesis
      using k j i(1) by (cases "k = j") (auto intro: exI [of _ i] exI [of _ k])
  qed
  show "wiped h" using ownersD(5) [OF inv] .
qed

section \<open>Refinement\<close>

lemma contents_eq: "contents m = (\<lambda>i. map_option (\<lambda>b. bytes b (heap m)) (m_find (objects m) i))"
  by (simp add: contents_def)

lemma replace_effect:
  assumes inv: "memory_inv m" and turn: "turns (buf m i) (heap m) b' h'" and own': "own h' b'"
    and m': "m_find (objects m') = (m_find (objects m))(i \<mapsto> b')" "heap m' = h'"
  shows "memory_inv m' \<and> contents m' = (contents m)(i \<mapsto> bytes b' h')"
proof
  have inv': "owners (m_find (objects m)) (heap m)" using inv by (simp add: memory_inv_def)
  have turn': "turns (buf_of (m_find (objects m)) i) (heap m) b' h'" using turn by (simp add: buf_def)
  show "memory_inv m'"
    using owners_update [OF inv' turn' own'] by (simp add: memory_inv_def m')
  show "contents m' = (contents m)(i \<mapsto> bytes b' h')"
    using owners_keep(1) [OF inv' turn'] by (intro ext) (auto simp: contents_eq m' intro!: option.map_cong0)
qed

lemma destroy_effect:
  assumes inv: "memory_inv m" and turn: "turns (buf m i) (heap m) SecureBuffer h'"
  shows "memory_inv (m\<lparr>objects := m_erase i (objects m), heap := h'\<rparr>)
     \<and> contents (m\<lparr>objects := m_erase i (objects m), heap := h'\<rparr>) = (contents m)(i := None)"
proof
  let ?F = "m_find (objects m)"
  have inv': "owners ?F (heap m)" using inv by (simp add: memory_inv_def)
  have turn': "turns (buf_of ?F i) (heap m) SecureBuffer h'" using turn by (simp add: buf_def)
  have F: "m_find (m_erase i (objects m)) = ?F(i := None)" by (rule ext) simp
  show "memory_inv (m\<lparr>objects := m_erase i (objects m), heap := h'\<rparr>)"
    using owners_erase [OF inv' turn'] by (simp add: memory_inv_def F SecureBuffer_def)
  show "contents (m\<lparr>objects := m_erase i (objects m), heap := h'\<rparr>) = (contents m)(i := None)"
    using owners_keep(1) [OF inv' turn'] by (intro ext) (auto simp: contents_eq intro!: option.map_cong0)
qed

lemma move_effect:
  assumes inv: "memory_inv m" and j: "m_find (objects m) j \<noteq> None" and i: "i \<noteq> j" "sb_data (buf m i) = None"
    and m': "m_find (objects m') = (m_find (objects m))(i \<mapsto> buf m j, j \<mapsto> SecureBuffer)" "heap m' = heap m"
  shows "memory_inv m' \<and> contents m' = (contents m)(i \<mapsto> the (contents m j), j \<mapsto> [])"
proof
  obtain b where b: "m_find (objects m) j = Some b" using j by blast
  then have "buf m j = b" by (simp add: buf_def)
  then show "memory_inv m'"
    using owners_move [where F = "m_find (objects m)", OF _ b i(1)] inv i(2) by (simp add: memory_inv_def m' buf_def)
  show "contents m' = (contents m)(i \<mapsto> the (contents m j), j \<mapsto> [])"
    using b by (auto simp: contents_eq m' buf_def)
qed

text \<open>Memory that ran out: only the count of the allocator's calls changes.\<close>

lemma bytes_cong: "allocated h' = allocated h \<Longrightarrow> bytes b h' = bytes b h"
  by (simp add: bytes_def block_def cong: option.case_cong)

lemma out_of_memory_effect:
  assumes inv: "memory_inv m" and turn: "turns SecureBuffer (heap m) SecureBuffer h'"
    and same: "allocated h' = allocated (heap m)" and m': "m_find (objects m') = m_find (objects m)" "heap m' = h'"
  shows "memory_inv m' \<and> contents m' = contents m"
proof
  have "own h' b = own (heap m) b" for b
    by (simp add: own_def same cong: option.case_cong)
  then show "memory_inv m'"
    using inv turn same by (auto simp: memory_inv_def owners_def m' turns_def)
  show "contents m' = contents m"
    by (simp add: contents_eq m' bytes_cong [OF same])
qed

lemma buf_own: "memory_inv m \<Longrightarrow> own (heap m) (buf m i)"
  using ownersD(1) [of "m_find (objects m)" "heap m" i]
  by (auto simp: memory_inv_def buf_def split: option.splits)

lemma buf_contents: "m_find (objects m) i \<noteq> None \<Longrightarrow> contents m i = Some (bytes (buf m i) (heap m))"
  by (auto simp: contents_eq buf_def)

lemma buf_unborn: "m_find (objects m) i = None \<Longrightarrow> buf m i = SecureBuffer"
  by (simp add: buf_def)

lemma buf_born: "m_find (objects m) i \<noteq> None \<Longrightarrow> m_find (objects m) i = Some (buf m i)"
  by (auto simp: buf_def)

text \<open>Clearing an object's buffer and filling it again.\<close>

lemma clear_fill_effect:
  assumes M: "malloc_ok M" and own: "own h b"
  shows "case fill M src (clear (b, h)) of
      (Inr _, b', h') \<Rightarrow> turns b h b' h' \<and> own h' b' \<and> bytes b' h' = src
    | (Inl e, b', h') \<Rightarrow> e = StdException ''std::bad_alloc'' \<and> turns b h b' h' \<and> own h' b' \<and> bytes b' h' = []"
proof -
  obtain h1 where c: "clear (b, h) = (SecureBuffer, h1)" and t: "turns b h SecureBuffer h1"
    using clear_effect [OF own] by (metis prod.collapse)
  have none: "sb_data SecureBuffer = None" by (simp add: SecureBuffer_def)
  show ?thesis
    using fill_effect [OF M, where src = src and h = h1] turns_trans [OF t none]
    by (auto simp: c split: prod.splits sum.splits)
qed

text \<open>What an operation must come to, in terms of the abstract store.\<close>

definition refines :: "sb_op \<Rightarrow> memory \<Rightarrow> unit result \<times> memory \<Rightarrow> bool" where
  "refines op m x \<longleftrightarrow>
     (case x of
        (Inr _, m') \<Rightarrow> memory_inv m' \<and> contents m' = spec_op op (contents m)
      | (Inl e, m') \<Rightarrow> e = StdException ''std::bad_alloc'' \<and> memory_inv m' \<and> contents m' = fail_op op (contents m))"

lemma update_fun: "m_find (m_put i b F) = (m_find F)(i \<mapsto> b)"
  by (rule ext) simp

lemma construct_refines:
  assumes inv: "memory_inv m" and i: "m_find (objects m) i = None"
    and eff: "case x of
        (Inr _, b', h') \<Rightarrow> turns SecureBuffer (heap m) b' h' \<and> own h' b'
          \<and> spec_op op (contents m) = (contents m)(i \<mapsto> bytes b' h')
      | (Inl e, b', h') \<Rightarrow> e = StdException ''std::bad_alloc'' \<and> turns SecureBuffer (heap m) SecureBuffer h'
          \<and> allocated h' = allocated (heap m) \<and> fail_op op (contents m) = contents m"
  shows "refines op m (construct i x m)"
proof (cases x)
  case (fields r b' h')
  show ?thesis
  proof (cases r)
    case (Inl e)
    then show ?thesis
      using eff fields out_of_memory_effect [OF inv, of h' "m\<lparr>heap := h'\<rparr>"] by (simp add: refines_def construct_def)
  next
    case (Inr u)
    then show ?thesis
      using eff fields replace_effect [OF inv, of i b' h' "m\<lparr>objects := m_put i b' (objects m), heap := h'\<rparr>"]
      by (simp add: refines_def construct_def buf_unborn [OF i] update_fun)
  qed
qed

lemma put_refines:
  assumes inv: "memory_inv m"
    and eff: "case x of (r, b', h') \<Rightarrow> turns (buf m i) (heap m) b' h' \<and> own h' b' \<and>
        (case r of
           Inr _ \<Rightarrow> spec_op op (contents m) = (contents m)(i \<mapsto> bytes b' h')
         | Inl e \<Rightarrow> e = StdException ''std::bad_alloc'' \<and> fail_op op (contents m) = (contents m)(i \<mapsto> bytes b' h'))"
  shows "refines op m (put i x m)"
proof (cases x)
  case (fields r b' h')
  then show ?thesis
    using eff replace_effect [OF inv, of i b' h' "m\<lparr>objects := m_put i b' (objects m), heap := h'\<rparr>"]
    by (cases r) (simp_all add: refines_def put_def update_fun)
qed

lemma clear_buf:
  assumes "memory_inv m"
  obtains h where "clear (buf m i, heap m) = (SecureBuffer, h)" "turns (buf m i) (heap m) SecureBuffer h"
  using clear_effect [OF buf_own [OF assms, of i]] by (metis prod.collapse)

lemma run_copies_refine:
  assumes M: "malloc_ok M" and inv: "memory_inv m"
  shows "m_find (objects m) i = None \<Longrightarrow> m_find (objects m) j \<noteq> None \<Longrightarrow>
      refines (New_copy i j) m (run_op M (New_copy i j) m)" (is "_ \<Longrightarrow> _ \<Longrightarrow> ?new")
    and "m_find (objects m) i \<noteq> None \<Longrightarrow> m_find (objects m) j \<noteq> None \<Longrightarrow>
      refines (Copy_assign i j) m (run_op M (Copy_assign i j) m)" (is "_ \<Longrightarrow> _ \<Longrightarrow> ?assign")
    and "m_find (objects m) i \<noteq> None \<Longrightarrow> refines (Assign i src) m (run_op M (Assign i src) m)"
proof -
  let ?src = "bytes (buf m j) (heap m)"
  show ?new if "m_find (objects m) i = None" "m_find (objects m) j \<noteq> None"
  proof -
    obtain r b' h' where x: "fill M ?src (SecureBuffer, heap m) = (r, b', h')" by (metis prod.exhaust)
    then show ?thesis
      using fill_effect [OF M, where src = ?src and h = "heap m"] buf_contents [OF that(2)]
        construct_refines [OF inv that(1), where x = "(r, b', h')" and op = "New_copy i j"]
      by (cases r) simp_all
  qed
  show ?assign if i: "m_find (objects m) i \<noteq> None" and j: "m_find (objects m) j \<noteq> None"
  proof (cases "i = j")
    case True
    then show ?thesis using inv buf_contents [OF j] by (simp add: refines_def fun_upd_idem)
  next
    case False
    obtain h where h: "clear (buf m i, heap m) = (SecureBuffer, h)" "turns (buf m i) (heap m) SecureBuffer h"
      by (rule clear_buf [OF inv])
    have "bytes (buf m j) h = ?src"
      by (rule owners_keep(1) [where F = "m_find (objects m)" and i = i, OF _ _ buf_born [OF j]])
        (use inv h(2) False in \<open>simp_all add: memory_inv_def buf_def\<close>)
    then have run: "run_op M (Copy_assign i j) m = put i (fill M ?src (clear (buf m i, heap m))) m"
      using False h(1) by simp
    obtain r b' h' where x: "fill M ?src (clear (buf m i, heap m)) = (r, b', h')" by (metis prod.exhaust)
    show ?thesis
      using clear_fill_effect [OF M buf_own [OF inv], where src = ?src and i1 = i] buf_contents [OF j]
        put_refines [OF inv, where x = "(r, b', h')" and i = i and op = "Copy_assign i j"]
      unfolding run x by (cases r) simp_all
  qed
  show "refines (Assign i src) m (run_op M (Assign i src) m)" if "m_find (objects m) i \<noteq> None"
  proof -
    obtain r b' h' where x: "fill M src (clear (buf m i, heap m)) = (r, b', h')" by (metis prod.exhaust)
    show ?thesis
      using clear_fill_effect [OF M buf_own [OF inv], where src = src and i1 = i]
        put_refines [OF inv, where x = "(r, b', h')" and i = i and op = "Assign i src"]
      unfolding run_op.simps x by (cases r) simp_all
  qed
qed

lemma run_moves_refine:
  assumes inv: "memory_inv m" and j: "m_find (objects m) j \<noteq> None"
  shows "m_find (objects m) i = None \<Longrightarrow> refines (New_move i j) m (run_op M (New_move i j) m)"
    and "m_find (objects m) i \<noteq> None \<Longrightarrow> refines (Move_assign i j) m (run_op M (Move_assign i j) m)"
proof -
  have none: "sb_data SecureBuffer = None" by (simp add: SecureBuffer_def)
  show "refines (New_move i j) m (run_op M (New_move i j) m)" if i: "m_find (objects m) i = None"
  proof -
    have "i \<noteq> j" using i j by auto
    then show ?thesis
      using move_effect [OF inv j, of i "snd (run_op M (New_move i j) m)"] none
      by (simp add: refines_def buf_unborn [OF i] update_fun)
  qed
  show "refines (Move_assign i j) m (run_op M (Move_assign i j) m)" if i: "m_find (objects m) i \<noteq> None"
  proof (cases "i = j")
    case True
    then show ?thesis using inv by (simp add: refines_def)
  next
    case False
    obtain h where h: "clear (buf m i, heap m) = (SecureBuffer, h)" "turns (buf m i) (heap m) SecureBuffer h"
      by (rule clear_buf [OF inv])
    let ?m = "m\<lparr>objects := m_put i SecureBuffer (objects m), heap := h\<rparr>"
    have m: "memory_inv ?m" "contents ?m = (contents m)(i \<mapsto> [])"
      using replace_effect [OF inv h(2), of ?m] by (simp_all add: update_fun)
    have "buf ?m j = buf m j" using False by (simp add: buf_def)
    then show ?thesis
      using move_effect [OF m(1), of j i "snd (run_op M (Move_assign i j) m)"] False h(1) j none m(2)
      by (auto simp: refines_def update_fun buf_def)
  qed
qed

lemma run_resize_refines:
  assumes M: "malloc_ok M" and inv: "memory_inv m" and i: "m_find (objects m) i \<noteq> None"
  shows "refines (Resize i n) m (run_op M (Resize i n) m)"
proof -
  let ?b = "buf m i"
  have low: "a < mallocs (heap m)" if "sb_data ?b = Some a" for a
    using owner_below [of "m_find (objects m)" "heap m" i ?b a] inv that buf_born [OF i] by (simp add: memory_inv_def)
  obtain r b' h' where x: "resize M n (?b, heap m) = (r, b', h')" by (metis prod.exhaust)
  note eff = resize_effect [where b = ?b, OF M buf_own [OF inv] low, where n = n, unfolded x]
  note refines = put_refines [OF inv, where x = "(r, b', h')" and i = i and op = "Resize i n"]
  show ?thesis
  proof (cases r)
    case (Inl e)
    then have "b' = ?b" "turns ?b (heap m) ?b h'" "e = StdException ''std::bad_alloc''" and h': "allocated h' = allocated (heap m)"
      using eff by simp_all
    moreover have "own h' ?b"
      using buf_own [OF inv, of i] h' by (simp add: own_def cong: option.case_cong)
    moreover have "(contents m)(i \<mapsto> bytes ?b h') = contents m"
      using buf_contents [OF i] bytes_cong [OF h', of ?b] by (simp add: fun_upd_idem)
    ultimately show ?thesis using refines Inl x by simp
  next
    case (Inr u)
    then show ?thesis using refines eff buf_contents [OF i] x by simp
  qed
qed

lemma run_op_refines:
  assumes M: "malloc_ok M" and inv: "memory_inv m" and op: "op_ok op m"
  shows "refines op m (run_op M op m)"
  using op
proof (cases op)
  case (New i)
  then show ?thesis
    using op construct_refines [OF inv, where i = i and x = "(Inr (), SecureBuffer, heap m)" and op = op] by simp
next
  case (New_size i n)
  then show ?thesis
    using op SecureBuffer_size_effect [OF M, where n = n and h = "heap m"]
      construct_refines [OF inv, where i = i and x = "SecureBuffer_size M n (heap m)" and op = op]
    by (cases "SecureBuffer_size M n (heap m)"; cases "fst (SecureBuffer_size M n (heap m))") simp_all
next
  case (Resize i n)
  then show ?thesis using op run_resize_refines [OF M inv] by simp
next
  case (Clear i)
  obtain h where "clear (buf m i, heap m) = (SecureBuffer, h)" "turns (buf m i) (heap m) SecureBuffer h"
    by (rule clear_buf [OF inv])
  then show ?thesis using Clear put_refines [OF inv, where x = "(Inr (), SecureBuffer, h)" and i = i and op = op] by simp
next
  case (Destroy i)
  obtain h where "clear (buf m i, heap m) = (SecureBuffer, h)" "turns (buf m i) (heap m) SecureBuffer h"
    by (rule clear_buf [OF inv])
  then show ?thesis using Destroy destroy_effect [OF inv] by (simp add: refines_def)
next
  case (Set_byte i k v)
  then have i: "m_find (objects m) i \<noteq> None" and k: "k < sb_size (buf m i)" using op by simp_all
  have own: "own (heap m) (buf m i)" by (rule buf_own [OF inv])
  then obtain a where a: "sb_data (buf m i) = Some a" using k by (auto simp: own_def split: option.splits)
  let ?h = "(heap m)\<lparr>allocated := m_put a ((block (heap m) a)[k := v]) (allocated (heap m))\<rparr>"
  have bs: "block (heap m) a = bytes (buf m i) (heap m)" "length (bytes (buf m i) (heap m)) = sb_size (buf m i)"
    using own_bytes [OF own a] own_length [OF own] by simp_all
  have "turns (buf m i) (heap m) (buf m i) ?h" "own ?h (buf m i)"
    "bytes (buf m i) ?h = (bytes (buf m i) (heap m))[k := v]"
    using a k bs by (auto simp: turns_def own_def wiped_def bytes_def block_def)
  then show ?thesis
    using Set_byte a replace_effect [OF inv, of i "buf m i" ?h "m\<lparr>heap := ?h\<rparr>"] buf_contents [OF i] buf_born [OF i]
    by (simp add: refines_def fun_upd_idem)
qed (use run_copies_refine [OF M inv] run_moves_refine [OF inv] in simp_all)

section \<open>Runs\<close>

definition no_objects :: memory where
  "no_objects = \<lparr>objects = [], heap = \<lparr>allocated = [], released = [], mallocs = 0\<rparr>\<rparr>"

inductive sb_step :: "memory \<Rightarrow> memory \<Rightarrow> bool" where
  "malloc_ok M \<Longrightarrow> op_ok op m \<Longrightarrow> sb_step m (snd (run_op M op m))"

inductive_cases sb_stepE: "sb_step m m'"

interpretation sb: machine "\<lambda>m. m = no_objects" sb_step memory_inv
proof unfold_locales
  show "memory_inv m" if "m = no_objects" for m
    using that by (simp add: no_objects_def memory_inv_def owners_def wiped_def)
  show "memory_inv m'" if inv: "memory_inv m" and "sb_step m m'" for m m'
    using \<open>sb_step m m'\<close>
  proof (rule sb_stepE)
    fix M op
    assume "m' = snd (run_op M op m)" "malloc_ok M" "op_ok op m"
    then show "memory_inv m'"
      using run_op_refines [OF _ inv, of M op] by (auto simp: refines_def split: prod.splits sum.splits)
  qed
qed

lemma reachable_memory_inv: "sb_step\<^sup>*\<^sup>* no_objects m \<Longrightarrow> memory_inv m"
  using sb.reachable_inv by blast

text \<open>C8: SecureBuffer behaves as a byte string with value semantics. Whatever constructors, copies,
  moves, assignments, resizes and destructions ran before, and whatever the allocator's fresh memory
  contains, every operation changes the visible contents exactly as the abstract store says: growing
  exposes only zeros, a moved-from buffer is empty, self-assignment changes nothing. When memory runs
  out it throws \<^verbatim>\<open>std::bad_alloc\<close>; copy assignment and \<^verbatim>\<open>assign\<close> have emptied their target then, and
  nothing else has changed.\<close>

theorem secure_buffer_refines:
  assumes "malloc_ok M" and "sb_step\<^sup>*\<^sup>* no_objects m" and "op_ok op m"
  shows "case run_op M op m of
      (Inr _, m') \<Rightarrow> contents m' = spec_op op (contents m)
    | (Inl e, m') \<Rightarrow> e = StdException ''std::bad_alloc'' \<and> contents m' = fail_op op (contents m)"
  using run_op_refines [OF assms(1) reachable_memory_inv [OF assms(2)] assms(3)]
  by (auto simp: refines_def split: prod.splits sum.splits)

text \<open>A buffer of two bytes with the second one set, moved to another object; memory comes with rubbish in it.\<close>

definition rubbish :: malloc where
  "rubbish n sz = (if n < 4 then Some (replicate sz 170) else None)"

primrec run_ops :: "sb_op list \<Rightarrow> memory \<Rightarrow> memory" where
  "run_ops [] m = m"
| "run_ops (op # ops) m = run_ops ops (snd (run_op rubbish op m))"

primrec ops_ok :: "sb_op list \<Rightarrow> memory \<Rightarrow> bool" where
  "ops_ok [] m \<longleftrightarrow> True"
| "ops_ok (op # ops) m \<longleftrightarrow> op_ok op m \<and> ops_ok ops (snd (run_op rubbish op m))"

lemma rubbish_ok: "malloc_ok rubbish"
  by (auto simp: malloc_ok_def rubbish_def split: if_splits)

lemma run_ops_steps: "ops_ok ops m \<Longrightarrow> sb_step\<^sup>*\<^sup>* m (run_ops ops m)"
  by (induction ops arbitrary: m) (auto intro: converse_rtranclp_into_rtranclp sb_step.intros [OF rubbish_ok])

definition demo_memory :: memory where
  "demo_memory = run_ops [New_size 0 2, Set_byte 0 1 9, New 1, Move_assign 1 0] no_objects"

lemma demo_reachable: "sb_step\<^sup>*\<^sup>* no_objects demo_memory"
  unfolding demo_memory_def by (rule run_ops_steps) code_simp

theorem secure_buffer_refines_witness:
  "malloc_ok rubbish \<and> sb_step\<^sup>*\<^sup>* no_objects demo_memory \<and> op_ok (Resize 1 3) demo_memory
     \<and> (case run_op rubbish (Resize 1 3) demo_memory of
          (Inr _, m') \<Rightarrow> contents m' = spec_op (Resize 1 3) (contents demo_memory)
        | (Inl e, m') \<Rightarrow> e = StdException ''std::bad_alloc''
            \<and> contents m' = fail_op (Resize 1 3) (contents demo_memory))
     \<and> map (contents demo_memory) [0, 1] = [Some [], Some [0, 9]]"
proof -
  have ok: "op_ok (Resize 1 3) demo_memory" by code_simp
  have "map (contents demo_memory) [0, 1] = [Some [], Some [0, 9]]" by code_simp
  then show ?thesis
    using secure_buffer_refines [OF rubbish_ok demo_reachable ok] rubbish_ok demo_reachable ok by blast
qed

text \<open>C27: SecureBuffer neither leaks nor shares nor exposes memory. In every reachable state the
  allocated blocks are exactly those that live objects point to, no two objects point to the same one,
  an object's size is its block's size, and every block ever returned to the allocator was all zeros at
  that moment. In particular a program that has destroyed its buffers holds no memory.\<close>

theorem secure_buffer_memory_safe:
  assumes "sb_step\<^sup>*\<^sup>* no_objects m"
  shows "(\<forall>a. m_find (allocated (heap m)) a \<noteq> None \<longleftrightarrow> (\<exists>i b. m_find (objects m) i = Some b \<and> sb_data b = Some a))
     \<and> (\<forall>i j b c. m_find (objects m) i = Some b \<and> m_find (objects m) j = Some c \<and> i \<noteq> j \<and> sb_data b \<noteq> None
          \<longrightarrow> sb_data b \<noteq> sb_data c)
     \<and> (\<forall>i b a. m_find (objects m) i = Some b \<and> sb_data b = Some a \<longrightarrow> length (block (heap m) a) = sb_size b)
     \<and> (\<forall>bs \<in> set (released (heap m)). bs = zeros (length bs))"
proof -
  have inv: "owners (m_find (objects m)) (heap m)"
    using reachable_memory_inv [OF assms] by (simp add: memory_inv_def)
  have owned: "m_find (allocated (heap m)) a \<noteq> None" if "m_find (objects m) i = Some b" "sb_data b = Some a" for i b a
    using own_bytes [OF ownersD(1) [OF inv that(1)] that(2)] by simp
  have alone: "sb_data b \<noteq> sb_data c"
    if "m_find (objects m) i = Some b \<and> m_find (objects m) j = Some c \<and> i \<noteq> j \<and> sb_data b \<noteq> None" for i j b c
    using that ownersD(2) [OF inv, of i b j c] by force
  have sized: "length (block (heap m) a) = sb_size b"
    if "m_find (objects m) i = Some b \<and> sb_data b = Some a" for i b a
    using own_bytes [of "heap m" b a] own_length [of "heap m" b] ownersD(1) [OF inv, of i b] that by simp
  have "m_find (allocated (heap m)) a \<noteq> None \<longleftrightarrow> (\<exists>i b. m_find (objects m) i = Some b \<and> sb_data b = Some a)" for a
    using owned ownersD(4) [OF inv, of a] by blast
  then show ?thesis
    using alone sized ownersD(5) [OF inv] unfolding wiped_def by blast
qed

text \<open>The same buffer grown, and everything destroyed.\<close>

definition demo_freed :: memory where
  "demo_freed = run_ops [Resize 1 3, Destroy 1, Destroy 0] demo_memory"

theorem secure_buffer_memory_safe_witness:
  "sb_step\<^sup>*\<^sup>* no_objects demo_freed
     \<and> hd (released (heap demo_freed)) = zeros (length (hd (released (heap demo_freed))))
     \<and> map length (released (heap demo_freed)) = [2, 3] \<and> allocated (heap demo_freed) = []"
proof -
  have "sb_step\<^sup>*\<^sup>* demo_memory demo_freed"
    unfolding demo_freed_def by (rule run_ops_steps) code_simp
  then have reach: "sb_step\<^sup>*\<^sup>* no_objects demo_freed" using demo_reachable by (rule rtranclp_trans [rotated])
  have view: "map length (released (heap demo_freed)) = [2, 3] \<and> allocated (heap demo_freed) = []" by code_simp
  then have "hd (released (heap demo_freed)) \<in> set (released (heap demo_freed))"
    by (intro hd_in_set) auto
  then have "hd (released (heap demo_freed)) = zeros (length (hd (released (heap demo_freed))))"
    using secure_buffer_memory_safe [OF reach] by blast
  with reach view show ?thesis by blast
qed

end
