(* ===== verification/ClientSends.thy ===== *)
theory ClientSends
  imports ServerInitiated
begin

text \<open>
  Concurrent calls of \<^verbatim>\<open>WsClientWrapper::send\<close> (\<^verbatim>\<open>ws_client.cpp\<close>). The client has no lock around its
  session: a call checks the connection, encrypts, which takes the next counter, and hands the packet to
  the transport, and the calls of other threads may come between these three steps. The theory has the
  steps of one call, their interleavings as schedules of threads, and what the server receives under each.
  A step is taken to be atomic; the unsynchronised increment of \<^verbatim>\<open>send_counter_\<close> itself, undefined
  behaviour in C++, is not split further, so what is lost here is lost even when that race does not strike.
\<close>

section \<open>Schedules\<close>

text \<open>A schedule lists which thread takes the next step. \<open>turns k\<close> are the threads in the order in
  which each took its step number \<open>k\<close>, counted from 0.\<close>

definition turns :: "nat \<Rightarrow> nat list \<Rightarrow> nat list" where
  "turns k sched = map (nth sched) (filter (\<lambda>t. count_list (take t sched) (sched ! t) = k) [0..<length sched])"

lemma turns_Nil [simp]: "turns k [] = []"
  by (simp add: turns_def)

lemma turns_snoc [simp]: "turns k (sched @ [i]) = turns k sched @ (if count_list sched i = k then [i] else [])"
proof -
  have "filter (\<lambda>t. count_list (take t (sched @ [i])) ((sched @ [i]) ! t) = k) [0..<length sched]
      = filter (\<lambda>t. count_list (take t sched) (sched ! t) = k) [0..<length sched]"
    by (intro filter_cong) (simp_all add: nth_append)
  then show ?thesis
    by (auto simp: turns_def nth_append)
qed

lemma count_list_snoc [simp]: "count_list (xs @ [y]) x = count_list xs x + (if y = x then 1 else 0)"
  by simp

lemma in_turns: "i \<in> set (turns k sched) \<longleftrightarrow> k < count_list sched i"
  by (induction sched rule: rev_induct) auto

lemma distinct_turns: "distinct (turns k sched)"
  by (induction sched rule: rev_induct) (auto simp: in_turns)

lemma turns_inside: "set (turns k sched) \<subseteq> set sched"
  by (induction sched rule: rev_induct) auto

definition position :: "'a \<Rightarrow> 'a list \<Rightarrow> nat" where
  "position x xs = length (takeWhile (\<lambda>y. y \<noteq> x) xs)"

lemma position_Nil [simp]: "position x [] = 0"
  by (simp add: position_def)

lemma position_Cons [simp]: "position x (y # xs) = (if y = x then 0 else Suc (position x xs))"
  by (simp add: position_def)

lemma position_append:
  "position x (xs @ ys) = (if x \<in> set xs then position x xs else length xs + position x ys)"
  by (induction xs) (auto simp: position_def)

lemma position_less: "x \<in> set xs \<Longrightarrow> position x xs < length xs"
  by (induction xs) (auto simp: position_def)

section \<open>The client: \<^verbatim>\<open>send\<close> without a lock\<close>

text \<open>How far a call of \<^verbatim>\<open>send\<close> has come: called; past the checks of the connection and of the size;
  encrypted, the packet in hand; returned.\<close>

datatype send_phase = Called payload | Admitted payload | Sealed byte_vector | Returned "unit result"

record client_sends =
  sending_client :: client
  send_phases :: "send_phase list"

text \<open>The next step of a call, on the client it finds. An exception of the \<^verbatim>\<open>try\<close> block is logged and the
  call returns.\<close>

definition logged :: "unit result \<times> client \<Rightarrow> send_phase \<times> client" where
  "logged rc = (case catch_std rc (\<lambda>c. (Inr (), c)) of (r, c) \<Rightarrow> (Returned r, c))"

fun client_send_phase :: "client_env \<Rightarrow> send_phase \<Rightarrow> client \<Rightarrow> send_phase \<times> client" where
  "client_send_phase E (Called p) c =
     (if \<not> is_connected c \<or> \<not> is_handshake_complete (c_session c)
      then (Returned (Inl (LogicError ''Session not ready for sending data.'')), c)
      else if too_large (c_config c) p
      then (Returned (Inl (LogicError ''Payload exceeds max_decrypted_payload limit.'')), c)
      else (Admitted p, c))"
| "client_send_phase E (Admitted p) c =
     (case client_encrypt E p c of
        (Inl e, c) \<Rightarrow> logged (Inl e, c)
      | (Inr packet, c) \<Rightarrow> (Sealed packet, c))"
| "client_send_phase E (Sealed packet) c = logged (client_transport E packet c)"
| "client_send_phase E (Returned r) c = (Returned r, c)"

definition client_send_step :: "client_env \<Rightarrow> nat \<Rightarrow> client_sends \<Rightarrow> client_sends" where
  "client_send_step E i s =
     (if length (send_phases s) \<le> i then s
      else case client_send_phase E (send_phases s ! i) (sending_client s) of
             (ph, c) \<Rightarrow> \<lparr>sending_client = c, send_phases = (send_phases s)[i := ph]\<rparr>)"

definition run_client_sends :: "client_env \<Rightarrow> nat list \<Rightarrow> client_sends \<Rightarrow> client_sends" where
  "run_client_sends E sched s = fold (client_send_step E) sched s"

lemma run_client_sends_snoc [simp]:
  "run_client_sends E [] s = s"
  "run_client_sends E (sched @ [i]) s = client_send_step E i (run_client_sends E sched s)"
  by (simp_all add: run_client_sends_def)

text \<open>A thread that is not interrupted does what \<open>client_send\<close> does.\<close>

lemma client_send_phases:
  "(case client_send_phase E (Called p) c of (ph, c) \<Rightarrow>
     case client_send_phase E ph c of (ph, c) \<Rightarrow> client_send_phase E ph c)
   = (case client_send E p c of (r, c) \<Rightarrow> (Returned r, c))"
proof (cases "client_encrypt E p c")
  case (Pair r d)
  then show ?thesis
    by (cases r; cases "client_transport E (projr r) d"; cases "fst (client_transport E (projr r) d)")
      (simp_all add: client_send_def logged_def)
qed

lemma client_send_uninterrupted:
  assumes "i < length (send_phases s)" and "send_phases s ! i = Called p"
    and "client_send E p (sending_client s) = (r, c)"
  shows "run_client_sends E [i, i, i] s = \<lparr>sending_client = c, send_phases = (send_phases s)[i := Returned r]\<rparr>"
  using assms client_send_phases [of E p "sending_client s"]
  by (simp add: run_client_sends_def client_send_step_def split_beta prod_eq_iff)

text \<open>Calls of \<open>send\<close> with the payloads \<open>ps\<close>, one per thread, on one client.\<close>

definition client_calls :: "client \<Rightarrow> payload list \<Rightarrow> client_sends" where
  "client_calls c ps = \<lparr>sending_client = c, send_phases = map Called ps\<rparr>"

section \<open>What a schedule does\<close>

definition phase_after :: "nat \<Rightarrow> payload \<Rightarrow> byte_vector \<Rightarrow> send_phase" where
  "phase_after n p packet =
     (if n = 0 then Called p else if n = 1 then Admitted p else if n = 2 then Sealed packet else Returned (Inr ()))"

text \<open>The state after a schedule: who has encrypted, in which order, and whose packet is on the wire,
  in which order. \<open>packet i\<close> is the packet of thread \<open>i\<close>.\<close>

definition sends_after ::
  "client_env \<Rightarrow> client \<Rightarrow> payload list \<Rightarrow> byte_vector \<Rightarrow> (nat \<Rightarrow> byte_vector) \<Rightarrow> nat list \<Rightarrow> client_sends \<Rightarrow> bool" where
  "sends_after E c ps k packet sched s \<longleftrightarrow>
     c_session (sending_client s)
       = (c_session c)\<lparr>send_counter := send_counter (c_session c) + of_nat (length (turns 1 sched))\<rparr>
     \<and> is_connected (sending_client s) \<and> c_config (sending_client s) = c_config c
     \<and> c_sent (sending_client s) = c_sent c @ map packet (turns 2 sched)
     \<and> send_phases s = map (\<lambda>i. phase_after (count_list sched i) (ps ! i) (packet i)) [0..<length ps]
     \<and> (\<forall>i \<in> set (turns 1 sched). decrypt (ce_sodium E) (packet i) k
          = Inr \<lparr>dec_payload = ps ! i, dec_counter = send_counter (c_session c) + of_nat (Suc (position i (turns 1 sched)))\<rparr>)"

lemma turns_bounded:
  assumes "list_all (\<lambda>i. i < n) sched"
  shows "length (turns k sched) \<le> n" and "i \<in> set (turns k sched) \<Longrightarrow> i < n"
proof -
  have inside: "set (turns k sched) \<subseteq> {..<n}"
    using assms turns_inside [of k sched] by (auto simp: list_all_iff)
  then show "length (turns k sched) \<le> n"
    using card_mono [OF finite_lessThan inside] distinct_card [OF distinct_turns [of k sched]] by simp
  show "i < n" if "i \<in> set (turns k sched)" using inside that by blast
qed

lemma map_upt_update:
  "i < n \<Longrightarrow> f i = x \<Longrightarrow> (\<And>j. j \<noteq> i \<Longrightarrow> f j = g j) \<Longrightarrow> (map g [0..<n])[i := x] = map f [0..<n]"
  by (rule nth_equalityI) (auto simp: nth_list_update)

lemma encrypt_seals:
  assumes "sodium_ok S" and "handshake_complete s" and "sess_keys s = Some keys" and "length (tx keys) = 32"
  shows "\<exists>packet. encrypt_payload S rnd p s = (Inr packet, s\<lparr>send_counter := send_counter s + 1\<rparr>)
     \<and> decrypt S packet (tx keys) = Inr \<lparr>dec_payload = p, dec_counter = send_counter s + 1\<rparr>"
  using crypto_channel.sealed_opens [OF assms(1,4), of rnd p "send_counter s + 1"] assms(2,3)
  by (auto simp: encrypt_payload_def)

lemma phases_advance:
  assumes "sends_after E c ps k packet sched s" and "i < length ps" and "\<And>j. j \<noteq> i \<Longrightarrow> packet' j = packet j"
  shows "(send_phases s)[i := phase_after (Suc (count_list sched i)) (ps ! i) (packet' i)]
      = map (\<lambda>j. phase_after (count_list (sched @ [i]) j) (ps ! j) (packet' j)) [0..<length ps]"
  using assms by (auto simp: sends_after_def intro!: map_upt_update)

text \<open>The second step of a call, which encrypts.\<close>

lemma sends_after_encrypt:
  assumes ok: "sodium_ok (ce_sodium E)" and up: "handshake_complete (c_session c)"
    and k: "sess_keys (c_session c) = Some keys" "length (tx keys) = 32"
    and i: "i < length ps" "count_list sched i = 1" and inv: "sends_after E c ps (tx keys) packet sched s"
    and ph: "send_phases s ! i = Admitted (ps ! i)" and len: "length (send_phases s) = length ps"
  shows "\<exists>packet. sends_after E c ps (tx keys) packet (sched @ [i]) (client_send_step E i s)"
proof -
  let ?d = "sending_client s"
  have new: "i \<notin> set (turns 1 sched)" "i \<notin> set (turns 2 sched)" using i(2) by (simp_all add: in_turns)
  obtain q where q: "encrypt_payload (ce_sodium E) (c_draws ?d) (ps ! i) (c_session ?d)
        = (Inr q, (c_session ?d)\<lparr>send_counter := send_counter (c_session ?d) + 1\<rparr>)"
      "decrypt (ce_sodium E) q (tx keys) = Inr \<lparr>dec_payload = ps ! i, dec_counter = send_counter (c_session ?d) + 1\<rparr>"
    using encrypt_seals [OF ok, of "c_session ?d" keys "c_draws ?d" "ps ! i"] up k inv
    by (auto simp: sends_after_def)
  have "client_send_step E i s = \<lparr>sending_client = ?d\<lparr>c_session :=
        (c_session ?d)\<lparr>send_counter := send_counter (c_session ?d) + 1\<rparr>, c_draws := c_draws ?d + 1\<rparr>,
      send_phases = (send_phases s)[i := Sealed q]\<rparr>"
    using ph len i q(1) by (simp add: client_send_step_def client_encrypt_def)
  moreover have "map (packet(i := q)) (turns 2 sched) = map packet (turns 2 sched)"
    using new(2) by simp
  moreover have "(send_phases s)[i := Sealed q]
      = map (\<lambda>j. phase_after (count_list (sched @ [i]) j) (ps ! j) ((packet(i := q)) j)) [0..<length ps]"
    using phases_advance [OF inv i(1), of "packet(i := q)"] i(2)
    by (simp add: phase_after_def [of "Suc (Suc 0)"] del: count_list_append)
  ultimately show ?thesis
    using inv i(2) q(2) new
    by (intro exI [of _ "packet(i := q)"])
      (auto simp: sends_after_def position_append add_ac simp del: count_list_append)
qed

lemma sends_after_step:
  assumes ok: "sodium_ok (ce_sodium E)" and up: "handshake_complete (c_session c)"
    and k: "sess_keys (c_session c) = Some keys" "length (tx keys) = 32"
    and net: "\<And>n. ce_transport E n = None" and fits: "list_all (\<lambda>p. \<not> too_large (c_config c) p) ps"
    and i: "i < length ps" and inv: "sends_after E c ps (tx keys) packet sched s"
  shows "\<exists>packet. sends_after E c ps (tx keys) packet (sched @ [i]) (client_send_step E i s)"
proof -
  let ?d = "sending_client s"
  let ?n = "count_list sched i"
  have ph: "send_phases s ! i = phase_after ?n (ps ! i) (packet i)" and len: "length (send_phases s) = length ps"
    using inv i by (simp_all add: sends_after_def)
  note same = phases_advance [OF inv i, of packet]
  consider "?n = 0" | "?n = 1" | "?n = 2" | "?n > 2" by linarith
  then show ?thesis
  proof cases
    case 1
    have "client_send_step E i s = s\<lparr>send_phases := (send_phases s)[i := Admitted (ps ! i)]\<rparr>"
      using 1 ph len i inv up fits
      by (simp add: client_send_step_def phase_after_def sends_after_def is_handshake_complete_def list_all_length)
    then show ?thesis
      using inv 1 same by (intro exI [of _ packet])
        (simp add: sends_after_def phase_after_def [of "Suc 0"] del: count_list_append)
  next
    case 2
    then show ?thesis
      using sends_after_encrypt [OF ok up k i 2 inv _ len] ph by (simp add: phase_after_def)
  next
    case 3
    have "client_send_step E i s = \<lparr>sending_client = ?d\<lparr>c_net_calls := c_net_calls ?d + 1, c_sent := c_sent ?d @ [packet i]\<rparr>,
        send_phases = (send_phases s)[i := Returned (Inr ())]\<rparr>"
      using 3 ph len i net by (simp add: client_send_step_def phase_after_def client_transport_def logged_def)
    then show ?thesis
      using inv 3 same by (intro exI [of _ packet])
        (simp add: sends_after_def phase_after_def [of 3] del: count_list_append)
  next
    case 4
    have "client_send_step E i s = s"
      using 4 ph list_update_id [of "send_phases s" i] by (simp add: client_send_step_def phase_after_def)
    then show ?thesis
      using inv 4 same ph list_update_id [of "send_phases s" i] by (intro exI [of _ packet])
        (simp add: sends_after_def phase_after_def [of "Suc ?n"] phase_after_def [of ?n] del: count_list_append)
  qed
qed

lemma sends_after_schedule:
  assumes "sodium_ok (ce_sodium E)" and "handshake_complete (c_session c)" and "is_connected c"
    and "sess_keys (c_session c) = Some keys" and "length (tx keys) = 32"
    and "\<And>n. ce_transport E n = None" and "list_all (\<lambda>p. \<not> too_large (c_config c) p) ps"
    and "list_all (\<lambda>i. i < length ps) sched"
  shows "\<exists>packet. sends_after E c ps (tx keys) packet sched (run_client_sends E sched (client_calls c ps))"
  using assms(8)
proof (induction sched rule: rev_induct)
  case Nil
  have "map Called ps = map (\<lambda>i. phase_after 0 (ps ! i) []) [0..<length ps]"
    by (rule nth_equalityI) (simp_all add: phase_after_def)
  then have "sends_after E c ps (tx keys) (\<lambda>_. []) [] (client_calls c ps)"
    using assms(3) by (simp add: sends_after_def client_calls_def)
  then show ?case by auto
next
  case (snoc i sched)
  then obtain packet where "sends_after E c ps (tx keys) packet sched (run_client_sends E sched (client_calls c ps))"
    by auto
  then show ?case
    using sends_after_step [OF assms(1,2,4,5,6,7)] snoc.prems by simp
qed

lemma counter_order:
  assumes "unat (c :: u64) + n < 2 ^ 64" and "i < n" and "j < n"
  shows "c + of_nat (Suc i) < c + of_nat (Suc j) \<longleftrightarrow> i < j" and "c < c + of_nat (Suc i)"
proof -
  have "unat (c + of_nat (Suc m)) = unat c + Suc m" if "m < n" for m
  proof -
    have "unat (of_nat (Suc m) :: u64) = Suc m"
      using assms(1) that by (simp add: unat_of_nat del: of_nat_Suc)
    then show ?thesis
      using assms(1) that by (simp add: unat_word_ariths(1) del: of_nat_Suc)
  qed
  then show "c + of_nat (Suc i) < c + of_nat (Suc j) \<longleftrightarrow> i < j" "c < c + of_nat (Suc i)"
    using assms(2,3) unfolding word_less_nat_alt by (simp_all del: of_nat_Suc)
qed

text \<open>C12: what concurrent calls of the client's \<open>send\<close> achieve, for every interleaving. Each call checks,
  encrypts and transmits as three steps, and nothing keeps another call from stepping in between. Whatever
  the schedule, every call that has made its three steps returns normally; the server's session hands on
  exactly the payloads at the left-to-right maxima, by the order of encryption, of the order of transmission.
  All of them arrive just when the two orders agree: a packet overtaken between its encryption and its
  transmission is rejected as a replay, and its \<open>send\<close> returned as if it had been sent.\<close>

theorem client_sends_delivery:
  assumes "sodium_ok (ce_sodium E)" and "linked (c_session c) b" and "is_connected c"
    and "recv_counter b \<le> send_counter (c_session c)" and "unat (send_counter (c_session c)) + length ps < 2 ^ 64"
    and "\<And>n. ce_transport E n = None" and "list_all (\<lambda>p. \<not> too_large (c_config c) p) ps"
    and "list_all (\<lambda>i. i < length ps) sched"
    and "t = run_client_sends E sched (client_calls c ps)"
  shows "\<exists>frames. c_sent (sending_client t) = c_sent c @ frames
     \<and> list_all (\<lambda>i. send_phases t ! i = Returned (Inr ())) (turns 2 sched)
     \<and> received (ce_sodium E) frames b
         = map (nth ps) (ltr_maxima (\<lambda>i. position i (turns 1 sched)) (turns 2 sched))
     \<and> (length (received (ce_sodium E) frames b) = length frames
         \<longleftrightarrow> sorted_wrt (\<lambda>i j. position i (turns 1 sched) < position j (turns 1 sched)) (turns 2 sched))"
proof -
  obtain ka kb where k: "sess_keys (c_session c) = Some ka" "sess_keys b = Some kb" "tx ka = rx kb"
      "length (tx ka) = 32" "handshake_complete (c_session c)" "handshake_complete b"
    using assms(2) by (auto simp: linked_def)
  obtain packet where inv: "sends_after E c ps (tx ka) packet sched t"
    using sends_after_schedule [OF assms(1) k(5) assms(3) k(1,4) assms(6,7,8)] assms(9) by blast
  let ?at = "\<lambda>i. position i (turns 1 sched)"
  have sealed: "i \<in> set (turns 1 sched)" if "i \<in> set (turns 2 sched)" for i
    using that by (simp add: in_turns)
  have at: "?at i < length ps" if "i \<in> set (turns 2 sched)" for i
    using position_less [OF sealed [OF that]] turns_bounded(1) [OF assms(8), of 1] by simp
  have opens: "decrypt (ce_sodium E) (packet i) (rx kb) = Inr \<lparr>dec_payload = ps ! i, dec_counter = packet_counter (packet i)\<rparr>"
      "packet_counter (packet i) = send_counter (c_session c) + of_nat (Suc (?at i))" if "i \<in> set (turns 2 sched)" for i
    using inv sealed [OF that] decrypt_counter [of "ce_sodium E" "packet i" "tx ka"] k(3) by (auto simp: sends_after_def)
  have fresh: "recv_counter b < packet_counter (packet i)" if "i \<in> set (turns 2 sched)" for i
    using counter_order(2) [OF assms(5) at at] that assms(4) opens(2) by (metis order_le_less_trans)
  have ordered: "packet_counter (packet i) < packet_counter (packet j) \<longleftrightarrow> ?at i < ?at j"
    if "i \<in> set (turns 2 sched)" "j \<in> set (turns 2 sched)" for i j
    using counter_order(1) [OF assms(5) at at] that by (simp add: opens(2))
  have "received (ce_sodium E) (map packet (turns 2 sched)) b
      = map (nth ps) (ltr_maxima (\<lambda>i. packet_counter (packet i)) (turns 2 sched))"
    using received_maxima [OF k(6,2), of "turns 2 sched" "ce_sodium E" packet "nth ps"] opens(1) fresh by simp
  moreover have "ltr_maxima (\<lambda>i. packet_counter (packet i)) (turns 2 sched) = ltr_maxima ?at (turns 2 sched)"
    by (rule ltr_maxima_cong) (rule ordered)
  ultimately have "received (ce_sodium E) (map packet (turns 2 sched)) b = map (nth ps) (ltr_maxima ?at (turns 2 sched))"
    by simp
  moreover have "list_all (\<lambda>i. send_phases t ! i = Returned (Inr ())) (turns 2 sched)"
    using inv turns_bounded(2) [OF assms(8), of _ 2]
    by (auto simp: sends_after_def phase_after_def in_turns list_all_iff)
  ultimately show ?thesis
    using inv by (auto simp: sends_after_def ltr_maxima_all)
qed

theorem client_sends_delivery_witness:
  "\<exists>st frames. session_of 0 demo_s1 = Some (False, st)
     \<and> c_sent (sending_client (run_client_sends idle_env [0, 0, 1, 1, 1, 0]
         (client_calls demo_c2 [sample_payload, sample_payload\<lparr>op_code := 7\<rparr>]))) = c_sent demo_c2 @ frames
     \<and> send_phases (run_client_sends idle_env [0, 0, 1, 1, 1, 0]
         (client_calls demo_c2 [sample_payload, sample_payload\<lparr>op_code := 7\<rparr>])) ! 0 = Returned (Inr ())
     \<and> received model_sodium frames (cs_session st) = [sample_payload\<lparr>op_code := 7\<rparr>]"
proof -
  obtain st where st: "session_of 0 demo_s1 = Some (False, st)" "in_step (c_session demo_c2) (cs_session st)"
    using demo_session by blast
  have turns: "turns 1 [0, 0, 1, 1, 1, 0 :: nat] = [0, 1]" "turns 2 [0, 0, 1, 1, 1, 0 :: nat] = [1, 0]"
    by code_simp+
  have sodium: "ce_sodium idle_env = model_sodium" by (simp add: idle_env_def)
  have zero: "send_counter (c_session demo_c2) = 0"
    using demo_up st(1) by (simp add: demo_view_def)
  have "\<exists>frames. c_sent (sending_client (run_client_sends idle_env [0, 0, 1, 1, 1, 0]
         (client_calls demo_c2 [sample_payload, sample_payload\<lparr>op_code := 7\<rparr>]))) = c_sent demo_c2 @ frames
     \<and> list_all (\<lambda>i. send_phases (run_client_sends idle_env [0, 0, 1, 1, 1, 0]
         (client_calls demo_c2 [sample_payload, sample_payload\<lparr>op_code := 7\<rparr>])) ! i = Returned (Inr ())) [1, 0]
     \<and> received model_sodium frames (cs_session st) = [sample_payload\<lparr>op_code := 7\<rparr>]"
    using client_sends_delivery [of idle_env demo_c2 "cs_session st" "[sample_payload, sample_payload\<lparr>op_code := 7\<rparr>]",
        OF _ _ demo_connected(1) _ _ _ _ _ refl, of "[0, 0, 1, 1, 1, 0]", unfolded turns] st(2) zero
    by (simp add: in_step_def sodium model_sodium_ok idle_env_def demo_defaults too_large_def sample_payload_def) blast
  then show ?thesis using st(1) by auto
qed

end
