(* ===== verification/ServerSends.thy ===== *)
theory ServerSends
  imports ServerInitiated
begin

text \<open>
  Concurrent calls of \<^verbatim>\<open>WsServerWrapper::send\<close> (\<^verbatim>\<open>ws_server.cpp\<close>). A call holds \<^verbatim>\<open>sessions_mutex_\<close> from its
  first step to its last: it takes the mutex, finds the session, encrypts, transmits, and releases the mutex
  as it returns or throws. The theory has these steps, their interleavings as schedules of threads, and shows
  that every interleaving is equivalent to a sequence of whole calls, that all calls return, and that every
  client receives what was sent to it, in that sequence.
\<close>

section \<open>The server: \<^verbatim>\<open>send\<close> under \<^verbatim>\<open>sessions_mutex_\<close>\<close>

text \<open>How far a call of the server's \<^verbatim>\<open>send\<close> has come: waiting for the mutex; holding it; holding it with
  the session found; with the packet encrypted; returned, the mutex released.\<close>

datatype locked_phase =
    Waiting hdl payload
  | Entered hdl payload
  | Found hdl payload bool connection_state
  | Encrypted hdl byte_vector
  | Left "unit result"

record server_sends =
  sending_server :: server
  sessions_mutex :: "nat option"
  locked_phases :: "locked_phase list"

definition logged_left :: "unit result \<times> server \<Rightarrow> locked_phase \<times> server" where
  "logged_left rs = (case catch_std rs (\<lambda>s. (Inr (), s)) of (r, s) \<Rightarrow> (Left r, s))"

fun server_send_phase :: "server_env \<Rightarrow> locked_phase \<Rightarrow> server \<Rightarrow> locked_phase \<times> server" where
  "server_send_phase E (Waiting h p) s = (Entered h p, s)"
| "server_send_phase E (Entered h p) s =
     (case ready_session h s of
        None \<Rightarrow> (Left (Inl (LogicError ''Session not ready for sending data.'')), s)
      | Some (auth, st) \<Rightarrow> (Found h p auth st, s))"
| "server_send_phase E (Found h p auth st) s =
     (case server_encrypt E auth h st p s of
        (Inl e, s) \<Rightarrow> logged_left (Inl e, s)
      | (Inr packet, s) \<Rightarrow> (Encrypted h packet, s))"
| "server_send_phase E (Encrypted h packet) s = logged_left (server_transport E h packet s)"
| "server_send_phase E (Left r) s = (Left r, s)"

fun has_left :: "locked_phase \<Rightarrow> bool" where
  "has_left (Left r) = True"
| "has_left _ = False"

fun is_waiting :: "locked_phase \<Rightarrow> bool" where
  "is_waiting (Waiting h p) = True"
| "is_waiting _ = False"

text \<open>A thread waits while another holds the mutex; it has it from the first step on and releases it
  with the last.\<close>

definition server_send_step :: "server_env \<Rightarrow> nat \<Rightarrow> server_sends \<Rightarrow> server_sends" where
  "server_send_step E i t =
     (if length (locked_phases t) \<le> i \<or> has_left (locked_phases t ! i)
         \<or> is_waiting (locked_phases t ! i) \<and> sessions_mutex t \<noteq> None
      then t
      else case server_send_phase E (locked_phases t ! i) (sending_server t) of
             (ph, s) \<Rightarrow> \<lparr>sending_server = s, sessions_mutex = (if has_left ph then None else Some i),
                           locked_phases = (locked_phases t)[i := ph]\<rparr>)"

definition run_server_sends :: "server_env \<Rightarrow> nat list \<Rightarrow> server_sends \<Rightarrow> server_sends" where
  "run_server_sends E sched t = fold (server_send_step E) sched t"

lemma run_server_sends_append [simp]:
  "run_server_sends E [] t = t"
  "run_server_sends E (xs @ ys) t = run_server_sends E ys (run_server_sends E xs t)"
  "run_server_sends E (i # xs) t = run_server_sends E xs (server_send_step E i t)"
  by (simp_all add: run_server_sends_def)

definition server_calls :: "server \<Rightarrow> (hdl \<times> payload) list \<Rightarrow> server_sends" where
  "server_calls s jobs = \<lparr>sending_server = s, sessions_mutex = None, locked_phases = map (\<lambda>(h, p). Waiting h p) jobs\<rparr>"

text \<open>The reference: whole calls of \<^verbatim>\<open>send\<close>, one after the other.\<close>

fun send_in_order :: "server_env \<Rightarrow> (hdl \<times> payload) list \<Rightarrow> server \<Rightarrow> unit result list \<times> server" where
  "send_in_order E [] s = ([], s)"
| "send_in_order E ((h, p) # jobs) s =
     (case server_send E h p s of (r, s) \<Rightarrow> case send_in_order E jobs s of (rs, s) \<Rightarrow> (r # rs, s))"

lemma send_in_order_snoc:
  "send_in_order E (jobs @ [(h, p)]) s =
     (case send_in_order E jobs s of (rs, s) \<Rightarrow> case server_send E h p s of (r, s) \<Rightarrow> (rs @ [r], s))"
  by (induction E jobs s rule: send_in_order.induct) (simp_all split: prod.split)

text \<open>What a call in some phase still has to do.\<close>

fun rest_of_send :: "server_env \<Rightarrow> locked_phase \<Rightarrow> server \<Rightarrow> unit result \<times> server" where
  "rest_of_send E (Waiting h p) s = server_send E h p s"
| "rest_of_send E (Entered h p) s = server_send E h p s"
| "rest_of_send E (Found h p auth st) s =
     catch_std (and_then (server_encrypt E auth h st p s) (server_transport E h)) (\<lambda>s. (Inr (), s))"
| "rest_of_send E (Encrypted h packet) s = catch_std (server_transport E h packet s) (\<lambda>s. (Inr (), s))"
| "rest_of_send E (Left r) s = (r, s)"

lemma rest_of_send_step:
  "server_send_phase E ph s = (ph', s') \<Longrightarrow> rest_of_send E ph' s' = rest_of_send E ph s"
  by (cases "(E, ph, s)" rule: server_send_phase.cases)
    (auto simp: server_send_def logged_left_def split: option.splits prod.splits sum.splits)

lemma transmits_last:
  "server_send_phase E ph s = (ph', s') \<Longrightarrow> \<not> has_left ph' \<Longrightarrow> s_sent s' = s_sent s"
  by (cases "(E, ph, s)" rule: server_send_phase.cases)
    (auto simp: server_encrypt_def put_session_def logged_left_def split: option.splits prod.splits sum.splits if_splits)

text \<open>\<open>order\<close> linearises what has happened so far: the calls that have returned, with the results they
  returned, did to the server what they do one after the other in this order; a call that holds the
  mutex will, when it has finished, have done what it does next in the order; it has not transmitted
  anything yet; and the others still wait.\<close>

definition linearized ::
  "server_env \<Rightarrow> (hdl \<times> payload) list \<Rightarrow> server \<Rightarrow> nat list \<Rightarrow> server_sends \<Rightarrow> bool" where
  "linearized E jobs s order t \<longleftrightarrow>
     length (locked_phases t) = length jobs \<and> distinct order
     \<and> set order = {i. i < length jobs \<and> has_left (locked_phases t ! i)}
     \<and> map (nth (locked_phases t)) order = map Left (fst (send_in_order E (map (nth jobs) order) s))
     \<and> (\<forall>i < length jobs. i \<in> set order \<or> sessions_mutex t = Some i \<or> locked_phases t ! i = case_prod Waiting (jobs ! i))
     \<and> (let u = snd (send_in_order E (map (nth jobs) order) s) in
        s_sent (sending_server t) = s_sent u
        \<and> (case sessions_mutex t of
             None \<Rightarrow> sending_server t = u
           | Some i \<Rightarrow> i < length jobs \<and> i \<notin> set order \<and> \<not> is_waiting (locked_phases t ! i)
               \<and> rest_of_send E (locked_phases t ! i) (sending_server t)
                   = server_send E (fst (jobs ! i)) (snd (jobs ! i)) u))"

lemma linearized_start: "linearized E jobs s [] (server_calls s jobs)"
  by (auto simp: linearized_def server_calls_def split: prod.splits)

text \<open>A step that is taken: which call takes it, and what it still has to do afterwards.\<close>

lemma linearized_go:
  assumes inv: "linearized E jobs s order t" and job: "jobs ! i = (h, p)"
    and able: "\<not> (length (locked_phases t) \<le> i \<or> has_left (locked_phases t ! i)
      \<or> is_waiting (locked_phases t ! i) \<and> sessions_mutex t \<noteq> None)"
    and go: "server_send_phase E (locked_phases t ! i) (sending_server t) = (ph, s')"
  shows "server_send_step E i t = \<lparr>sending_server = s', sessions_mutex = (if has_left ph then None else Some i),
      locked_phases = (locked_phases t)[i := ph]\<rparr>"
    and "i < length jobs" and "i \<notin> set order" and "\<not> is_waiting ph"
    and "j < length jobs \<Longrightarrow> j \<noteq> i \<Longrightarrow> j \<in> set order \<or> locked_phases t ! j = case_prod Waiting (jobs ! j)"
    and "rest_of_send E ph s' = server_send E h p (snd (send_in_order E (map (nth jobs) order) s))"
    and "map (nth ((locked_phases t)[i := ph])) order = map Left (fst (send_in_order E (map (nth jobs) order) s))"
proof -
  show "server_send_step E i t = \<lparr>sending_server = s', sessions_mutex = (if has_left ph then None else Some i),
      locked_phases = (locked_phases t)[i := ph]\<rparr>"
    using able go by (auto simp: server_send_step_def)
  show i: "i < length jobs" "i \<notin> set order" using inv able by (auto simp: linearized_def)
  have mine: "sessions_mutex t = None \<and> locked_phases t ! i = Waiting h p \<or> sessions_mutex t = Some i \<and> \<not> is_waiting (locked_phases t ! i)"
    using inv i able job by (cases "sessions_mutex t") (auto simp: linearized_def Let_def)
  show "j \<in> set order \<or> locked_phases t ! j = case_prod Waiting (jobs ! j)" if "j < length jobs" "j \<noteq> i"
    using inv that mine by (auto simp: linearized_def Let_def)
  have "rest_of_send E (locked_phases t ! i) (sending_server t) = server_send E h p (snd (send_in_order E (map (nth jobs) order) s))"
    using inv mine job by (auto simp: linearized_def Let_def)
  then show "rest_of_send E ph s' = server_send E h p (snd (send_in_order E (map (nth jobs) order) s))"
    using rest_of_send_step [OF go] by simp
  show "\<not> is_waiting ph"
    using go by (cases "(E, locked_phases t ! i, sending_server t)" rule: server_send_phase.cases)
      (auto simp: logged_left_def split: option.splits prod.splits sum.splits)
  have "map (nth ((locked_phases t)[i := ph])) order = map (nth (locked_phases t)) order"
    using i(2) by (intro map_cong refl nth_list_update_neq) auto
  then show "map (nth ((locked_phases t)[i := ph])) order = map Left (fst (send_in_order E (map (nth jobs) order) s))"
    using inv unfolding linearized_def by metis
qed

lemma linearized_step:
  assumes inv: "linearized E jobs s order t"
  shows "\<exists>more. linearized E jobs s (order @ more) (server_send_step E i t)"
proof (cases "length (locked_phases t) \<le> i \<or> has_left (locked_phases t ! i)
    \<or> is_waiting (locked_phases t ! i) \<and> sessions_mutex t \<noteq> None")
  case True
  then have "server_send_step E i t = t" by (auto simp: server_send_step_def)
  then show ?thesis using inv by (intro exI [of _ "[]"]) simp
next
  case False
  define u where "u = snd (send_in_order E (map (nth jobs) order) s)"
  define rs where "rs = fst (send_in_order E (map (nth jobs) order) s)"
  obtain h p where job: "jobs ! i = (h, p)" by fastforce
  obtain ph s' where go: "server_send_phase E (locked_phases t ! i) (sending_server t) = (ph, s')" by fastforce
  note facts = linearized_go [OF inv job False go, folded u_def rs_def]
  have len: "length (locked_phases t) = length jobs" and dist: "distinct order"
    and left: "set order = {j. j < length jobs \<and> has_left (locked_phases t ! j)}"
    using inv by (simp_all add: linearized_def)
  show ?thesis
  proof (cases "has_left ph")
    case True
    then obtain r where ph: "ph = Left r" by (cases ph) auto
    then have "server_send E h p u = (r, s')" using facts(6) by simp
    then have run: "send_in_order E (map (nth jobs) (order @ [i])) s = (rs @ [r], s')"
      by (simp add: send_in_order_snoc job u_def rs_def split_beta prod_eq_iff)
    have "linearized E jobs s (order @ [i]) (server_send_step E i t)"
      unfolding linearized_def facts(1) run
      using facts(2,3,5,7) len dist left ph by (auto simp: nth_list_update Let_def)
    then show ?thesis by blast
  next
    case False
    have "s_sent s' = s_sent u"
      using transmits_last [OF go False] inv by (simp add: linearized_def u_def Let_def)
    then have "linearized E jobs s order (server_send_step E i t)"
      unfolding linearized_def facts(1) rs_def [symmetric] u_def [symmetric]
      using facts(2-7) len dist left job False by (auto simp: nth_list_update Let_def)
    then show ?thesis by (intro exI [of _ "[]"]) simp
  qed
qed

lemma linearized_run:
  "linearized E jobs s order t \<Longrightarrow> \<exists>more. linearized E jobs s (order @ more) (run_server_sends E sched t)"
proof (induction sched arbitrary: order t)
  case (Cons i sched)
  then show ?case using linearized_step [OF Cons.prems, of i] by (metis append.assoc run_server_sends_append(3))
qed (auto intro: exI [of _ "[]"])

text \<open>C11: the server's \<open>send\<close> is atomic. Whatever the interleaving of any number of calls from any threads, at
  every moment the calls that have returned are equivalent to whole calls executed one after the other:
  they returned the same results, and the server is in the same state, up to the one call that holds the
  mutex, which is going to complete the sequence. The order is fixed as it grows: what happens later only
  extends it.\<close>

theorem server_sends_linearizable:
  "\<exists>order more. linearized E jobs s order (run_server_sends E sched (server_calls s jobs))
     \<and> linearized E jobs s (order @ more) (run_server_sends E (sched @ later) (server_calls s jobs))"
  using linearized_run [OF linearized_start] linearized_run by simp blast

section \<open>Progress\<close>

fun steps_left :: "locked_phase \<Rightarrow> nat" where
  "steps_left (Waiting h p) = 4"
| "steps_left (Entered h p) = 3"
| "steps_left (Found h p auth st) = 2"
| "steps_left (Encrypted h packet) = 1"
| "steps_left (Left r) = 0"

lemma steps_left_0 [simp]: "steps_left ph = 0 \<longleftrightarrow> has_left ph"
  by (cases ph) simp_all

lemma steps_left_decrease:
  "\<not> has_left ph \<Longrightarrow> server_send_phase E ph s = (ph', s') \<Longrightarrow> steps_left ph' < steps_left ph"
  by (cases "(E, ph, s)" rule: server_send_phase.cases)
    (auto simp: logged_left_def split: option.splits prod.splits sum.splits)

definition work_left :: "server_sends \<Rightarrow> nat" where
  "work_left t = sum_list (map steps_left (locked_phases t))"

lemma work_left_0: "work_left t = 0 \<longleftrightarrow> list_all has_left (locked_phases t)"
  by (auto simp: work_left_def list_all_iff)

lemma sum_list_less: "i < length xs \<Longrightarrow> (y :: nat) < xs ! i \<Longrightarrow> sum_list (xs[i := y]) < sum_list xs"
  by (induction xs arbitrary: i) (auto split: nat.split)

lemma step_or_idle: "server_send_step E i t = t \<or> work_left (server_send_step E i t) < work_left t"
proof (cases "server_send_phase E (locked_phases t ! i) (sending_server t)")
  case (Pair ph s)
  then have "steps_left ph < steps_left (locked_phases t ! i)" if "\<not> has_left (locked_phases t ! i)"
    using steps_left_decrease that by blast
  then show ?thesis
    using Pair sum_list_less [of i "map steps_left (locked_phases t)" "steps_left ph"]
    by (auto simp: server_send_step_def work_left_def map_update)
qed

lemma work_left_run: "run_server_sends E sched t = t \<or> work_left (run_server_sends E sched t) < work_left t"
proof (induction sched arbitrary: t)
  case (Cons i sched)
  then show ?case using step_or_idle [of E i t] by (metis less_trans run_server_sends_append(3))
qed simp

text \<open>There is always a thread that can go on: the one that holds the mutex, or, when it is free, any that
  waits. So a round in which every thread gets a turn gets some call further.\<close>

lemma enabled_step:
  assumes inv: "linearized E jobs s order t" and busy: "0 < work_left t"
  shows "\<exists>i < length jobs. server_send_step E i t \<noteq> t"
proof -
  obtain j where j: "j < length jobs" "\<not> has_left (locked_phases t ! j)"
    using busy inv work_left_0 [of t] by (auto simp: list_all_length linearized_def)
  define i where "i = (case sessions_mutex t of None \<Rightarrow> j | Some i \<Rightarrow> i)"
  have i: "i < length jobs" "\<not> has_left (locked_phases t ! i)" "is_waiting (locked_phases t ! i) \<Longrightarrow> sessions_mutex t = None"
    using j inv by (auto simp: i_def linearized_def Let_def split: option.splits)
  obtain ph u where go: "server_send_phase E (locked_phases t ! i) (sending_server t) = (ph, u)" by fastforce
  have "work_left (server_send_step E i t) < work_left t"
    using steps_left_decrease [OF i(2) go] i go inv sum_list_less [of i "map steps_left (locked_phases t)" "steps_left ph"]
    by (auto simp: server_send_step_def work_left_def map_update linearized_def)
  then show ?thesis using i(1) by (metis less_irrefl)
qed

lemma round_progress:
  assumes "linearized E jobs s order t" and "0 < work_left t" and "{..<length jobs} \<subseteq> set bout"
  shows "work_left (run_server_sends E bout t) < work_left t"
proof -
  obtain i where i: "i \<in> set bout" "server_send_step E i t \<noteq> t" using enabled_step [OF assms(1,2)] assms(3) by blast
  then obtain xs ys where bout: "bout = xs @ i # ys" by (meson split_list)
  let ?u = "run_server_sends E xs t"
  have "work_left (server_send_step E i ?u) < work_left t"
    using work_left_run [of E xs t] step_or_idle [of E i ?u] i(2) by (metis less_trans)
  then show ?thesis
    using work_left_run [of E ys "server_send_step E i ?u"] by (auto simp: bout)
qed

lemma all_return:
  assumes "list_all (\<lambda>bout. {..<length jobs} \<subseteq> set bout) rounds" and "4 * length jobs \<le> length rounds"
    and "t = run_server_sends E (concat rounds) (server_calls s jobs)"
  shows "list_all has_left (locked_phases t)" and "sessions_mutex t = None"
proof -
  have rounds: "\<exists>order. linearized E jobs s order (run_server_sends E (concat rounds) u) \<and>
      work_left (run_server_sends E (concat rounds) u) \<le> work_left u - length rounds"
    if "list_all (\<lambda>bout. {..<length jobs} \<subseteq> set bout) rounds" "linearized E jobs s order u" for rounds order u
    using that
  proof (induction rounds arbitrary: order u)
    case (Cons r rounds)
    let ?v = "run_server_sends E r u"
    obtain more where inv: "linearized E jobs s (order @ more) ?v" using linearized_run [OF Cons.prems(2)] by blast
    have "work_left ?v \<le> work_left u - 1"
      using round_progress [OF Cons.prems(2), of r] Cons.prems(1) work_left_run [of E r u] by fastforce
    then show ?case using Cons.IH [OF _ inv] Cons.prems(1) by fastforce
  qed auto
  have "work_left (server_calls s jobs) = 4 * length jobs"
    by (induction jobs) (auto simp: work_left_def server_calls_def)
  then obtain order where inv: "linearized E jobs s order t" and "work_left t = 0"
    using rounds [OF assms(1) linearized_start] assms(2,3) by fastforce
  then have all: "list_all has_left (locked_phases t)" by (simp add: work_left_0)
  moreover have "sessions_mutex t = None"
  proof (cases "sessions_mutex t")
    case (Some i)
    then show ?thesis using inv all by (auto simp: linearized_def list_all_length Let_def)
  qed simp
  ultimately show "list_all has_left (locked_phases t)" "sessions_mutex t = None" by simp_all
qed

text \<open>C14: no deadlock and no starvation. If every thread gets a turn in each of a number of rounds, in any order
  and however often, four rounds per call are enough for every call to return, whether or not its session
  is found, encryption throws or the transport refuses the frame; the mutex is then free again.\<close>

theorem server_sends_return:
  assumes "list_all (\<lambda>bout. {..<length jobs} \<subseteq> set bout) rounds" and "4 * length jobs \<le> length rounds"
    and "t = run_server_sends E (concat rounds) (server_calls s jobs)"
  shows "list_all has_left (locked_phases t) \<and> sessions_mutex t = None"
  using all_return [OF assms] by simp

theorem server_sends_return_witness:
  "list_all has_left (locked_phases (run_server_sends idle_server_env (concat (replicate 8 [1, 0]))
       (server_calls demo_s1 [(0, sample_payload), (0, sample_payload)])))"
  using server_sends_return [OF _ _ refl, of "[(0, sample_payload), (0, sample_payload)]" "replicate 8 [1, 0]"
      idle_server_env demo_s1]
  by (auto simp: list_all_iff lessThan_Suc numeral_2_eq_2)

section \<open>Delivery\<close>

text \<open>The frames sent to one connection, and the payloads of the calls for it.\<close>

definition addressed :: "hdl \<Rightarrow> (hdl \<times> 'a) list \<Rightarrow> 'a list" where
  "addressed h xs = map snd (filter (\<lambda>x. fst x = h) xs)"

lemma addressed_simps [simp]:
  "addressed h [] = []"
  "addressed h ((k, x) # xs) = (if k = h then x # addressed h xs else addressed h xs)"
  "addressed h (xs @ ys) = addressed h xs @ addressed h ys"
  by (simp_all add: addressed_def)

lemma send_elsewhere:
  assumes "server_send E k p s = (r, t)"
  shows "k \<noteq> h \<Longrightarrow> session_of h t = session_of h s"
    and "\<exists>fs. s_sent t = s_sent s @ fs \<and> (k \<noteq> h \<longrightarrow> addressed h fs = [])"
proof -
  have "lookup_session a h (put_session auth k st s\<lparr>s_draws := n\<rparr>) = lookup_session a h s" if "k \<noteq> h" for a auth st n
    using that by (subst lookup_sessions_only [of _ "put_session auth k st s"]) simp_all
  moreover have "lookup_session a h (u\<lparr>s_net_calls := n\<rparr>) = lookup_session a h u"
      "lookup_session a h (u\<lparr>s_net_calls := n, s_sent := xs\<rparr>) = lookup_session a h u" for a u n xs
    by (rule lookup_sessions_only; simp)+
  ultimately show "session_of h t = session_of h s" if "k \<noteq> h"
    using assms that unfolding session_of_def
    by (auto simp: server_send_def server_encrypt_def server_transport_def catch_std_def and_then_def
        split: option.splits prod.splits sum.splits if_splits)
  show "\<exists>fs. s_sent t = s_sent s @ fs \<and> (k \<noteq> h \<longrightarrow> addressed h fs = [])"
    using assms
    by (auto simp: server_send_def server_encrypt_def server_transport_def put_session_def catch_std_def and_then_def
        split: option.splits prod.splits sum.splits if_splits)
qed

lemma in_order_delivered:
  assumes "sodium_ok (se_sodium E)" and "\<And>n. se_transport E n = None"
    and "session_of h s = Some (auth, st)" and "in_step (cs_session st) a"
    and "unat (send_counter (cs_session st)) + length (addressed h jobs) < 2 ^ 64"
  shows "\<exists>fs. s_sent (snd (send_in_order E jobs s)) = s_sent s @ fs
     \<and> received (se_sodium E) (addressed h fs) a = addressed h jobs \<and> length (addressed h fs) = length (addressed h jobs)"
  using assms(3-5)
proof (induction jobs arbitrary: s st a)
  case (Cons job jobs)
  obtain k p where job: "job = (k, p)" by fastforce
  obtain r t where send: "server_send E k p s = (r, t)" by fastforce
  show ?case
  proof (cases "k = h")
    case True
    have left: "counters_left (cs_session st)" using Cons.prems(3) True job by (simp add: counters_left_def)
    let ?a = "a\<lparr>recv_counter := send_counter (cs_session st) + 1\<rparr>"
    obtain pkt st' where t: "s_sent t = s_sent s @ [(h, pkt)]" "session_of h t = Some (auth, st')"
        "decrypt_packet (se_sodium E) pkt a = (Inr p, ?a)" "in_step (cs_session st') ?a"
        "send_counter (cs_session st') = send_counter (cs_session st) + 1"
      using server_send_passes [OF assms(1) Cons.prems(1,2) left assms(2), of p] send True by auto
    have "unat (send_counter (cs_session st')) + length (addressed h jobs) < 2 ^ 64"
      using Cons.prems(3) succ_counter [of "send_counter (cs_session st)"] t(5) True job by simp
    then obtain fs where "s_sent (snd (send_in_order E jobs t)) = s_sent t @ fs"
        "received (se_sodium E) (addressed h fs) ?a = addressed h jobs" "length (addressed h fs) = length (addressed h jobs)"
      using Cons.IH [OF t(2,4)] by blast
    then show ?thesis
      using send True job t by (intro exI [of _ "(h, pkt) # fs"]) (simp add: split_beta)
  next
    case False
    obtain gs where gs: "s_sent t = s_sent s @ gs" "addressed h gs = []" "session_of h t = session_of h s"
      using send_elsewhere [OF send, of h] False by blast
    obtain fs where "s_sent (snd (send_in_order E jobs t)) = s_sent t @ fs"
        "received (se_sodium E) (addressed h fs) a = addressed h jobs" "length (addressed h fs) = length (addressed h jobs)"
      using Cons.IH [of t st a] Cons.prems gs(3) False job by auto
    then show ?thesis
      using send False job gs by (intro exI [of _ "gs @ fs"]) (simp add: split_beta)
  qed
qed simp

text \<open>C13: under the mutex nothing is lost or reordered. Take any connection whose session is in step with its
  client, identified or anonymous, any calls of the server's \<open>send\<close> from any threads, to that client and to
  others, and any schedule of them. Out of the frames sent to it, that client receives the payload of every call
  for it that has returned, each once, in the order in which the calls held the mutex; no frame is rejected as a
  replay.\<close>

theorem server_sends_delivered:
  assumes "sodium_ok (se_sodium E)" and "\<And>n. se_transport E n = None"
    and "session_of h s = Some (auth, st)" and "in_step (cs_session st) a"
    and "unat (send_counter (cs_session st)) + length jobs < 2 ^ 64"
    and "t = run_server_sends E sched (server_calls s jobs)"
  shows "\<exists>order fs. linearized E jobs s order t \<and> s_sent (sending_server t) = s_sent s @ fs
     \<and> received (se_sodium E) (addressed h fs) a = addressed h (map (nth jobs) order)
     \<and> length (addressed h fs) = length (addressed h (map (nth jobs) order))"
proof -
  obtain order where lin: "linearized E jobs s order t"
    using linearized_run [OF linearized_start] assms(6) by fastforce
  have "set order \<subseteq> {..<length jobs}" and "distinct order" using lin by (auto simp: linearized_def)
  then have "length order \<le> length jobs"
    using card_mono [of "{..<length jobs}" "set order"] distinct_card [of order] by simp
  then have "length (addressed h (map (nth jobs) order)) \<le> length jobs"
    unfolding addressed_def by (metis le_trans length_filter_le length_map)
  then have "unat (send_counter (cs_session st)) + length (addressed h (map (nth jobs) order)) < 2 ^ 64"
    using assms(5) by linarith
  from in_order_delivered [OF assms(1-4) this] obtain fs where
      "s_sent (snd (send_in_order E (map (nth jobs) order) s)) = s_sent s @ fs"
      "received (se_sodium E) (addressed h fs) a = addressed h (map (nth jobs) order)"
      "length (addressed h fs) = length (addressed h (map (nth jobs) order))" by blast
  moreover have "s_sent (sending_server t) = s_sent (snd (send_in_order E (map (nth jobs) order) s))"
    using lin by (simp add: linearized_def Let_def)
  ultimately show ?thesis using lin by (intro exI [of _ order] exI [of _ fs]) simp
qed

theorem server_sends_delivered_witness:
  "\<exists>st order fs. session_of 0 demo_s1 = Some (False, st) \<and> distinct order \<and> set order = {0, 1}
     \<and> s_sent (sending_server (run_server_sends idle_server_env (concat (replicate 8 [1, 0]))
         (server_calls demo_s1 [(0, sample_payload), (0, sample_payload\<lparr>op_code := 7\<rparr>)]))) = s_sent demo_s1 @ fs
     \<and> received model_sodium (addressed 0 fs) (c_session demo_c2)
         = map (nth [sample_payload, sample_payload\<lparr>op_code := 7\<rparr>]) order"
proof -
  let ?jobs = "[(0, sample_payload), (0, sample_payload\<lparr>op_code := 7\<rparr>)]"
  let ?sched = "concat (replicate 8 [1, 0])"
  let ?t = "run_server_sends idle_server_env ?sched (server_calls demo_s1 ?jobs)"
  obtain st where st: "session_of 0 demo_s1 = Some (False, st)" "in_step (c_session demo_c2) (cs_session st)"
    using demo_session by blast
  have sodium: "se_sodium idle_server_env = model_sodium" by (simp add: idle_server_env_def)
  have zero: "send_counter (cs_session st) = 0"
    using demo_up st(1) by (simp add: demo_view_def)
  obtain order fs where run: "linearized idle_server_env ?jobs demo_s1 order ?t"
      "s_sent (sending_server ?t) = s_sent demo_s1 @ fs"
      "received model_sodium (addressed 0 fs) (c_session demo_c2) = addressed 0 (map (nth ?jobs) order)"
    using server_sends_delivered [OF _ _ st(1) in_step_sym [OF st(2)] _ refl, of idle_server_env ?jobs ?sched] zero
    by (auto simp: sodium model_sodium_ok idle_server_env_def)
  have "list_all has_left (locked_phases ?t)"
    by (rule all_return [OF _ _ refl]) (auto simp: list_all_iff lessThan_Suc numeral_2_eq_2)
  then have order: "distinct order" "set order = {0, 1}"
    using run(1) by (auto simp: linearized_def list_all_length numeral_2_eq_2 less_Suc_eq)
  have "addressed 0 (map (nth ?jobs) order) = map (nth [sample_payload, sample_payload\<lparr>op_code := 7\<rparr>]) order"
  proof -
    have "addressed 0 (map (nth ?jobs) xs) = map (nth [sample_payload, sample_payload\<lparr>op_code := 7\<rparr>]) xs" if "set xs \<subseteq> {0, 1}" for xs
      using that by (induction xs) (auto simp: addressed_def)
    then show ?thesis using order(2) by simp
  qed
  then show ?thesis using st(1) run order by metis
qed

end
