(* ===== verification/Spec2Isabelle.thy ===== *)
theory Spec2Isabelle
  imports ExampleRuns SecureBuffer ClientSends ServerSends
begin

text \<open>
  \<^bold>\<open>A verification of ObscuraProto\<close>

  ObscuraProto is a C++ library for encrypted messages between WebSocket clients and a server. A
  client and the server shake hands (X25519 key exchange, the server's ephemeral key signed with a
  pinned Ed25519 key, optionally the client's signed with its identity), after which every payload
  travels in an authenticated packet with a counter against replays. On top of that the wrappers
  offer requests with futures and deadlines, streams, handlers by opcode, rate limits and timeouts.

  \<^bold>\<open>The parts and the theories that model them\<close> (paths below \<^verbatim>\<open>src/include/obscuraproto\<close> and
  \<^verbatim>\<open>src/src\<close>)

  \<^item> \<^verbatim>\<open>Prelude\<close>: machine words; the exceptions of \<^verbatim>\<open>errors.hpp\<close> as a datatype, so that every
    throw is a branch; byte order; \<^verbatim>\<open>std::map\<close> as an association list; the interfaces that
    components share, as locales: byte codecs, prefix codecs, state machines with an invariant.
  \<^item> \<^verbatim>\<open>SecureBuffer\<close>: \<^verbatim>\<open>secure_buffer.hpp\<close> with its memory made explicit (a heap of blocks, objects
    that point into it) and the abstract store of byte strings it refines. All other theories use
    the byte strings.
  \<^item> \<^verbatim>\<open>Keys\<close>, \<^verbatim>\<open>Version\<close>: \<^verbatim>\<open>keys.hpp\<close>, \<^verbatim>\<open>version.hpp/.cpp\<close>.
  \<^item> \<^verbatim>\<open>Packet\<close>: \<^verbatim>\<open>packet.hpp/.cpp\<close>, payloads, the builder with all overloads and the reader.
  \<^item> \<^verbatim>\<open>HandshakeMessages\<close>: \<^verbatim>\<open>handshake_messages.hpp/.cpp\<close>.
  \<^item> \<^verbatim>\<open>Crypto\<close>: \<^verbatim>\<open>crypto.hpp/.cpp\<close> over a record \<open>sodium\<close> of the libsodium functions it calls;
    \<open>sodium_ok\<close> states what libsodium's manual promises of them, and \<open>model_sodium\<close> satisfies it.
    What the channel promises its users is the locale \<open>sealed_channel\<close>.
  \<^item> \<^verbatim>\<open>Session\<close>: \<^verbatim>\<open>session.hpp/.cpp\<close>, one method after the other on a record of the members, and the
    session as a state machine.
  \<^item> \<^verbatim>\<open>Config\<close>: \<^verbatim>\<open>config.hpp/.cpp\<close>, the structures with their defaults and the reader of the file.
  \<^item> \<^verbatim>\<open>RateLimiter\<close>: \<^verbatim>\<open>rate_limiter.hpp/.cpp\<close>; the two window limiters implement the locale
    \<open>window_limiter\<close>, token buckets are over reals with an explicit rounding function.
  \<^item> \<^verbatim>\<open>Stream\<close>: \<^verbatim>\<open>stream.hpp/.cpp\<close>.
  \<^item> \<^verbatim>\<open>Requests\<close>: the critical sections on \<^verbatim>\<open>pending_requests_\<close> and \<^verbatim>\<open>request_deadlines_\<close> that both
    wrappers have, as operations on a table of promises; the locale \<open>request_tracker\<close> says what a
    component that only touches its table through them can promise about its futures.
  \<^item> \<^verbatim>\<open>Dispatch\<close>: what \<^verbatim>\<open>ws_client.cpp\<close> and \<^verbatim>\<open>ws_server.cpp\<close> do alike with payloads.
  \<^item> \<^verbatim>\<open>WsClient\<close>: \<^verbatim>\<open>ws_client.hpp/.cpp\<close>, all methods, event handlers and the watchdog.
  \<^item> \<^verbatim>\<open>WsServer\<close>, \<^verbatim>\<open>WsServerInvariant\<close>, \<^verbatim>\<open>WsServerProperties\<close>: \<^verbatim>\<open>ws_server.hpp/.cpp\<close>, the model, what
    every step keeps, and what users can rely on.
  \<^item> \<^verbatim>\<open>EndToEnd\<close>, \<^verbatim>\<open>ServerInitiated\<close>, \<^verbatim>\<open>StreamTransfer\<close> and this theory: a client and the server together,
    connecting, requests from either side, streams.
  \<^item> \<^verbatim>\<open>Messages\<close>: messages without a response, from \<^verbatim>\<open>send\<close> of one side to the handler of the other.
  \<^item> \<^verbatim>\<open>ClientSends\<close>, \<^verbatim>\<open>ServerSends\<close>: concurrent calls of \<^verbatim>\<open>send\<close>, which takes no lock in \<^verbatim>\<open>ws_client.cpp\<close> and holds
    \<^verbatim>\<open>sessions_mutex_\<close> in \<^verbatim>\<open>ws_server.cpp\<close>: the steps of a call, schedules of threads as lists of their numbers,
    the mutex as the number of the thread that holds it.
  \<^item> \<^verbatim>\<open>Identities\<close>: addressing clients by identity, over connections that come, go and are replayed.
  \<^item> \<^verbatim>\<open>Examples\<close>, \<^verbatim>\<open>ExampleRuns\<close>: the programs of \<^verbatim>\<open>src/examples\<close>, the callbacks of both sides as environments
    of the wrappers, and what the programs exchange; \<^verbatim>\<open>basic_encryption_example.cpp\<close> as a whole.

  \<^bold>\<open>How code is represented\<close>

  A method is a function from its arguments and the members to its result or exception and the
  members as it leaves them; \<open>and_then\<close> sequences calls that may throw and \<open>catch_std\<close> is
  \<^verbatim>\<open>catch (const std::exception&)\<close>. Integers keep their width and wrap. libsodium, websocketpp and the
  user's callbacks are parameters: records of functions whose results are arbitrary, except that
  callbacks act on the wrapper through its public methods (\<open>callbacks_ok\<close>, \<open>server_callbacks_ok\<close>).
  Clock readings are arguments. Where another thread can intervene in a method (between the
  registration and the send of a request, before and after the close of a connection), the method
  is split and the step relations \<open>client_step\<close> and \<open>server_step\<close> interleave the parts freely;
  what runs under one lock is one step. That this is sound for the server's \<^verbatim>\<open>send\<close> is a theorem of
  \<^verbatim>\<open>ServerSends\<close>, in which the lock and the steps under it are explicit (\<open>server_sends_linearizable\<close>).

  \<^bold>\<open>What is shown\<close>

  \<^item> The wire formats round trip, the parsers accept exactly the encodings, readers stay in bounds.
  \<^item> The handshake agrees on keys, version and identity; only verified identities are taken up.
  \<^item> Packets decrypt exactly if sealed under the key; none is accepted twice; of whatever arrives, the
    left-to-right maxima of the counters are delivered, exactly; an attacker on the network can only drop messages; the exhausted
    counter is rejected.
  \<^item> The limiters decide as reference limiters with the full history; counts of connections are
    exact; buckets bound the message rate.
  \<^item> Futures settle exactly once under every interleaving, disconnecting and closing settle what is
    open, deadlines expire exactly, a response reaches only the request it answers.
  \<^item> Server bookkeeping (sessions, identities, streams, registrations) stays consistent in every
    reachable state; timeouts close exactly the overdue connections.
  \<^item> SecureBuffer has value semantics, never leaks or shares memory and wipes what it frees.
  \<^item> End to end, through the event handlers of both wrappers: connecting, requests of the client and of
    the server, messages, opening streams and writing to them in both directions.
  \<^item> Concurrent sends: those of the server are atomic, all return, and each client receives its messages in
    the order in which the calls held the mutex; those of the client arrive exactly as far as they
    are transmitted in the order in which they were encrypted.
  \<^item> What is sent to an identity goes to a connection whose handshake verified it.
  \<^item> Some theorems state behaviour that a comment, the documentation or the configuration suggests
    otherwise: \<open>check_active_connections_refuses\<close>, \<open>max_total_overshoot\<close>, \<open>client_never_rekeys\<close>,
    \<open>missing_config_admits_nobody\<close>, \<open>replayed_hello_takes_identity\<close>, \<open>reconnected_identity_lost\<close>,
    \<open>renamed_stream_opcodes_lose_data\<close>, \<open>streaming_example_falls_back\<close>, \<open>client_sends_delivery\<close> (a message that
    another thread's overtakes is lost).

  \<^bold>\<open>Bounds\<close>

  No definition uses fuel; schedules are arbitrary lists, and four rounds per call let every concurrent
  call return (\<open>server_sends_return\<close>): the loops of the code are structural recursions over their data, but for
  the scanner of version lists and the loop that prints unknown payloads, which terminate because
  their input shrinks. Delivery is stated while the 64-bit counter of the sender lasts (\<open>counters_left\<close>; what happens then is
  \<open>exhausted_counter_rejected\<close>), and the server's invariant while fewer than \<open>2 ^ 32 - 1\<close>
  connections are registered and fewer than \<open>2 ^ 64 - 1\<close> were ever made (\<open>has_room\<close>).

  \<^bold>\<open>Not modelled\<close>

  Log output; the transport (TCP, WebSocket frames, \<^verbatim>\<open>max_ws_frame_size\<close>, which websocketpp
  enforces) and the type aliases for it in \<^verbatim>\<open>ws_common.hpp\<close>; data races inside one step (the
  unlocked increment of \<^verbatim>\<open>send_counter_\<close> by concurrent calls of \<^verbatim>\<open>WsClientWrapper::send\<close> counts as one);
  the lifetime tricks with \<^verbatim>\<open>weak_ptr\<close> beyond whether the owner is alive; page protection and
  timing of libsodium; how the example programs wait for one another; the tests.
\<close>

section \<open>Connecting\<close>

text \<open>C5: connecting works end to end. A client that has not yet shaken hands and holds the server's public
  key, and a server with a version in common, no session on that connection, and an identity handler
  that (if present) accepts the client's identity (if it has one): the client's open handler sends one
  frame, the server's message handler answers it with one frame, and the client's message handler
  completes the handshake and then calls the ready callback, if there is one, and nothing else. Both
  sessions then have the negotiated version and are in step, so the callback may send at once; the
  server files the session as identified, and finds the connection by the identity, exactly when the
  client has one.\<close>

theorem connection_established_end_to_end:
  assumes sodium: "sodium_ok (ce_sodium CE)" "se_sodium SE = ce_sodium CE"
    and c: "c_session c = Session CLIENT key vs" "length vs < 65536" "\<And>kp. c_identity c = Some kp \<Longrightarrow> key_pair_ok (ce_sodium CE) kp"
    and keys: "key_pair_ok (ce_sodium CE) (s_sign_key s)" "publicKey key = publicKey (s_sign_key s)"
    and neg: "negotiate vs (cfg_supported_versions (s_config s)) = Some v"
    and free: "lookup_session True h s = None" "lookup_session False h s = None"
    and rate: "rl_enabled (rate_limit (s_config s)) \<longrightarrow>
        fst (check_handshake_rate (ms (clk 0)) (get_remote_ip SE h) (s_rate_limiter s))"
    and net: "ce_transport CE (c_net_calls c) = None" "se_transport SE (s_net_calls s) = None"
    and accept: "\<And>kp n t. c_identity c = Some kp \<Longrightarrow> client_identity_handler s = Some n \<Longrightarrow>
        se_identity SE n h (publicKey kp) t = (Inr True, t)"
  shows "\<exists>c1 f1 s1 f2 c2 st.
     client_on_open CE c = (Inr (), c1) \<and> c_sent c1 = c_sent c @ [f1]
     \<and> server_on_message SE clk h True f1 s = (Inr (), s1) \<and> s_sent s1 = s_sent s @ [(h, f2)]
     \<and> client_on_message CE True f2 c1 = catch_std (call_if (on_ready_callback c) (ce_ready CE) c2) (client_disconnect True)
     \<and> is_connected c2 \<and> session_of h s1 = Some (c_identity c \<noteq> None, st) \<and> in_step (c_session c2) (cs_session st)
     \<and> get_selected_version (c_session c2) = Some v \<and> get_selected_version (cs_session st) = Some v
     \<and> counters_left (c_session c2) \<and> counters_left (cs_session st)
     \<and> (\<forall>kp. c_identity c = Some kp \<longrightarrow> m_find (identity_to_hdl s1) (publicKey kp) = Some h)"
proof -
  let ?S = "ce_sodium CE" and ?s = "Session SERVER (s_sign_key s) (cfg_supported_versions (s_config s))"
  define pk where "pk = (case c_identity c of Some kp \<Rightarrow> publicKey kp | None \<Rightarrow> PublicKey [])"
  obtain ch c1s ch' sh sh' c' s' where m: "client_initiate_handshake ?S (c_draws c) (opening_session c) = (Inr ch, c1s)"
      "client_hello_deserialize (client_hello_serialize ch) = Inr ch'" "server_respond_to_handshake ?S (s_draws s) ch' ?s = (Inr sh, s')"
      "server_hello_deserialize (server_hello_serialize sh) = Inr sh'" "client_finalize_handshake ?S sh' c1s = (Inr (), c')"
    and hs: "\<not> handshake_complete c1s" "has_client_identity ch' \<longleftrightarrow> c_identity c \<noteq> None" "in_step c' s'"
      "counters_left c'" "counters_left s'" "sess_selected_version c' = Some v" "sess_selected_version s' = Some v"
      "peer_identity s' = map_option publicKey (c_identity c)"
    using hello_exchange [OF sodium(1) c keys neg, of "c_draws c" "s_draws s"] by blast
  obtain c1 where c1: "client_on_open CE c = (Inr (), c1)" "c_sent c1 = c_sent c @ [client_hello_serialize ch]"
      "c_session c1 = c1s" "is_connected c1" "on_ready_callback c1 = on_ready_callback c"
    using client_sends_hello [OF _ net(1) m(1)] c(1) by (auto simp: Session_def)
  have frees: "lookup_session b h s = None" for b using free by (cases b) simp_all
  have pk: "has_client_identity ch' \<Longrightarrow> peer_identity s' = Some pk"
    using hs(2,8) by (auto simp: pk_def)
  obtain s1 st where s1: "server_on_message SE clk h True (client_hello_serialize ch) s = (Inr (), s1)"
      "s_sent s1 = s_sent s @ [(h, server_hello_serialize sh)]" "session_of h s1 = Some (has_client_identity ch', st)"
      "cs_session st = s'" "has_client_identity ch' \<longrightarrow> m_find (identity_to_hdl s1) pk = Some h"
    using server_takes_hello [where clk = clk and E = SE and pk = pk, OF frees m(2) _ pk _ rate net(2)] m(3) sodium(2)
      accept hs(2) by (auto simp: pk_def)
  have c2: "client_on_message CE True (server_hello_serialize sh) c1
      = catch_std (call_if (on_ready_callback c) (ce_ready CE) (c1\<lparr>c_session := c'\<rparr>)) (client_disconnect True)"
    using client_takes_hello [of c1 "server_hello_serialize sh" sh' CE c'] hs(1) c1(3,5) m(4,5) in_step_complete [OF hs(3)] by simp
  show ?thesis
    using c1(1,2,4) s1 c2 hs
    by (intro exI [of _ c1] exI [of _ "client_hello_serialize ch"] exI [of _ s1] exI [of _ "server_hello_serialize sh"]
        exI [of _ "c1\<lparr>c_session := c'\<rparr>"] exI [of _ st]) (auto simp: get_selected_version_def pk_def)
qed

theorem connection_established_end_to_end_witness:
  "\<exists>c1 f1 s1 f2 c2 st.
     client_on_open idle_env sample_client0 = (Inr (), c1) \<and> c_sent c1 = [f1]
     \<and> server_on_message idle_server_env sample_clock 0 True f1 demo_s0 = (Inr (), s1) \<and> s_sent s1 = [(0, f2)]
     \<and> client_on_message idle_env True f2 c1 = (Inr (), c2) \<and> is_connected c2
     \<and> session_of 0 s1 = Some (False, st) \<and> in_step (c_session c2) (cs_session st)
     \<and> get_selected_version (c_session c2) = Some V1_1"
proof -
  have neg: "negotiate [V1_1, V1_0] [V1_1, V1_0] = Some V1_1" by (simp add: V1_1_def V1_0_def)
  have c: "c_session sample_client0 = Session CLIENT sample_server_key [V1_1, V1_0]" "c_identity sample_client0 = None"
      "on_ready_callback sample_client0 = None" "c_sent sample_client0 = []"
    by (simp_all add: sample_client0_def client_connect_def WsClientWrapper_def with_defaults_def)
  have s: "s_sign_key demo_s0 = sample_server_key" "cfg_supported_versions (s_config demo_s0) = [V1_1, V1_0]"
      "lookup_session a 0 demo_s0 = None" "\<not> rl_enabled (rate_limit (s_config demo_s0))" "s_sent demo_s0 = []"
      "client_identity_handler demo_s0 = None" for a
    by (simp_all add: demo_s0_def register_anon_request_handler_def WsServerWrapper_def unlimited_config_def
        with_defaults_def lookup_session_def)
  show ?thesis
    using connection_established_end_to_end [where CE = idle_env and SE = idle_server_env and h = 0 and clk = sample_clock
        and s = demo_s0 and v = V1_1, OF _ _ c(1)]
    by (force simp: c s neg call_if_def idle_env_def idle_server_env_def model_sodium_ok sample_server_key_ok)
qed

section \<open>Requests\<close>

text \<open>C1: a request is answered end to end. Take a client in step with its session on the server, under
  an identity or anonymous, the two having the same opcode for responses, and a request handler
  registered for the payload's opcode that answers these parameters. Then
  \<^verbatim>\<open>async_request\<close> sends one frame, the server's message handler turns it into exactly one frame to
  that client, and the client's message handler completes the request's future, and no other, with
  the handler's answer; afterwards the two are in step again, so this
  repeats as long as counters last.\<close>

theorem request_answered_end_to_end:
  assumes fresh: "fresh_client c0" "client_step\<^sup>*\<^sup>* c0 c"
    and sodium: "sodium_ok (ce_sodium CE)" "se_sodium SE = ce_sodium CE"
    and look: "session_of h s = Some (auth, st)" and conn: "is_connected c" and step: "in_step (c_session c) (cs_session st)"
    and left: "counters_left (c_session c)" "counters_left (cs_session st)"
    and net: "ce_transport CE (c_net_calls c) = None" "se_transport SE (s_net_calls s) = None"
    and q: "with_request_id (c_next_request_id c) p = Inr q" "\<not> too_large (c_config c) q" "\<not> too_large (s_config s) q"
    and op: "op_code p \<noteq> RESPONSE (opcodes (s_config s))" "\<not> is_stream_op (opcodes (s_config s)) (op_code p)"
      "RESPONSE (opcodes (c_config c)) = RESPONSE (opcodes (s_config s))"
    and rate: "rl_enabled (rate_limit (s_config s)) \<longrightarrow>
      fst (check_message_rate (se_fl SE) (us (clk 0)) (rate_limiter_id st) (s_rate_limiter s))"
    and handler: "m_find (if auth then s_request_handlers s else anon_request_handlers s) (op_code p) = Some (Some n)"
      "answers SE n h (parameters p) resp"
    and small: "length (parameters resp) \<le> 65533"
      "\<And>b. response_payload (RESPONSE (opcodes (c_config c))) (c_next_request_id c) resp = Inr b \<Longrightarrow>
         \<not> too_large (c_config c) b"
  shows "\<exists>pid c1 f1 s1 f2 c2 st2.
     client_async_request CE now p tmo c = (Inr pid, c1) \<and> c_sent c1 = c_sent c @ [f1]
     \<and> pid < length (promises (c_requests c1)) \<and> promises (c_requests c1) ! pid = Pending
     \<and> server_on_message SE clk h True f1 s = (Inr (), s1) \<and> s_sent s1 = s_sent s @ [(h, f2)]
     \<and> client_on_message CE True f2 c1 = (Inr (), c2)
     \<and> promises (c_requests c2) = (promises (c_requests c1))[pid := Value resp]
     \<and> session_of h s1 = Some (auth, st2) \<and> in_step (c_session c2) (cs_session st2)"
  using request_answered [where clk = clk and now = now and tmo = tmo, OF client_requests.reachable_table [OF fresh] sodium look conn step left net q op rate handler small]
  by blast

theorem request_answered_end_to_end_witness:
  "\<exists>pid c1 f1 s1 f2 c2.
     client_async_request idle_env 0 sample_payload 0 demo_c2 = (Inr pid, c1) \<and> promises (c_requests c1) ! pid = Pending
     \<and> server_on_message idle_server_env sample_clock 0 True f1 demo_s1 = (Inr (), s1)
     \<and> s_sent s1 = s_sent demo_s1 @ [(0, f2)]
     \<and> client_on_message idle_env True f2 c1 = (Inr (), c2)
     \<and> promises (c_requests c2) = (promises (c_requests c1))[pid := Value \<lparr>op_code = 7, parameters = []\<rparr>]"
proof -
  obtain st where st: "session_of 0 demo_s1 = Some (False, st)" "in_step (c_session demo_c2) (cs_session st)"
      "counters_left (c_session demo_c2)" "counters_left (cs_session st)"
    using demo_session by blast
  note conn = demo_connected
  note defaults = demo_config unlimited_config_def with_defaults_def Config_def ReservedOpcodes_defaults_def
    MessageLimitConfig_defaults_def RateLimitConfig_defaults_def
  let ?q = "\<lparr>op_code = 0x1234, parameters = framed (rev (store_le 4 (0 :: u32))) @ [0, 1, 42]\<rparr>"
  have q: "with_request_id (c_next_request_id demo_c2) sample_payload = Inr ?q"
    by (simp add: with_request_id_eq conn sample_payload_def)
  show ?thesis
    using request_answered_end_to_end [OF sample_fresh demo_c2_reachable, where CE = idle_env and SE = idle_server_env
        and h = 0 and s = demo_s1 and auth = False and st = st and p = sample_payload and q = ?q and n = 1
        and resp = "\<lparr>op_code = 7, parameters = []\<rparr>" and clk = sample_clock and now = 0 and tmo = 0,
        OF _ _ st(1) conn(1) st(2-4) _ _ q]
    by (force simp: defaults idle_env_def idle_server_env_def model_sodium_ok too_large_def is_stream_op_def
        sample_payload_def answers_def response_payload_eq framed_params_def)
qed

text \<open>A synchronous request of the client returns the answer. Take a client in step with its session on the
  server, which has a handler for the request; while the client waits, the network delivers its frame to
  the server and the server's to the client. Then \<^verbatim>\<open>sync_request\<close> returns exactly the handler's answer,
  whatever the timeout. And it always comes back once an effective timeout is set, whatever happens while
  it waits.\<close>

theorem sync_request_answered:
  assumes fresh: "fresh_client c0" "client_step\<^sup>*\<^sup>* c0 c"
    and sodium: "sodium_ok (ce_sodium CE)" "se_sodium SE = ce_sodium CE"
    and look: "session_of h s = Some (auth, st)" and conn: "is_connected c" and step: "in_step (c_session c) (cs_session st)"
    and left: "counters_left (c_session c)" "counters_left (cs_session st)"
    and net: "ce_transport CE (c_net_calls c) = None" "se_transport SE (s_net_calls s) = None"
    and rate: "rl_enabled (rate_limit (s_config s)) \<longrightarrow>
      fst (check_message_rate (se_fl SE) (us (clk 0)) (rate_limiter_id st) (s_rate_limiter s))"
    and op: "RESPONSE (opcodes (c_config c)) = RESPONSE (opcodes (s_config s))"
    and served: "served SE h auth (c_config c) s respond p"
  shows "(\<exists>c2. client_sync_request CE (round_trip CE SE clk h s) now p tmo c = Some (Inr (respond p), c2))
     \<and> (effective_timeout (c_config c) tmo \<noteq> 0 \<longrightarrow> (\<forall>wait. client_sync_request CE wait now p tmo c \<noteq> None))"
proof -
  obtain pid c1 f1 s1 f2 c2 where x: "client_async_request CE now p tmo c = (Inr pid, c1)" "c_sent c1 = c_sent c @ [f1]"
      "server_on_message SE clk h True f1 s = (Inr (), s1)" "s_sent s1 = s_sent s @ [(h, f2)]"
      "client_on_message CE True f2 c1 = (Inr (), c2)" "pid < length (promises (c_requests c1))"
      "promises (c_requests c2) = (promises (c_requests c1))[pid := Value (respond p)]"
    using served_answered [where clk = clk and now = now and tmo = tmo, OF client_requests.reachable_table [OF fresh] sodium look conn step left net rate op served]
    unfolding Let_def by blast
  have cfg: "c_config c1 = c_config c" using client_async_config [of CE now p tmo c] x(1) by simp
  have "round_trip CE SE clk h s c1 = c2" using x(2-5) by (simp add: round_trip_def)
  then have "client_sync_request CE (round_trip CE SE clk h s) now p tmo c = Some (Inr (respond p), c2)"
    using x(1,6,7) by (simp add: client_sync_request_def sync_result_eq)
  moreover have "client_sync_request CE wait now p tmo c \<noteq> None" if "effective_timeout (c_config c) tmo \<noteq> 0" for wait
    using x(1) that cfg by (simp add: client_sync_request_def sync_result_eq Let_def)
  ultimately show ?thesis by blast
qed

theorem sync_request_answered_witness:
  "\<exists>c2. client_sync_request idle_env (round_trip idle_env idle_server_env sample_clock 0 demo_s1) 0 sample_payload 250 demo_c2
     = Some (Inr \<lparr>op_code = 7, parameters = []\<rparr>, c2)"
proof -
  obtain st where st: "session_of 0 demo_s1 = Some (False, st)" "in_step (c_session demo_c2) (cs_session st)"
      "counters_left (c_session demo_c2)" "counters_left (cs_session st)"
    using demo_session by blast
  show ?thesis
    using sync_request_answered [OF sample_fresh demo_c2_reachable, where CE = idle_env and SE = idle_server_env and h = 0
        and s = demo_s1 and p = sample_payload and respond = "\<lambda>_. \<lparr>op_code = 7, parameters = []\<rparr>" and clk = sample_clock,
        OF _ _ st(1) demo_connected(1) st(2-4) _ _ _ _ demo_served]
    by (force simp: demo_defaults idle_env_def idle_server_env_def model_sodium_ok)
qed



section \<open>Streams\<close>

text \<open>C29: a client's stream arrives end to end. \<^verbatim>\<open>start_stream(op)\<close> of a client in step with its session
  on the server enters a new stream with an even identifier (never one the server gives) and sends
  one frame; the server's message handler files a stream under that connection and the same
  identifier, with the opcode if the negotiated version announces opcodes and without it before
  version 1.1, and then calls the handler registered for what was announced.\<close>

theorem stream_opened_end_to_end:
  assumes sodium: "sodium_ok (ce_sodium CE)" "se_sodium SE = ce_sodium CE"
    and look: "session_of h s = Some (auth, st)" and conn: "is_connected c" and step: "in_step (c_session c) (cs_session st)"
    and left: "counters_left (c_session c)" and net: "ce_transport CE (c_net_calls c) = None"
    and sid: "sid = c_next_outgoing_stream_id c * 2" and ann: "ann = announced (c_session c) op"
    and q: "q = start_message (opcodes (s_config s)) sid ann" "\<not> too_large (c_config c) q" "\<not> too_large (s_config s) q"
    and oc: "STREAM_START (opcodes (s_config s)) \<noteq> RESPONSE (opcodes (s_config s))"
      "STREAM_START (opcodes (c_config c)) = STREAM_START (opcodes (s_config s))"
    and rate: "rl_enabled (rate_limit (s_config s)) \<longrightarrow>
      fst (check_message_rate (se_fl SE) (us (clk 0)) (rate_limiter_id st) (s_rate_limiter s))"
  shows "\<exists>ref c1 f t.
     client_start_stream_op CE op c = (Inr ref, c1) \<and> c_sent c1 = c_sent c @ [f]
     \<and> find_stream sid c1 = Some (Stream sid () (Some op)) \<and> (\<forall>k. sid \<noteq> k * 2 + 1)
     \<and> server_on_message SE clk h True f s =
         catch_std (call_if (select_stream_handler (if auth then s_stream_handlers s else anon_stream_handlers s)
             (s_incoming_stream_handler s) ann) (\<lambda>n. se_stream SE n (length (s_streams s))) t) (\<lambda>s. (Inr (), s))
     \<and> server_find_stream h sid t = Some (Stream sid (h, auth) ann)
     \<and> (\<exists>st'. lookup_session auth h t = Some st' \<and> in_step (c_session c1) (cs_session st'))"
proof -
  let ?sess = "(cs_session st)\<lparr>recv_counter := send_counter (c_session c) + 1\<rparr>"
  have q': "q = start_message (opcodes (c_config c)) sid (announced (c_session c) op)"
    using q(1) oc(2) ann by simp
  obtain f c1 where c1: "client_start_stream_op CE op c = (Inr (length (c_streams c)), c1)" "c_sent c1 = c_sent c @ [f]"
      "find_stream sid c1 = Some (Stream sid () (Some op))"
      "decrypt_packet (ce_sodium CE) f (cs_session st) = (Inr q, ?sess)" "in_step (c_session c1) ?sess"
    using client_stream_passes [OF sodium(1) step left conn net sid q' q(2)] by blast
  have dec: "decrypt_packet (se_sodium SE) f (cs_session st) = (Inr q, ?sess)" using c1(4) sodium(2) by simp
  have "even sid" using sid by simp
  then have "\<forall>k. sid \<noteq> k * 2 + 1" by auto
  then show ?thesis
    using server_opens_stream [where clk = clk, OF look step dec q(1,3) oc(1) rate] c1(1-3,5) by auto
qed

theorem stream_opened_end_to_end_witness:
  "\<exists>ref c1 f t.
     client_start_stream_op idle_env 0x2345 demo_c2 = (Inr ref, c1) \<and> c_sent c1 = c_sent demo_c2 @ [f]
     \<and> server_on_message idle_server_env sample_clock 0 True f demo_s1 =
         catch_std (call_if (select_stream_handler (anon_stream_handlers demo_s1)
             (s_incoming_stream_handler demo_s1) (Some 0x2345)) (\<lambda>n. se_stream idle_server_env n (length (s_streams demo_s1))) t)
           (\<lambda>s. (Inr (), s))
     \<and> server_find_stream 0 0 t = Some (Stream 0 (0, False) (Some 0x2345))"
proof -
  obtain st where st: "session_of 0 demo_s1 = Some (False, st)" "in_step (c_session demo_c2) (cs_session st)"
      "counters_left (c_session demo_c2)"
    using demo_session by blast
  note cfg = demo_config unlimited_config_def with_defaults_def Config_def ReservedOpcodes_defaults_def
    MessageLimitConfig_defaults_def RateLimitConfig_defaults_def
  let ?q = "start_message ReservedOpcodes_defaults 0 (Some 0x2345)"
  have ann: "Some 0x2345 = announced (c_session demo_c2) 0x2345" and sid: "0 = c_next_outgoing_stream_id demo_c2 * 2"
    by code_simp+
  show ?thesis
    using stream_opened_end_to_end [where CE = idle_env and SE = idle_server_env and clk = sample_clock and q = ?q,
        OF _ _ st(1) demo_connected(1) st(2,3) _ sid ann]
    by (force simp: cfg idle_env_def idle_server_env_def model_sodium_ok too_large_def framed_params_def)
qed

text \<open>C40: the stream tables are well formed. In every reachable state of a client, an active stream
  identifier refers to an existing stream with that identifier; in every reachable state of a server,
  an entry under a connection and an identifier refers to an existing stream with that identifier
  that sends to that connection.\<close>

theorem stream_tables_well_formed:
  assumes "fresh_client c0" and "client_step\<^sup>*\<^sup>* c0 c" and "fresh_server s0" and "server_step\<^sup>*\<^sup>* s0 s"
  shows "(\<forall>sid ref. m_find (active_streams c) sid = Some ref \<longrightarrow>
        ref < length (c_streams c) \<and> get_stream_id (c_streams c ! ref) = sid)
     \<and> (\<forall>h sid ref. m_find (per_connection_streams s) (h, sid) = Some ref \<longrightarrow>
          ref < length (s_streams s) \<and> get_stream_id (s_streams s ! ref) = sid \<and> fst (send_fn (s_streams s ! ref)) = h)"
  using client_machine.reachable_inv [OF assms(1,2)] reachable_links [OF assms(3,4)]
  by (simp add: client_inv_def refs_ok_def links_ok_def streams_ok_def get_stream_id_def)

theorem stream_tables_well_formed_witness:
  "active_streams (snd (client_start_stream idle_env demo_c2)) = [(0, 0)]
   \<and> get_stream_id (c_streams (snd (client_start_stream idle_env demo_c2)) ! 0) = 0"
proof -
  have "client_step demo_c2 (snd (client_start_stream idle_env demo_c2))"
    by (rule client_step.api [of idle_env]) (simp_all add: api_step.start_stream idle_env_def model_sodium_ok)
  with demo_c2_reachable
  have "client_step\<^sup>*\<^sup>* (WsClientWrapper sample_server_key with_defaults) (snd (client_start_stream idle_env demo_c2))"
    by (rule rtranclp.rtrancl_into_rtrancl)
  moreover have "c_streams demo_c2 = [] \<and> active_streams demo_c2 = [] \<and> c_next_outgoing_stream_id demo_c2 = 0"
    by code_simp
  then have "active_streams (snd (client_start_stream idle_env demo_c2)) = [(0, 0)]"
    by (simp add: client_start_stream_def client_add_stream_def stream_start_payload_eq snd_and_then_Inr Let_def)
  ultimately show ?thesis
    using stream_tables_well_formed [OF sample_fresh _ sample_server0_fresh rtranclp.rtrancl_refl] by simp
qed

section \<open>Configuration\<close>

text \<open>A missing configuration file disables the server. \<^verbatim>\<open>from_yaml\<close> then returns a configuration
  without a single protocol version, and a server so configured takes up no connection: no message
  on a connection without a session ever leaves one behind, whatever the client offers.\<close>

theorem missing_config_admits_nobody:
  assumes "s_config s = cfg" and "from_yaml None = Inr (cfg, ws)"
    and "lookup_session True h s = None" and "lookup_session False h s = None"
  shows "cfg_supported_versions cfg = []
     \<and> lookup_session a h (snd (server_on_message E clk h binary data s)) = None"
proof -
  have "cfg_supported_versions cfg = []"
    using assms(2) by (auto simp: from_yaml_def Config_def)
  moreover have "lookup_session b h s = None" for b using assms(3,4) by (cases b) simp_all
  ultimately show ?thesis
    using no_versions_no_session [of s h a E clk binary data] assms(1) by blast
qed

theorem missing_config_admits_nobody_witness:
  "\<exists>cfg ws. from_yaml None = Inr (cfg, ws)
     \<and> lookup_session True 0 (snd (server_on_message idle_server_env sample_clock 0 True
          (hello_bytes sample_client) (WsServerWrapper sample_server_key cfg))) = None"
proof -
  obtain cfg ws where cfg: "from_yaml None = Inr (cfg, ws)"
    by (simp add: from_yaml_def)
  then show ?thesis
    using missing_config_admits_nobody [of "WsServerWrapper sample_server_key cfg" cfg ws 0 True]
    by (auto simp: WsServerWrapper_def lookup_session_def)
qed

end
